(* ===== verification/Prelude.thy ===== *)
theory Prelude
  imports Main "HOL-Library.Word"
begin

unbundle bit_operations_syntax

text \<open>
  Shared material of the development: the byte and integer types of the C code, buffers as
  byte lists with the effect of \<^verbatim>\<open>memcpy\<close> at an offset, the memory representation of the
  16 and 32 bit integers on the little-endian hosts the programs run on and the byte-order
  functions \<^verbatim>\<open>htons\<close>, \<^verbatim>\<open>htonl\<close>, socket addresses, computations that may fail, and the
  interfaces that several components provide: fixed-width codecs, first-in first-out queues,
  step functions that keep an invariant, and loops in which everyone has one turn.
\<close>

section \<open>Types of the C code\<close>

type_synonym byte = "8 word"
type_synonym u16 = "16 word"
type_synonym u32 = "32 word"
type_synonym u64 = "64 word"

text \<open>An IPv4 socket address, with the address and the port in host order
  (\<^verbatim>\<open>struct sockaddr_in\<close> after \<^verbatim>\<open>ntohl\<close> and \<^verbatim>\<open>ntohs\<close>).\<close>

record sockaddr =
  sin_addr :: u32
  sin_port :: u16

definition ipv4 :: "byte \<Rightarrow> byte \<Rightarrow> byte \<Rightarrow> byte \<Rightarrow> u32" where
  "ipv4 a b c d = push_bit 24 (ucast a) OR push_bit 16 (ucast b) OR push_bit 8 (ucast c) OR ucast d"

section \<open>Buffers\<close>

text \<open>Facts on where a write to a buffer is seen and where it is not.\<close>

named_theorems layout

definition get_bytes :: "nat \<Rightarrow> nat \<Rightarrow> byte list \<Rightarrow> byte list" where
  "get_bytes off n buf = take n (drop off buf)"

text \<open>\<^verbatim>\<open>memcpy (buf + off, src, length src)\<close>; the callers establish that the write fits.\<close>

definition put_bytes :: "nat \<Rightarrow> byte list \<Rightarrow> byte list \<Rightarrow> byte list" where
  "put_bytes off src buf = take off buf @ src @ drop (off + length src) buf"

section \<open>Integers in memory\<close>

definition le16 :: "u16 \<Rightarrow> byte list" where
  "le16 w = [ucast w, ucast (drop_bit 8 w)]"

definition of_le16 :: "byte list \<Rightarrow> u16" where
  "of_le16 bs = ucast (bs ! 0) OR push_bit 8 (ucast (bs ! 1))"

definition be16 :: "u16 \<Rightarrow> byte list" where
  "be16 w = [ucast (drop_bit 8 w), ucast w]"

definition of_be16 :: "byte list \<Rightarrow> u16" where
  "of_be16 bs = push_bit 8 (ucast (bs ! 0)) OR ucast (bs ! 1)"

definition le32 :: "u32 \<Rightarrow> byte list" where
  "le32 w = [ucast w, ucast (drop_bit 8 w), ucast (drop_bit 16 w), ucast (drop_bit 24 w)]"

definition of_le32 :: "byte list \<Rightarrow> u32" where
  "of_le32 bs = ucast (bs ! 0) OR push_bit 8 (ucast (bs ! 1)) OR
     push_bit 16 (ucast (bs ! 2)) OR push_bit 24 (ucast (bs ! 3))"

definition be32 :: "u32 \<Rightarrow> byte list" where
  "be32 w = [ucast (drop_bit 24 w), ucast (drop_bit 16 w), ucast (drop_bit 8 w), ucast w]"

definition of_be32 :: "byte list \<Rightarrow> u32" where
  "of_be32 bs = push_bit 24 (ucast (bs ! 0)) OR push_bit 16 (ucast (bs ! 1)) OR
     push_bit 8 (ucast (bs ! 2)) OR ucast (bs ! 3)"

text \<open>On a little-endian host the value of \<^verbatim>\<open>htonl (w)\<close> is the integer whose bytes in memory
  are \<open>w\<close> in network order.\<close>

definition htonl :: "u32 \<Rightarrow> u32" where
  "htonl w = of_le32 (be32 w)"

definition ntohl :: "u32 \<Rightarrow> u32" where
  "ntohl w = of_be32 (le32 w)"

definition htons :: "u16 \<Rightarrow> u16" where
  "htons w = of_le16 (be16 w)"

definition ntohs :: "u16 \<Rightarrow> u16" where
  "ntohs w = of_be16 (le16 w)"

section \<open>Computations that may fail\<close>

definition rbind :: "'e + 'a \<Rightarrow> ('a \<Rightarrow> 'e + 'b) \<Rightarrow> 'e + 'b" where
  "rbind m f = (case m of Inl e \<Rightarrow> Inl e | Inr x \<Rightarrow> f x)"

definition guard_err :: "'e \<Rightarrow> bool \<Rightarrow> 'e + unit" where
  "guard_err e b = (if b then Inr () else Inl e)"

text \<open>Running a list of inputs through a step that may fail stops at the first failure.\<close>

fun rfold :: "('i \<Rightarrow> 's \<Rightarrow> 'e + 's) \<Rightarrow> 'i list \<Rightarrow> 's \<Rightarrow> 'e + 's" where
  "rfold step [] s = Inr s"
| "rfold step (x # xs) s = rbind (step x s) (rfold step xs)"

text \<open>Taking elements out of a queue until it is empty or \<open>n\<close> have been taken.\<close>

fun drain :: "('q \<Rightarrow> ('a \<times> 'q) option) \<Rightarrow> nat \<Rightarrow> 'q \<Rightarrow> 'a list \<times> 'q" where
  "drain deq 0 q = ([], q)"
| "drain deq (Suc n) q =
     (case deq q of None \<Rightarrow> ([], q)
      | Some (x, q') \<Rightarrow> (let (xs, q'') = drain deq n q' in (x # xs, q'')))"

section \<open>Interfaces\<close>

text \<open>A fixed-width codec.\<close>

locale codec =
  fixes enc :: "'a \<Rightarrow> byte list"
    and dec :: "byte list \<Rightarrow> 'a"
    and width :: nat
  assumes enc_length: "length (enc x) = width"
    and dec_enc: "dec (enc x) = x"

text \<open>A first-in first-out queue, with its contents listed oldest first.\<close>

locale fifo =
  fixes enq :: "'a \<Rightarrow> 'q \<Rightarrow> 'q"
    and deq :: "'q \<Rightarrow> ('a \<times> 'q) option"
    and contents :: "'q \<Rightarrow> 'a list"
    and invar :: "'q \<Rightarrow> bool"
  assumes invar_enq: "invar q \<Longrightarrow> invar (enq x q)"
    and contents_enq: "invar q \<Longrightarrow> contents (enq x q) = contents q @ [x]"
    and deq_none: "invar q \<Longrightarrow> contents q = [] \<Longrightarrow> deq q = None"
    and deq_some: "invar q \<Longrightarrow> contents q = x # xs \<Longrightarrow>
          \<exists>q'. deq q = Some (x, q') \<and> contents q' = xs \<and> invar q'"

text \<open>A step function that keeps an invariant, and one that may fail.\<close>

locale keeps =
  fixes step :: "'i \<Rightarrow> 's \<Rightarrow> 's"
    and inv :: "'s \<Rightarrow> bool"
  assumes step_inv: "inv s \<Longrightarrow> inv (step i s)"

locale keeps_err =
  fixes step :: "'i \<Rightarrow> 's \<Rightarrow> 'e + 's"
    and inv :: "'s \<Rightarrow> bool"
  assumes step_inv: "inv s \<Longrightarrow> step i s = Inr s' \<Longrightarrow> inv s'"

text \<open>The same for steps that keep the invariant only on inputs of some kind.\<close>

locale keeps_on =
  fixes step :: "'i \<Rightarrow> 's \<Rightarrow> 's"
    and inv :: "'s \<Rightarrow> bool"
    and good :: "'i \<Rightarrow> bool"
  assumes step_on_inv: "good i \<Longrightarrow> inv s \<Longrightarrow> inv (step i s)"

locale keeps_err_on =
  fixes step :: "'i \<Rightarrow> 's \<Rightarrow> 'e + 's"
    and inv :: "'s \<Rightarrow> bool"
    and good :: "'i \<Rightarrow> bool"
  assumes step_on_inv: "good i \<Longrightarrow> inv s \<Longrightarrow> step i s = Inr s' \<Longrightarrow> inv s'"

text \<open>A loop in which everyone has a turn, observed from one of them, \<open>me\<close>: the turns of the others do not change what
  it sees (\<open>view\<close>), and its own turn changes it as \<open>rel\<close> says. \<open>inv\<close> is what both rely on.\<close>

locale turns = keeps_err_on step inv good
  for step :: "'i \<Rightarrow> 's \<Rightarrow> 'e + 's" and inv :: "'s \<Rightarrow> bool" and good :: "'i \<Rightarrow> bool" +
  fixes me :: 'i
    and view :: "'s \<Rightarrow> 'v"
    and rel :: "'v \<Rightarrow> 'v \<Rightarrow> bool"
  assumes other_turn: "good i \<Longrightarrow> i \<noteq> me \<Longrightarrow> inv s \<Longrightarrow> step i s = Inr s' \<Longrightarrow> view s' = view s"
    and my_turn: "good me \<Longrightarrow> inv s \<Longrightarrow> step me s = Inr s' \<Longrightarrow> rel (view s) (view s')"

section \<open>Lemmas\<close>

subsection \<open>Results\<close>

lemma rbind_simps [simp]:
  "rbind (Inl e) f = Inl e"
  "rbind (Inr x) f = f x"
  by (simp_all add: rbind_def)

lemma rbind_Inr_right [simp]: "rbind m Inr = m"
  by (cases m) simp_all

lemma rbind_assoc: "rbind (rbind m f) g = rbind m (\<lambda>x. rbind (f x) g)"
  by (cases m) simp_all

lemma rbind_Inr_conv: "rbind m f = Inr y \<longleftrightarrow> (\<exists>x. m = Inr x \<and> f x = Inr y)"
  by (cases m) auto

lemma rbind_InrE: "rbind m f = Inr y \<Longrightarrow> (\<And>x. m = Inr x \<Longrightarrow> f x = Inr y \<Longrightarrow> P) \<Longrightarrow> P"
  by (auto simp: rbind_def split: sum.splits)

lemma rbind_Inl_conv: "rbind m f = Inl e \<longleftrightarrow> m = Inl e \<or> (\<exists>x. m = Inr x \<and> f x = Inl e)"
  by (cases m) auto

lemma guard_err_Inr [simp]: "guard_err e b = Inr u \<longleftrightarrow> b"
  by (simp add: guard_err_def)

lemma rfold_append: "rfold step (xs @ ys) s = rbind (rfold step xs s) (rfold step ys)"
proof (induction xs arbitrary: s)
  case Nil
  then show ?case by simp
next
  case (Cons x xs)
  then show ?case by (cases "step x s") simp_all
qed

subsection \<open>Buffers\<close>

lemma length_put_bytes [simp]:
  "off + length src \<le> length buf \<Longrightarrow> length (put_bytes off src buf) = length buf"
  by (simp add: put_bytes_def)

lemma get_put_same [layout]:
  "off + length src \<le> length buf \<Longrightarrow> n = length src \<Longrightarrow> get_bytes off n (put_bytes off src buf) = src"
  by (simp add: get_bytes_def put_bytes_def)

lemma nth_put_bytes:
  assumes "off + length src \<le> length buf"
  shows "put_bytes off src buf ! i =
    (if i < off then buf ! i else if i < off + length src then src ! (i - off) else buf ! i)"
proof -
  have "i < length buf \<or> length buf \<le> i" by arith
  then show ?thesis using assms
    by (cases "i < off"; cases "i < off + length src") (auto simp: put_bytes_def nth_append)
qed

lemma take_put_bytes [layout]: "n \<le> off \<Longrightarrow> off \<le> length buf \<Longrightarrow> take n (put_bytes off src buf) = take n buf"
  by (simp add: put_bytes_def)

lemma drop_put_bytes [layout]:
  "off + length src \<le> n \<Longrightarrow> n \<le> length buf \<Longrightarrow> drop n (put_bytes off src buf) = drop n buf"
  by (simp add: put_bytes_def)

lemma get_put_before [layout]:
  "i + n \<le> off \<Longrightarrow> off \<le> length buf \<Longrightarrow> get_bytes i n (put_bytes off src buf) = get_bytes i n buf"
proof -
  assume "i + n \<le> off" and "off \<le> length buf"
  then have "take (i + n) (put_bytes off src buf) = take (i + n) buf" by (rule take_put_bytes)
  then show ?thesis unfolding get_bytes_def
    by (metis add.commute take_drop)
qed

lemma get_put_after [layout]:
  "off + length src \<le> i \<Longrightarrow> i \<le> length buf \<Longrightarrow>
     get_bytes i n (put_bytes off src buf) = get_bytes i n buf"
  by (simp add: get_bytes_def drop_put_bytes)

lemma length_get_bytes [simp]: "length (get_bytes off n buf) = min n (length buf - off)"
  by (simp add: get_bytes_def)

subsection \<open>Integers in memory\<close>

lemmas endian_defs = le16_def of_le16_def be16_def of_be16_def le32_def of_le32_def be32_def of_be32_def

lemma length_endian [simp]:
  "length (le16 h) = 2" "length (be16 h) = 2" "length (le32 w) = 4" "length (be32 w) = 4"
  by (simp_all add: endian_defs)

lemma byte_index_cases:
  fixes n :: nat
  assumes "n < 32"
  obtains "n < 8" | "8 \<le> n" "n < 16" | "16 \<le> n" "n < 24" | "24 \<le> n" "n < 32"
  using assms by linarith

lemma of_le16_le16 [simp]: "of_le16 (le16 w) = w"
  by (rule bit_word_eqI) (auto simp: endian_defs bit_simps)

lemma of_be16_be16 [simp]: "of_be16 (be16 w) = w"
  by (rule bit_word_eqI) (auto simp: endian_defs bit_simps)

lemma of_le32_le32 [simp]: "of_le32 (le32 w) = w"
proof (rule bit_word_eqI)
  fix n assume "n < LENGTH(32)"
  then have "n < 32" by simp
  then show "bit (of_le32 (le32 w)) n = bit w n"
    by (cases rule: byte_index_cases) (auto simp: endian_defs bit_simps)
qed

lemma of_be32_be32 [simp]: "of_be32 (be32 w) = w"
proof (rule bit_word_eqI)
  fix n assume "n < LENGTH(32)"
  then have "n < 32" by simp
  then show "bit (of_be32 (be32 w)) n = bit w n"
    by (cases rule: byte_index_cases) (auto simp: endian_defs bit_simps)
qed

lemma unat_byte: "n < 256 \<Longrightarrow> unat (of_nat n :: byte) = n"
  by (simp add: unat_of_nat)

lemma byte_bit_high: "8 \<le> m \<Longrightarrow> \<not> bit (a :: byte) m"
  using bit_imp_le_length [of a m] by auto

lemma byte_mem_simps [simp]:
  "le16 (of_le16 [a, b]) = [a, b]"
  "be16 (of_be16 [a, b]) = [a, b]"
  by (auto simp: endian_defs bit_simps byte_bit_high intro!: bit_word_eqI)

lemma le32_of_le32 [simp]: "le32 (of_le32 [a, b, c, d]) = [a, b, c, d]"
  by (auto simp: endian_defs bit_simps byte_bit_high intro!: bit_word_eqI)

lemma be32_of_be32 [simp]: "be32 (of_be32 [a, b, c, d]) = [a, b, c, d]"
  by (auto simp: endian_defs bit_simps byte_bit_high intro!: bit_word_eqI)

text \<open>What \<^verbatim>\<open>htonl\<close> and \<^verbatim>\<open>ntohs\<close> do to the bytes in memory.\<close>

lemma le32_htonl: "le32 (htonl w) = be32 w"
  by (simp add: htonl_def be32_def)

lemma ntohl_htonl [simp]: "ntohl (htonl w) = w"
  by (simp add: ntohl_def le32_htonl)

lemma le16_htons: "le16 (htons w) = be16 w"
  by (simp add: htons_def be16_def)

lemma ntohs_htons [simp]: "ntohs (htons w) = w"
  by (simp add: ntohs_def le16_htons)

lemma ntohs_of_le16: "length bs = 2 \<Longrightarrow> ntohs (of_le16 bs) = of_be16 bs"
  by (cases bs; cases "tl bs") (auto simp: ntohs_def)

subsection \<open>Codecs\<close>

context codec
begin

lemma enc_inj: "enc x = enc y \<longleftrightarrow> x = y"
  by (metis dec_enc)

lemma dec_take: "dec (take width (enc x @ rest)) = x"
  by (simp add: enc_length dec_enc)

text \<open>A value stored in a buffer is read back, whatever the buffer held.\<close>

lemma store_load:
  "off + width \<le> length buf \<Longrightarrow> dec (get_bytes off width (put_bytes off (enc x) buf)) = x"
  by (simp add: layout enc_length dec_enc)

text \<open>It is still read back after a write elsewhere.\<close>

lemma store_frame:
  assumes "off + width \<le> length buf" and "off' + length src \<le> length buf"
    and "off' + length src \<le> off \<or> off + width \<le> off'"
  shows "dec (get_bytes off width (put_bytes off' src (put_bytes off (enc x) buf))) = x"
  using assms by (auto simp: layout enc_length dec_enc)

end

interpretation le16: codec le16 of_le16 2
  by unfold_locales simp_all

interpretation be16: codec be16 of_be16 2
  by unfold_locales simp_all

interpretation le32: codec le32 of_le32 4
  by unfold_locales simp_all

interpretation be32: codec be32 of_be32 4
  by unfold_locales simp_all

subsection \<open>Invariants\<close>

context keeps
begin

lemma run_inv: "inv s \<Longrightarrow> inv (fold step es s)"
  by (induction es arbitrary: s) (simp_all add: step_inv)

end

context keeps_err
begin

lemma run_err_inv: "inv s \<Longrightarrow> rfold step es s = Inr s' \<Longrightarrow> inv s'"
  by (induction es arbitrary: s) (auto simp: rbind_Inr_conv intro: step_inv)

end

context keeps_on
begin

lemma run_on_inv: "list_all good es \<Longrightarrow> inv s \<Longrightarrow> inv (fold step es s)"
  by (induction es arbitrary: s) (simp_all add: step_on_inv)

end

context keeps_err_on
begin

lemma run_on_inv: "list_all good es \<Longrightarrow> inv s \<Longrightarrow> rfold step es s = Inr s' \<Longrightarrow> inv s'"
  by (induction es arbitrary: s) (auto simp: rbind_Inr_conv intro: step_on_inv)

end

sublocale keeps < keeps_on step inv "\<lambda>_. True"
  by unfold_locales (rule step_inv)

sublocale keeps_err < keeps_err_on step inv "\<lambda>_. True"
  by unfold_locales (rule step_inv)

context turns
begin

lemma others_keep:
  assumes "list_all good es" and "me \<notin> set es" and "inv s" and "rfold step es s = Inr s'"
  shows "view s' = view s"
  using assms
proof (induction es arbitrary: s)
  case (Cons e es)
  then obtain s1 where 1: "step e s = Inr s1" "rfold step es s1 = Inr s'" by (auto simp: rbind_Inr_conv)
  have "good e" "e \<noteq> me" using Cons.prems by auto
  then have "view s1 = view s" "inv s1" using other_turn step_on_inv Cons.prems(3) 1(1) by blast+
  then show ?case using Cons.IH [OF _ _ _ 1(2)] Cons.prems by simp
qed simp

lemma one_turn:
  assumes "list_all good es" and "distinct es" and "me \<in> set es" and "inv s" and "rfold step es s = Inr s'"
  shows "rel (view s) (view s')"
  using assms
proof (induction es arbitrary: s)
  case (Cons e es)
  then obtain s1 where 1: "step e s = Inr s1" "rfold step es s1 = Inr s'" by (auto simp: rbind_Inr_conv)
  have e: "good e" "list_all good es" "inv s1" using Cons.prems step_on_inv 1(1) by auto
  show ?case
  proof (cases "e = me")
    case True
    then have "view s' = view s1" using others_keep [OF e(2) _ e(3) 1(2)] Cons.prems(2) by simp
    then show ?thesis using my_turn [of s s1] True e(1) Cons.prems(4) 1(1) by simp
  next
    case False
    then have "view s1 = view s" using other_turn e(1) Cons.prems(4) 1(1) by blast
    then show ?thesis using Cons.IH [OF e(2) _ _ e(3) 1(2)] Cons.prems(2,3) False by simp
  qed
qed simp

end

subsection \<open>Queues\<close>

text \<open>Putting elements into a queue is a step that keeps the invariant.\<close>

sublocale fifo < enqs: keeps enq invar
  by unfold_locales (rule invar_enq)

context fifo
begin

lemma fold_contents: "invar q \<Longrightarrow> contents (fold enq xs q) = contents q @ xs"
  by (induction xs arbitrary: q) (simp_all add: invar_enq contents_enq)

lemmas fold_enq = enqs.run_inv fold_contents

text \<open>Draining yields the oldest elements first and leaves the rest in order.\<close>

lemma drain_contents:
  "invar q \<Longrightarrow> n \<le> length (contents q) \<Longrightarrow>
     \<exists>q'. drain deq n q = (take n (contents q), q') \<and> invar q' \<and> contents q' = drop n (contents q)"
proof (induction n arbitrary: q)
  case 0
  then show ?case by simp
next
  case (Suc n)
  then obtain x xs where c: "contents q = x # xs"
    by (cases "contents q") simp_all
  with Suc.prems(1) obtain q' where q': "deq q = Some (x, q')" "contents q' = xs" "invar q'"
    using deq_some by blast
  moreover have "n \<le> length (contents q')" using Suc.prems(2) c q'(2) by simp
  ultimately obtain q'' where "drain deq n q' = (take n xs, q'')" "invar q''"
    "contents q'' = drop n xs"
    using Suc.IH [of q'] by auto
  with q' c show ?case by simp
qed

text \<open>What was put into an empty queue comes out in the order it was put in, and the queue is
  empty again.\<close>

lemma enq_drain:
  assumes "invar q" and "contents q = []"
  shows "\<exists>q'. drain deq (length xs) (fold enq xs q) = (xs, q') \<and> invar q' \<and> contents q' = []"
  using fold_enq(1) [OF assms(1), of xs] fold_enq(2) [OF assms(1), of xs] drain_contents [of "fold enq xs q" "length xs"] assms(2)
  by auto

end

end
