(* ===== verification/Packet_Terminal.thy ===== *)
theory Packet_Terminal
  imports Prelude
begin

text \<open>
  The packet terminal (\<^verbatim>\<open>src/packet_terminal/src/packet_terminal.h\<close> and \<^verbatim>\<open>packet_terminal.c\<close>):
  a proxy between the eNB and the EPC. The downlink thread reads the GTP-U datagrams of the
  EPC, learns the tunnel ids (TEID) of up to three dedicated bearers from datagrams of the ICM
  task, and writes the TEID of the bearer of the UDP source port into the GTP header. The
  uplink thread forwards unchanged. Both push a record of each datagram on a linked list, and
  a third thread removes the oldest record; the list is protected by a mutex.

  \<^item> The buffers are byte lists of length \<open>BUFFSIZE\<close>; they are reused from one datagram to
    the next, so bytes of an earlier datagram remain after a shorter one, as in the code.
  \<^item> \<^verbatim>\<open>teid_array\<close> is not initialised by the code: its first contents are a parameter.
  \<^item> The linked list is a heap of cells with \<^verbatim>\<open>next\<close> pointers. \<^verbatim>\<open>malloc\<close> hands out a new
    address each time and is assumed to succeed.
  \<^item> Reading past the end of an array and following a null or freed pointer are errors.
  \<^item> One iteration of a thread's loop is one step of the system: an iteration touches shared
    data only inside one critical section, apart from the flag \<^verbatim>\<open>run\<close>, which is read at the
    head of the loop before the thread blocks in \<^verbatim>\<open>recvfrom\<close>.
\<close>

section \<open>Constants and data\<close>

definition BUFFSIZE :: nat where "BUFFSIZE = 2048"
definition MAX_DRB :: nat where "MAX_DRB = 3"
definition IPV4_ADDR_ENB :: u32 where "IPV4_ADDR_ENB = ipv4 192 168 178 41"
definition IPV4_ADDR_EPC :: u32 where "IPV4_ADDR_EPC = ipv4 192 168 178 42"
definition PORT_REMOTE_ENB :: u16 where "PORT_REMOTE_ENB = 2151"
definition PORT_ENB :: u16 where "PORT_ENB = 2150"
definition PORT_REMOTE_EPC :: u16 where "PORT_REMOTE_EPC = 2152"
definition PORT_EPC :: u16 where "PORT_EPC = 2152"
definition PORT_ICM :: u16 where "PORT_ICM = 6000"
definition PORT1 :: u16 where "PORT1 = 6001"
definition PORT2 :: u16 where "PORT2 = 6002"
definition PORT3 :: u16 where "PORT3 = 6003"

datatype direction_type = UPSTREAM | DOWNSTREAM

datatype pt_error =
    Strcpy_Overrun   \<comment> \<open>no NUL byte in the source array\<close>
  | Bad_Pointer      \<comment> \<open>null or dangling pointer followed\<close>

text \<open>\<open>data\<close> holds the bytes of the array that were written; the rest is indeterminate and
  never read.\<close>

record queue_item =
  data :: "byte list"
  numb_data :: u64
  direction :: direction_type
  nxt :: "nat option"

record queue_mem =
  cells :: "nat \<rightharpoonup> queue_item"
  brk :: nat
  anchor :: "nat option"

definition empty_queue :: queue_mem where
  "empty_queue = \<lparr>cells = Map.empty, brk = 0, anchor = None\<rparr>"

text \<open>What a socket call does: a datagram with its source, or an error return.\<close>

datatype rx = Rx "byte list" sockaddr | Rx_Err

datatype sock = Sock_Enb | Sock_Epc

text \<open>A datagram handed to \<^verbatim>\<open>sendto\<close>, or a call with a length that is not a length of the
  buffer (a negative \<^verbatim>\<open>int\<close> converted to \<^verbatim>\<open>size_t\<close>), which the kernel refuses.\<close>

datatype tx = Tx sock "byte list" sockaddr | Tx_Fault sock sockaddr

record down_state =
  buffer :: "byte list"
  teid_array :: "u32 list"
  index_drb :: nat
  teid :: u32
  counter :: "int list"
  from_addr :: sockaddr

datatype thread_pc = Waiting | Finished

record pt_state =
  run :: bool
  alive :: bool
  queue :: queue_mem
  up_buffer :: "byte list"
  down :: down_state
  up_pc :: thread_pc
  down_pc :: thread_pc
  print_pc :: thread_pc
  sent :: "tx list"

section \<open>The linked list\<close>

text \<open>\<^verbatim>\<open>strcpy\<close>: the bytes up to and including the first NUL, or none if the array has no
  NUL byte.\<close>

fun c_string :: "byte list \<Rightarrow> byte list option" where
  "c_string [] = None"
| "c_string (b # bs) = (if b = 0 then Some [0] else map_option ((#) b) (c_string bs))"

definition link_item :: "byte list \<times> u64 \<times> direction_type \<Rightarrow> queue_mem \<Rightarrow> queue_mem" where
  "link_item x q = (case x of (s, n, d) \<Rightarrow>
     q\<lparr>cells := (cells q)(brk q \<mapsto> \<lparr>data = s, numb_data = n, direction = d, nxt = anchor q\<rparr>),
       brk := Suc (brk q), anchor := Some (brk q)\<rparr>)"

definition add_queue_item ::
  "byte list \<Rightarrow> direction_type \<Rightarrow> int \<Rightarrow> queue_mem \<Rightarrow> pt_error + queue_mem" where
  "add_queue_item dat direc numb q =
     (case c_string dat of
        None \<Rightarrow> Inl Strcpy_Overrun
      | Some s \<Rightarrow> Inr (link_item (s, word_of_int numb, direc) q))"

text \<open>The loop that walks to the second last cell. \<open>None\<close>: the loop does not end.\<close>

partial_function (option) second_last ::
  "(nat \<rightharpoonup> queue_item) \<Rightarrow> nat \<Rightarrow> (pt_error + nat) option" where
  "second_last h current =
     (case h current of None \<Rightarrow> Some (Inl Bad_Pointer)
      | Some it \<Rightarrow> (case nxt it of None \<Rightarrow> Some (Inl Bad_Pointer)
        | Some n \<Rightarrow> (case h n of None \<Rightarrow> Some (Inl Bad_Pointer)
          | Some it' \<Rightarrow> (case nxt it' of None \<Rightarrow> Some (Inr current)
            | Some _ \<Rightarrow> second_last h n))))"

text \<open>The item that is printed and freed is returned with the new state.\<close>

definition print_last_item :: "queue_mem \<Rightarrow> (pt_error + queue_item \<times> queue_mem) option" where
  "print_last_item q =
     (case anchor q of None \<Rightarrow> Some (Inl Bad_Pointer)
      | Some current \<Rightarrow> (case cells q current of None \<Rightarrow> Some (Inl Bad_Pointer)
        | Some it \<Rightarrow> (case nxt it of
            None \<Rightarrow> Some (Inr (it, q\<lparr>anchor := None, cells := (cells q)(current := None)\<rparr>))
          | Some _ \<Rightarrow> (case second_last (cells q) current of
              None \<Rightarrow> None
            | Some (Inl e) \<Rightarrow> Some (Inl e)
            | Some (Inr c) \<Rightarrow> (case cells q c of None \<Rightarrow> Some (Inl Bad_Pointer)
              | Some itc \<Rightarrow> (case nxt itc of None \<Rightarrow> Some (Inl Bad_Pointer)
                | Some l \<Rightarrow> (case cells q l of None \<Rightarrow> Some (Inl Bad_Pointer)
                  | Some itl \<Rightarrow> Some (Inr (itl,
                      q\<lparr>cells := (cells q)(l := None, c \<mapsto> itc\<lparr>nxt := None\<rparr>)\<rparr>)))))))))"

definition payload :: "queue_item \<Rightarrow> byte list \<times> u64 \<times> direction_type" where
  "payload it = (data it, numb_data it, direction it)"

text \<open>One iteration of \<^verbatim>\<open>handler_print\<close>.\<close>

definition handler_print_body :: "queue_mem \<Rightarrow> (pt_error + queue_mem) option" where
  "handler_print_body q =
     (if anchor q \<noteq> None then map_option (map_sum id snd) (print_last_item q) else Some (Inr q))"

section \<open>Sockets\<close>

text \<open>\<^verbatim>\<open>recvfrom\<close> into an array of \<open>BUFFSIZE\<close> bytes: a longer datagram is cut.\<close>

definition recv_into :: "byte list \<Rightarrow> byte list \<Rightarrow> byte list \<times> int" where
  "recv_into buf d = (put_bytes 0 (take BUFFSIZE d) buf, int (min BUFFSIZE (length d)))"

definition c_sendto :: "sock \<Rightarrow> byte list \<Rightarrow> int \<Rightarrow> sockaddr \<Rightarrow> tx" where
  "c_sendto sd buf n to =
     (if 0 \<le> n \<and> n \<le> int (length buf) then Tx sd (take (nat n) buf) to else Tx_Fault sd to)"

definition enb_peer :: sockaddr where
  "enb_peer = \<lparr>sin_addr = IPV4_ADDR_ENB, sin_port = PORT_REMOTE_ENB\<rparr>"

definition epc_peer :: sockaddr where
  "epc_peer = \<lparr>sin_addr = IPV4_ADDR_EPC, sin_port = PORT_REMOTE_EPC\<rparr>"

section \<open>The uplink and downlink threads\<close>

text \<open>One iteration of \<^verbatim>\<open>udp_handler_up\<close> on the buffer and the list.\<close>

definition udp_handler_up_body ::
  "rx \<Rightarrow> byte list \<Rightarrow> queue_mem \<Rightarrow> pt_error + byte list \<times> queue_mem \<times> tx" where
  "udp_handler_up_body r buf q =
     (let (buf', numb_read) = (case r of Rx d _ \<Rightarrow> recv_into buf d | Rx_Err \<Rightarrow> (buf, -1))
      in rbind (add_queue_item buf' UPSTREAM numb_read q)
           (\<lambda>q'. Inr (buf', q', c_sendto Sock_Epc buf' numb_read epc_peer)))"

text \<open>The branch of \<^verbatim>\<open>udp_handler_down\<close> for a datagram of the ICM task; the second component is
  false when the thread clears \<^verbatim>\<open>run\<close>.\<close>

definition down_config :: "down_state \<Rightarrow> down_state \<times> bool" where
  "down_config s =
     (let t = of_le32 (get_bytes 0 4 (buffer s)) in
      if t = 0 then (s\<lparr>teid := t\<rparr>, False)
      else let i = (index_drb s + 1) mod MAX_DRB in
        (s\<lparr>teid := t, teid_array := (teid_array s)[index_drb s := htonl t], index_drb := i,
           counter := (if i = 0 then [0, 0, 0] else counter s)\<rparr>, True))"

definition put_teid :: "nat \<Rightarrow> down_state \<Rightarrow> down_state" where
  "put_teid k s = s\<lparr>buffer := put_bytes 4 (le32 (teid_array s ! k)) (buffer s),
     counter := (counter s)[k := counter s ! k + 1]\<rparr>"

text \<open>The UDP source port of the inner packet: 8 bytes of GTP and 20 bytes of IP header precede
  it.\<close>

definition udp_source :: "byte list \<Rightarrow> u16" where
  "udp_source buf = ntohs (of_le16 (get_bytes 28 2 buf))"

definition exchange_teid :: "down_state \<Rightarrow> down_state" where
  "exchange_teid s =
     (if index_drb s = 0 then
        (let p = udp_source (buffer s) in
         if p = PORT1 then put_teid 0 s
         else if p = PORT2 then put_teid 1 s
         else if p = PORT3 then put_teid 2 s
         else s)
      else s)"

definition is_icm :: "sockaddr \<Rightarrow> bool" where
  "is_icm a \<longleftrightarrow> IPV4_ADDR_ENB = sin_addr a \<and> sin_port a = PORT_ICM"

text \<open>One iteration of \<^verbatim>\<open>udp_handler_down\<close>: the new locals, the list, whether \<^verbatim>\<open>run\<close> stays set,
  and what is sent.\<close>

definition udp_handler_down_body ::
  "rx \<Rightarrow> down_state \<Rightarrow> queue_mem \<Rightarrow> pt_error + down_state \<times> queue_mem \<times> bool \<times> tx list" where
  "udp_handler_down_body r s q =
     (let (s1, numb_read) = (case r of
          Rx d a \<Rightarrow> (case recv_into (buffer s) d of (b, n) \<Rightarrow> (s\<lparr>buffer := b, from_addr := a\<rparr>, n))
        | Rx_Err \<Rightarrow> (s, -1))
      in if is_icm (from_addr s1) then
           (let (s2, r2) = down_config s1 in Inr (s2, q, r2, []))
         else
           rbind (add_queue_item (buffer s1) DOWNSTREAM numb_read q)
             (\<lambda>q'. let s2 = exchange_teid s1 in
                Inr (s2, q', True, [c_sendto Sock_Enb (buffer s2) numb_read enb_peer])))"

section \<open>The process\<close>

text \<open>The initial state: the contents of the arrays on the stacks and of \<^verbatim>\<open>addr\<close> are whatever
  was there.\<close>

definition pt_init :: "byte list \<Rightarrow> byte list \<Rightarrow> u32 list \<Rightarrow> sockaddr \<Rightarrow> pt_state" where
  "pt_init ub db ts a =
     \<lparr>run = True, alive = True, queue = empty_queue, up_buffer = ub,
      down = \<lparr>buffer = db, teid_array = ts, index_drb = 0, teid = 0, counter = [0, 0, 0],
              from_addr = a\<rparr>,
      up_pc = Waiting, down_pc = Waiting, print_pc = Waiting, sent = []\<rparr>"

definition loop_head :: "bool \<Rightarrow> thread_pc" where
  "loop_head r = (if r then Waiting else Finished)"

datatype pt_event = Ev_Up rx | Ev_Down rx | Ev_Print | Ev_Sleep_Over

inductive pt_step :: "pt_state \<Rightarrow> pt_event \<Rightarrow> pt_state \<Rightarrow> bool" where
  up: "alive s \<Longrightarrow> up_pc s = Waiting \<Longrightarrow>
       udp_handler_up_body r (up_buffer s) (queue s) = Inr (b, q, t) \<Longrightarrow>
       pt_step s (Ev_Up r)
         (s\<lparr>up_buffer := b, queue := q, sent := sent s @ [t], up_pc := loop_head (run s)\<rparr>)"
| down: "alive s \<Longrightarrow> down_pc s = Waiting \<Longrightarrow>
       udp_handler_down_body r (down s) (queue s) = Inr (d, q, k, ts) \<Longrightarrow>
       pt_step s (Ev_Down r)
         (s\<lparr>down := d, queue := q, run := (run s \<and> k), sent := sent s @ ts,
            down_pc := loop_head (run s \<and> k)\<rparr>)"
| print: "alive s \<Longrightarrow> print_pc s = Waiting \<Longrightarrow>
       handler_print_body (queue s) = Some (Inr q) \<Longrightarrow>
       pt_step s Ev_Print (s\<lparr>queue := q, print_pc := loop_head (run s)\<rparr>)"
| sleep_over: "alive s \<Longrightarrow> pt_step s Ev_Sleep_Over (s\<lparr>run := False, alive := False\<rparr>)"

text \<open>Executions of the process, and the loops of the two forwarding threads on their own: the
  datagrams that arrive at the socket are worked off one by one while \<^verbatim>\<open>run\<close> is set.\<close>

inductive pt_trace :: "pt_state \<Rightarrow> pt_event list \<Rightarrow> pt_state \<Rightarrow> bool" where
  trace_nil: "pt_trace s [] s"
| trace_cons: "pt_step s e t \<Longrightarrow> pt_trace t es u \<Longrightarrow> pt_trace s (e # es) u"

definition down_iter ::
  "rx \<Rightarrow> down_state \<times> queue_mem \<times> bool \<times> tx list \<Rightarrow> pt_error + down_state \<times> queue_mem \<times> bool \<times> tx list"
where
  "down_iter r = (\<lambda>(s, q, k, out).
     if k then rbind (udp_handler_down_body r s q) (\<lambda>(s', q', k', ts). Inr (s', q', k', out @ ts))
     else Inr (s, q, k, out))"

definition udp_handler_down ::
  "rx list \<Rightarrow> down_state \<Rightarrow> queue_mem \<Rightarrow> pt_error + down_state \<times> queue_mem \<times> bool \<times> tx list" where
  "udp_handler_down rs s q = rfold down_iter rs (s, q, True, [])"

definition up_iter ::
  "rx \<Rightarrow> byte list \<times> queue_mem \<times> tx list \<Rightarrow> pt_error + byte list \<times> queue_mem \<times> tx list" where
  "up_iter r = (\<lambda>(buf, q, out).
     rbind (udp_handler_up_body r buf q) (\<lambda>(buf', q', t). Inr (buf', q', out @ [t])))"

definition udp_handler_up ::
  "rx list \<Rightarrow> byte list \<Rightarrow> queue_mem \<Rightarrow> pt_error + byte list \<times> queue_mem \<times> tx list" where
  "udp_handler_up rs buf q = rfold up_iter rs (buf, q, [])"

section \<open>Invariants and abstraction\<close>

fun list_at :: "(nat \<rightharpoonup> queue_item) \<Rightarrow> nat option \<Rightarrow> nat list \<Rightarrow> bool" where
  "list_at h p [] \<longleftrightarrow> p = None"
| "list_at h p (a # as) \<longleftrightarrow> p = Some a \<and>
     (case h a of None \<Rightarrow> False | Some it \<Rightarrow> list_at h (nxt it) as)"

text \<open>The addresses met from a pointer on, at most \<open>n\<close> of them.\<close>

fun walk :: "nat \<Rightarrow> (nat \<rightharpoonup> queue_item) \<Rightarrow> nat option \<Rightarrow> nat list" where
  "walk 0 h p = []"
| "walk (Suc n) h p = (case p of None \<Rightarrow> []
     | Some a \<Rightarrow> (case h a of None \<Rightarrow> [] | Some it \<Rightarrow> a # walk n h (nxt it)))"

definition queue_addrs :: "queue_mem \<Rightarrow> nat list" where
  "queue_addrs q = walk (brk q) (cells q) (anchor q)"

text \<open>The list is acyclic and null-terminated, every cell of the heap is on it (nothing leaks
  and nothing freed is reachable), and addresses are below the allocation mark.\<close>

definition queue_ok :: "queue_mem \<Rightarrow> bool" where
  "queue_ok q \<longleftrightarrow> (let as = queue_addrs q in
     list_at (cells q) (anchor q) as \<and> distinct as \<and> dom (cells q) = set as \<and>
     list_all (\<lambda>a. a < brk q) as)"

definition queue_contents :: "queue_mem \<Rightarrow> (byte list \<times> u64 \<times> direction_type) list" where
  "queue_contents q = rev (map (\<lambda>a. payload (the (cells q a))) (queue_addrs q))"

definition take_item :: "queue_mem \<Rightarrow> ((byte list \<times> u64 \<times> direction_type) \<times> queue_mem) option" where
  "take_item q = (case print_last_item q of
     Some (Inr (it, q')) \<Rightarrow> Some (payload it, q') | _ \<Rightarrow> None)"

definition down_ok :: "down_state \<Rightarrow> bool" where
  "down_ok s \<longleftrightarrow> length (buffer s) = BUFFSIZE \<and> length (teid_array s) = MAX_DRB \<and>
     index_drb s < MAX_DRB \<and> length (counter s) = MAX_DRB"

definition pt_ok :: "pt_state \<Rightarrow> bool" where
  "pt_ok s \<longleftrightarrow> length (up_buffer s) = BUFFSIZE \<and> down_ok (down s) \<and> queue_ok (queue s)"

text \<open>The locals of the downlink thread after a datagram of the ICM task with a TEID that is not 0.\<close>

definition learn :: "sockaddr \<Rightarrow> u32 \<Rightarrow> down_state \<Rightarrow> down_state" where
  "learn a t s = s\<lparr>buffer := put_bytes 0 (le32 t) (buffer s), from_addr := a, teid := t,
     teid_array := (teid_array s)[index_drb s := htonl t],
     index_drb := (index_drb s + 1) mod MAX_DRB,
     counter := (if (index_drb s + 1) mod MAX_DRB = 0 then [0, 0, 0] else counter s)\<rparr>"

text \<open>The address of the ICM task, and a concrete state and datagram for the witnesses.\<close>

definition icm_addr :: sockaddr where
  "icm_addr = \<lparr>sin_addr = IPV4_ADDR_ENB, sin_port = PORT_ICM\<rparr>"

definition demo_down :: down_state where
  "demo_down = \<lparr>buffer = replicate BUFFSIZE 1, teid_array = [5, 5, 5], index_drb = 0, teid = 0,
     counter = [0, 0, 0], from_addr = enb_peer\<rparr>"

definition demo_packet :: "byte list" where
  "demo_packet = replicate 28 0 @ [23, 114]"

text \<open>Bookkeeping for the steps that remain after \<^verbatim>\<open>run\<close> was cleared.\<close>

definition waiting :: "thread_pc \<Rightarrow> nat" where
  "waiting pc = (if pc = Waiting then 1 else 0)"

definition is_up :: "pt_event \<Rightarrow> bool" where "is_up e = (case e of Ev_Up _ \<Rightarrow> True | _ \<Rightarrow> False)"
definition is_down :: "pt_event \<Rightarrow> bool" where "is_down e = (case e of Ev_Down _ \<Rightarrow> True | _ \<Rightarrow> False)"

section \<open>The linked list is a queue\<close>

lemma list_at_upd [simp]: "a \<notin> set as \<Longrightarrow> list_at (h(a := v)) p as = list_at h p as"
  by (induction as arbitrary: p) (auto split: option.splits)

lemma list_at_dom: "list_at h p as \<Longrightarrow> set as \<subseteq> dom h"
  by (induction as arbitrary: p) (auto split: option.splits)

lemma walk_list_at: "list_at h p as \<Longrightarrow> length as \<le> n \<Longrightarrow> walk n h p = as"
proof (induction as arbitrary: p n)
  case Nil
  then show ?case by (cases n) auto
next
  case (Cons a as)
  then show ?case by (cases n) (auto split: option.splits)
qed

lemma distinct_bounded_length: "distinct as \<Longrightarrow> list_all (\<lambda>a. a < (n :: nat)) as \<Longrightarrow> length as \<le> n"
proof -
  assume "distinct as" and "list_all (\<lambda>a. a < n) as"
  then have "length as = card (set as)" and "set as \<subseteq> {..<n}"
    by (auto simp: distinct_card list_all_iff)
  then show ?thesis using card_mono [of "{..<n}" "set as"] by simp
qed

lemma queue_okI:
  assumes "list_at (cells q) (anchor q) as" and "distinct as" and "dom (cells q) = set as"
    and "list_all (\<lambda>a. a < brk q) as"
  shows "queue_ok q \<and> queue_addrs q = as"
proof -
  have "queue_addrs q = as"
    unfolding queue_addrs_def
    using assms(1) distinct_bounded_length [OF assms(2,4)] by (rule walk_list_at)
  with assms show ?thesis by (simp add: queue_ok_def)
qed

lemma queue_okD:
  assumes "queue_ok q"
  shows "list_at (cells q) (anchor q) (queue_addrs q)" "distinct (queue_addrs q)"
    "dom (cells q) = set (queue_addrs q)" "list_all (\<lambda>a. a < brk q) (queue_addrs q)"
  using assms by (simp_all add: queue_ok_def Let_def)

lemma empty_queue_ok: "queue_ok empty_queue \<and> queue_addrs empty_queue = []"
  by (rule queue_okI) (simp_all add: empty_queue_def)

lemma link_item_ok:
  assumes "queue_ok q"
  shows "queue_ok (link_item x q) \<and> queue_addrs (link_item x q) = brk q # queue_addrs q"
proof -
  obtain s n d where x: "x = (s, n, d)" by (cases x)
  note q = queue_okD [OF assms]
  from q(4) have "brk q \<notin> set (queue_addrs q)" by (auto simp: list_all_iff)
  with q show ?thesis
    by (intro queue_okI) (auto simp: link_item_def x list_all_iff)
qed

lemma list_at_nonempty: "list_at h p as \<Longrightarrow> as \<noteq> [] \<Longrightarrow> \<exists>a. p = Some a"
  by (cases as) auto

lemma second_last_list:
  "list_at h (Some a) (xs @ [c, l]) \<Longrightarrow> second_last h a = Some (Inr c)"
proof (induction xs arbitrary: a)
  case Nil
  then show ?case by (subst second_last.simps) (auto split: option.splits)
next
  case (Cons x xs)
  then obtain it where it: "a = x" "h x = Some it" "list_at h (nxt it) (xs @ [c, l])"
    by (auto split: option.splits)
  then obtain n it' where n: "nxt it = Some n" "h n = Some it'" "nxt it' \<noteq> None"
    by (cases xs) (auto split: option.splits dest: list_at_nonempty)
  with it Cons.IH [of n] show ?case
    by (subst second_last.simps) auto
qed

lemma list_at_item: "list_at h p (xs @ c # ys) \<Longrightarrow> \<exists>it. h c = Some it \<and> list_at h (nxt it) ys"
  by (induction xs arbitrary: p) (auto split: option.splits)

lemma list_at_cut:
  "list_at h p (xs @ c # ys) \<Longrightarrow> c \<notin> set xs \<Longrightarrow> list_at (h(c \<mapsto> it\<lparr>nxt := None\<rparr>)) p (xs @ [c])"
  by (induction xs arbitrary: p) (auto split: option.splits)

text \<open>On a well-formed list \<^verbatim>\<open>print_last_item\<close> returns, frees exactly the last cell and leaves a
  well-formed list.\<close>

lemma print_last_single:
  assumes "queue_ok q" and "queue_addrs q = [l]"
  shows "\<exists>q'. print_last_item q = Some (Inr (the (cells q l), q')) \<and> queue_ok q' \<and>
    queue_addrs q' = [] \<and> brk q' = brk q"
proof -
  note q = queue_okD [OF assms(1), unfolded assms(2)]
  from q(1) obtain it where it: "anchor q = Some l" "cells q l = Some it" "nxt it = None"
    by (auto split: option.splits)
  let ?q = "q\<lparr>anchor := None, cells := (cells q)(l := None)\<rparr>"
  have "queue_ok ?q \<and> queue_addrs ?q = []"
    using q(3) by (intro queue_okI) auto
  with it show ?thesis by (auto simp: print_last_item_def)
qed

lemma print_last_longer:
  assumes "queue_ok q" and "queue_addrs q = xs @ [c, l]"
  shows "\<exists>q'. print_last_item q = Some (Inr (the (cells q l), q')) \<and> queue_ok q' \<and>
    queue_addrs q' = xs @ [c] \<and> brk q' = brk q \<and>
    (\<forall>a\<in>set (xs @ [c]). payload (the (cells q' a)) = payload (the (cells q a)))"
proof -
  note q = queue_okD [OF assms(1), unfolded assms(2)]
  from q(1) obtain a where a: "anchor q = Some a" by (cases xs) auto
  from list_at_item [of "cells q" "anchor q" xs c "[l]"] q(1)
  obtain itc where itc: "cells q c = Some itc" "nxt itc = Some l" by auto
  from list_at_item [of "cells q" "anchor q" "xs @ [c]" l "[]"] q(1)
  obtain itl where itl: "cells q l = Some itl" "nxt itl = None" by auto
  from q(1) a itc obtain it where it: "cells q a = Some it" "nxt it \<noteq> None"
    by (cases xs) (auto split: option.splits dest: list_at_nonempty)
  let ?h = "(cells q)(l := None, c \<mapsto> itc\<lparr>nxt := None\<rparr>)"
  let ?q = "q\<lparr>cells := ?h\<rparr>"
  have "list_at ((cells q)(c \<mapsto> itc\<lparr>nxt := None\<rparr>)) (anchor q) (xs @ [c])"
    using q(1,2) by (intro list_at_cut [where ys = "[l]"]) auto
  moreover have "?h = ((cells q)(c \<mapsto> itc\<lparr>nxt := None\<rparr>))(l := None)"
    using q(2) by (auto simp: fun_eq_iff)
  ultimately have "list_at ?h (anchor q) (xs @ [c])" using q(2) by simp
  moreover have "dom ?h = set (xs @ [c])" using q(2,3) by auto
  ultimately have ok: "queue_ok ?q \<and> queue_addrs ?q = xs @ [c]"
    using q(2,4) by (intro queue_okI) auto
  have "second_last (cells q) a = Some (Inr c)"
    using q(1) a by (intro second_last_list) simp
  with a it itc itl have "print_last_item q = Some (Inr (itl, ?q))"
    by (auto simp: print_last_item_def)
  moreover have "\<forall>b\<in>set (xs @ [c]). payload (the (?h b)) = payload (the (cells q b))"
    using q(2) itc by (auto simp: payload_def)
  ultimately show ?thesis using ok itl by (intro exI [of _ ?q]) auto
qed

lemma print_last_ok:
  assumes "queue_ok q" and "queue_addrs q = as @ [l]"
  shows "\<exists>q'. print_last_item q = Some (Inr (the (cells q l), q')) \<and> queue_ok q' \<and>
    queue_addrs q' = as \<and> brk q' = brk q \<and>
    (\<forall>a\<in>set as. payload (the (cells q' a)) = payload (the (cells q a)))"
proof (cases as rule: rev_cases)
  case Nil
  then show ?thesis using print_last_single [OF assms(1)] assms(2) by auto
next
  case (snoc xs c)
  then show ?thesis using print_last_longer [OF assms(1), of xs c l] assms(2) by auto
qed

lemma take_item_some:
  assumes "queue_ok q" and "queue_contents q = x # xs"
  shows "\<exists>q'. take_item q = Some (x, q') \<and> queue_contents q' = xs \<and> queue_ok q'"
proof -
  from assms(2) obtain as l where as: "queue_addrs q = as @ [l]"
    by (cases "queue_addrs q" rule: rev_cases) (auto simp: queue_contents_def)
  with assms(2) have x: "x = payload (the (cells q l))"
    and xs: "xs = rev (map (\<lambda>a. payload (the (cells q a))) as)"
    by (auto simp: queue_contents_def)
  from print_last_ok [OF assms(1) as] obtain q' where
    "print_last_item q = Some (Inr (the (cells q l), q'))" "queue_ok q'" "queue_addrs q' = as"
    "\<forall>a\<in>set as. payload (the (cells q' a)) = payload (the (cells q a))"
    by blast
  with x xs show ?thesis by (auto simp: take_item_def queue_contents_def)
qed

lemma queue_anchor: "queue_ok q \<Longrightarrow> anchor q = None \<longleftrightarrow> queue_addrs q = []"
  using queue_okD(1) [of q] by (cases "queue_addrs q") auto

lemma link_item_contents:
  assumes "queue_ok q"
  shows "queue_contents (link_item x q) = queue_contents q @ [x]"
proof -
  obtain s n d where x: "x = (s, n, d)" by (cases x)
  from queue_okD(4) [OF assms] have "brk q \<notin> set (queue_addrs q)" by (auto simp: list_all_iff)
  then show ?thesis
    using link_item_ok [OF assms, of x]
    by (auto simp: queue_contents_def link_item_def x payload_def)
qed

interpretation ptq: fifo link_item take_item queue_contents queue_ok
proof
  fix q :: queue_mem and x xs
  show "queue_ok q \<Longrightarrow> queue_ok (link_item x q)"
    by (simp add: link_item_ok)
  show "queue_ok q \<Longrightarrow> queue_contents (link_item x q) = queue_contents q @ [x]"
    by (rule link_item_contents)
  show "queue_ok q \<Longrightarrow> queue_contents q = [] \<Longrightarrow> take_item q = None"
    using queue_anchor [of q] by (simp add: queue_contents_def take_item_def print_last_item_def)
  show "queue_ok q \<Longrightarrow> queue_contents q = x # xs \<Longrightarrow>
      \<exists>q'. take_item q = Some (x, q') \<and> queue_contents q' = xs \<and> queue_ok q'"
    by (rule take_item_some)
qed

section \<open>Invariants\<close>

lemma c_string_None: "c_string bs = None \<longleftrightarrow> 0 \<notin> set bs"
  by (induction bs) auto

lemma add_queue_item_ok: "queue_ok q \<Longrightarrow> add_queue_item b d n q = Inr q' \<Longrightarrow> queue_ok q'"
  by (auto simp: add_queue_item_def link_item_ok split: option.splits)

lemma add_queue_item_total: "0 \<in> set b \<Longrightarrow> \<exists>s. c_string b = Some s \<and>
    add_queue_item b d n q = Inr (link_item (s, word_of_int n, d) q)"
  using c_string_None [of b] by (cases "c_string b") (auto simp: add_queue_item_def)

lemma handler_print_body_ok:
  assumes "queue_ok q"
  shows "\<exists>q'. handler_print_body q = Some (Inr q') \<and> queue_ok q' \<and>
    queue_contents q' = tl (queue_contents q)"
proof (cases "queue_contents q")
  case Nil
  then have "anchor q = None" using queue_anchor [OF assms] by (simp add: queue_contents_def)
  with Nil assms show ?thesis by (simp add: handler_print_body_def)
next
  case (Cons x xs)
  then have "anchor q \<noteq> None" using queue_anchor [OF assms] by (auto simp: queue_contents_def)
  moreover from take_item_some [OF assms Cons] obtain q' where
    q': "take_item q = Some (x, q')" "queue_contents q' = xs" "queue_ok q'" by blast
  then obtain it where "print_last_item q = Some (Inr (it, q'))"
    by (auto simp: take_item_def split: option.splits sum.splits prod.splits)
  ultimately show ?thesis using Cons q' by (simp add: handler_print_body_def)
qed

lemma recv_into_ok: "length buf = BUFFSIZE \<Longrightarrow> recv_into buf d = (b, n) \<Longrightarrow> length b = BUFFSIZE"
  by (auto simp: recv_into_def)

lemma put_teid_ok [simp]: "down_ok s \<Longrightarrow> down_ok (put_teid k s)"
  by (auto simp: down_ok_def put_teid_def BUFFSIZE_def)

lemma exchange_teid_ok: "down_ok s \<Longrightarrow> down_ok (exchange_teid s)"
  by (simp add: exchange_teid_def Let_def)

lemma down_config_ok: "down_ok s \<Longrightarrow> down_config s = (s', k) \<Longrightarrow> down_ok s'"
  by (auto simp: down_ok_def down_config_def MAX_DRB_def Let_def split: if_splits)

lemma down_recv_ok:
  "down_ok s \<Longrightarrow> recv_into (buffer s) d = (b, n) \<Longrightarrow> down_ok (s\<lparr>buffer := b, from_addr := a\<rparr>)"
  by (auto simp: down_ok_def intro: recv_into_ok)

lemma udp_handler_down_body_ok:
  assumes "down_ok s" and "queue_ok q" and "udp_handler_down_body r s q = Inr (s', q', k, ts)"
  shows "down_ok s' \<and> queue_ok q'"
  using assms
  by (auto simp: udp_handler_down_body_def rbind_Inr_conv Let_def split: rx.splits prod.splits if_splits
      intro: add_queue_item_ok down_config_ok down_recv_ok exchange_teid_ok)

lemma udp_handler_up_body_ok:
  assumes "length buf = BUFFSIZE" and "queue_ok q" and "udp_handler_up_body r buf q = Inr (buf', q', t)"
  shows "length buf' = BUFFSIZE \<and> queue_ok q'"
  using assms
  by (auto simp: udp_handler_up_body_def rbind_Inr_conv split: rx.splits prod.splits
      intro: add_queue_item_ok recv_into_ok)

interpretation down_loop: keeps_err down_iter "\<lambda>(s, q, k, out). down_ok s \<and> queue_ok q"
  by unfold_locales
    (auto simp: down_iter_def rbind_Inr_conv split: if_splits dest: udp_handler_down_body_ok)

interpretation up_loop: keeps_err up_iter "\<lambda>(buf, q, out). length buf = BUFFSIZE \<and> queue_ok q"
  by unfold_locales
    (auto simp: up_iter_def rbind_Inr_conv dest: udp_handler_up_body_ok)

lemma pt_step_ok: "pt_step s e t \<Longrightarrow> pt_ok s \<Longrightarrow> pt_ok t"
proof (induction rule: pt_step.induct)
  case (up s r b q t)
  then show ?case
    using udp_handler_up_body_ok [OF _ _ up.hyps(3)] by (simp add: pt_ok_def)
next
  case (down s r d q k ts)
  then show ?case
    using udp_handler_down_body_ok [OF _ _ down.hyps(3)] by (simp add: pt_ok_def)
next
  case (print s q)
  then show ?case using handler_print_body_ok [of "queue s"] by (auto simp: pt_ok_def)
next
  case (sleep_over s)
  then show ?case by (simp add: pt_ok_def)
qed

lemma pt_trace_ok: "pt_trace s es t \<Longrightarrow> pt_ok s \<Longrightarrow> pt_ok t"
  by (induction rule: pt_trace.induct) (auto intro: pt_step_ok)

lemma pt_init_ok:
  "length ub = BUFFSIZE \<Longrightarrow> length db = BUFFSIZE \<Longrightarrow> length ts = MAX_DRB \<Longrightarrow> pt_ok (pt_init ub db ts a)"
  by (simp add: pt_ok_def pt_init_def down_ok_def MAX_DRB_def empty_queue_ok)

section \<open>What the downlink thread does\<close>

lemma recv_into_fits:
  "length d \<le> BUFFSIZE \<Longrightarrow> recv_into buf d = (put_bytes 0 d buf, int (length d))"
  by (simp add: recv_into_def min_def)

lemma zero_in_put: "0 \<in> set d \<Longrightarrow> 0 \<in> set (put_bytes 0 d buf)"
  by (simp add: put_bytes_def)

lemma body_learn:
  assumes "is_icm a" and "down_ok s" and "t \<noteq> 0"
  shows "udp_handler_down_body (Rx (le32 t) a) s q = Inr (learn a t s, q, True, [])"
proof -
  have len: "4 \<le> length (buffer s)" using assms(2) by (simp add: down_ok_def BUFFSIZE_def)
  have r: "recv_into (buffer s) (le32 t) = (put_bytes 0 (le32 t) (buffer s), 4)"
    by (simp add: recv_into_fits BUFFSIZE_def)
  have "of_le32 (get_bytes 0 4 (put_bytes 0 (le32 t) (buffer s))) = t"
    using len by (intro le32.store_load) simp
  with assms show ?thesis
    by (simp add: udp_handler_down_body_def r down_config_def learn_def Let_def)
qed

lemma learn_sel [simp]:
  "index_drb (learn a t s) = (index_drb s + 1) mod MAX_DRB"
  "teid_array (learn a t s) = (teid_array s)[index_drb s := htonl t]"
  by (simp_all add: learn_def)

lemma learn_ok: "down_ok s \<Longrightarrow> down_ok (learn a t s)"
  by (auto simp: down_ok_def learn_def MAX_DRB_def BUFFSIZE_def)

lemma learn_all:
  assumes "is_icm a" and "down_ok s" and "0 \<notin> set ts"
  shows "rfold down_iter (map (\<lambda>t. Rx (le32 t) a) ts) (s, q, True, out)
    = Inr (fold (learn a) ts s, q, True, out)"
  using assms
proof (induction ts arbitrary: s)
  case Nil
  then show ?case by simp
next
  case (Cons t ts)
  then show ?case by (simp add: down_iter_def body_learn learn_ok)
qed

lemma learn_fold:
  assumes "down_ok s"
  shows "let s' = fold (learn a) ts s in down_ok s' \<and>
    index_drb s' = (index_drb s + length ts) mod MAX_DRB \<and>
    (\<forall>j < length ts. length ts \<le> j + MAX_DRB \<longrightarrow>
       teid_array s' ! ((index_drb s + j) mod MAX_DRB) = htonl (ts ! j))"
proof (induction ts rule: rev_induct)
  case Nil
  then show ?case using assms by (simp add: down_ok_def MAX_DRB_def)
next
  case (snoc t ts)
  let ?s = "fold (learn a) ts s"
  from snoc have IH: "down_ok ?s" "index_drb ?s = (index_drb s + length ts) mod MAX_DRB"
    "\<forall>j < length ts. length ts \<le> j + MAX_DRB \<longrightarrow>
       teid_array ?s ! ((index_drb s + j) mod MAX_DRB) = htonl (ts ! j)"
    by (simp_all add: Let_def)
  have fresh: "(index_drb s + j) mod MAX_DRB \<noteq> (index_drb s + length ts) mod MAX_DRB"
    if "j < length ts" "length ts < j + MAX_DRB" for j
  proof
    assume "(index_drb s + j) mod MAX_DRB = (index_drb s + length ts) mod MAX_DRB"
    then have "MAX_DRB dvd (index_drb s + length ts) - (index_drb s + j)"
      using that by (intro mod_eq_dvd_iff_nat [THEN iffD1]) simp_all
    with that show False by (auto dest: dvd_imp_le)
  qed
  have "(index_drb s + length ts) mod MAX_DRB < length (teid_array ?s)"
    using IH(1) by (simp add: down_ok_def MAX_DRB_def)
  then have "teid_array (learn a t ?s) ! ((index_drb s + j) mod MAX_DRB) = htonl ((ts @ [t]) ! j)"
    if "j < Suc (length ts)" "length ts < j + MAX_DRB" for j
    using that IH(2,3) fresh [of j] by (cases "j = length ts") (auto simp: nth_append)
  with IH(2) learn_ok [OF IH(1)] show ?case
    by (simp add: Let_def mod_simps Suc_le_eq)
qed

text \<open>A datagram of the EPC is recorded in the list and sent on.\<close>

lemma body_forward:
  assumes "\<not> is_icm a" and "length d \<le> BUFFSIZE" and "0 \<in> set d"
  shows "\<exists>str. udp_handler_down_body (Rx d a) s q =
    (let s' = exchange_teid (s\<lparr>buffer := put_bytes 0 d (buffer s), from_addr := a\<rparr>)
     in Inr (s', link_item (str, word_of_int (int (length d)), DOWNSTREAM) q, True,
             [c_sendto Sock_Enb (buffer s') (int (length d)) enb_peer]))"
proof -
  let ?b = "put_bytes 0 d (buffer s)"
  obtain str where "add_queue_item ?b DOWNSTREAM (int (length d)) q =
      Inr (link_item (str, word_of_int (int (length d)), DOWNSTREAM) q)"
    using add_queue_item_total [OF zero_in_put [OF assms(3)]] by blast
  with assms(1) show ?thesis
    by (intro exI [of _ str])
      (simp add: udp_handler_down_body_def recv_into_fits [OF assms(2)] Let_def)
qed

lemma udp_source_put:
  assumes "30 \<le> length d" and "length d \<le> length buf"
  shows "udp_source (put_bytes 0 d buf) = of_be16 (get_bytes 28 2 d)"
proof -
  have "get_bytes 28 2 (put_bytes 0 d buf) = get_bytes 28 2 d"
    using assms by (simp add: get_bytes_def put_bytes_def)
  then show ?thesis using assms(1) by (simp add: udp_source_def ntohs_of_le16)
qed

text \<open>The buffer after the TEID was exchanged, cut to the length of the datagram.\<close>

lemma exchanged_bytes:
  assumes "8 \<le> length d" and "length d \<le> length buf" and "length x = 4"
  shows "take (length d) (put_bytes 4 x (put_bytes 0 d buf)) = take 4 d @ x @ drop 8 d"
  using assms by (simp add: put_bytes_def)

lemma exchange_port:
  assumes "index_drb s = 0" and "udp_source (buffer s) = [PORT1, PORT2, PORT3] ! k" and "k < 3"
  shows "exchange_teid s = put_teid k s"
proof -
  from assms(3) consider "k = 0" | "k = 1" | "k = 2" by linarith
  then show ?thesis using assms(1,2)
    by cases (simp_all add: exchange_teid_def PORT1_def PORT2_def PORT3_def)
qed

lemma demo_simps:
  "is_icm icm_addr" "\<not> is_icm epc_peer" "down_ok demo_down" "index_drb demo_down = 0"
  "length demo_packet = 30" "0 \<in> set demo_packet"
  "of_be16 (get_bytes 28 2 demo_packet) = PORT2" "30 \<le> BUFFSIZE"
  by (simp_all add: is_icm_def icm_addr_def epc_peer_def PORT_REMOTE_EPC_def PORT_ICM_def
      demo_down_def down_ok_def MAX_DRB_def demo_packet_def get_bytes_def of_be16_def PORT2_def
      BUFFSIZE_def)

text \<open>C1. Once the terminal has learnt the TEIDs of three bearers, a downlink datagram whose
  inner UDP source port is 6001, 6002 or 6003 is sent to the eNB with exactly the four TEID bytes
  of its GTP header replaced by the TEID of the first, second or third bearer in network byte
  order, whatever the arrays held before; nothing else is sent and the thread goes on.\<close>

theorem down_exchanges_teid:
  assumes "down_ok s" and "index_drb s = 0"
    and "is_icm icm" and "0 \<notin> {t0, t1, t2}"
    and "\<not> is_icm epc" and "30 \<le> length d" and "length d \<le> BUFFSIZE" and "0 \<in> set d"
    and "k < 3" and "of_be16 (get_bytes 28 2 d) = [PORT1, PORT2, PORT3] ! k"
  shows "\<exists>s' q'. udp_handler_down
      [Rx (le32 t0) icm, Rx (le32 t1) icm, Rx (le32 t2) icm, Rx d epc] s q =
    Inr (s', q', True, [Tx Sock_Enb (take 4 d @ be32 ([t0, t1, t2] ! k) @ drop 8 d) enb_peer])"
proof -
  let ?ts = "[t0, t1, t2]"
  let ?s = "fold (learn icm) ?ts s"
  have L: "down_ok ?s" "index_drb ?s = 0" "\<forall>j < 3. teid_array ?s ! j = htonl (?ts ! j)"
    using learn_fold [OF assms(1), of icm ?ts] assms(2) by (auto simp: Let_def MAX_DRB_def)
  let ?s1 = "?s\<lparr>buffer := put_bytes 0 d (buffer ?s), from_addr := epc\<rparr>"
  have len: "length d \<le> length (buffer ?s)"
    using L(1) assms(7) by (simp add: down_ok_def)
  have "udp_source (buffer ?s1) = [PORT1, PORT2, PORT3] ! k"
    using udp_source_put [OF assms(6) len] assms(10) by simp
  then have ex: "exchange_teid ?s1 = put_teid k ?s1"
    using L(2) assms(9) by (intro exchange_port) simp_all
  have b: "take (length d) (buffer (put_teid k ?s1)) = take 4 d @ be32 (?ts ! k) @ drop 8 d"
    using exchanged_bytes [OF _ len, of "le32 (htonl (?ts ! k))"] L(3) assms(6,9)
    by (simp add: put_teid_def le32_htonl)
  obtain str where f: "udp_handler_down_body (Rx d epc) ?s q =
    Inr (put_teid k ?s1, link_item (str, word_of_int (int (length d)), DOWNSTREAM) q, True,
      [c_sendto Sock_Enb (buffer (put_teid k ?s1)) (int (length d)) enb_peer])"
    using body_forward [OF assms(5,7,8), of ?s q] ex by (auto simp: Let_def)
  have "length d \<le> length (buffer (put_teid k ?s1))"
    using len assms(6) by (simp add: put_teid_def)
  then have c: "c_sendto Sock_Enb (buffer (put_teid k ?s1)) (int (length d)) enb_peer =
      Tx Sock_Enb (take 4 d @ be32 (?ts ! k) @ drop 8 d) enb_peer"
    using b by (simp add: c_sendto_def)
  have "udp_handler_down ([Rx (le32 t0) icm, Rx (le32 t1) icm, Rx (le32 t2) icm] @ [Rx d epc]) s q
      = rfold down_iter [Rx d epc] (?s, q, True, [])"
    unfolding udp_handler_down_def rfold_append
    using learn_all [OF assms(3,1), of ?ts q "[]"] assms(4) by simp
  then show ?thesis using f c by (simp add: down_iter_def)
qed

lemma down_exchanges_teid_witness:
  "\<exists>s' q'. udp_handler_down
      [Rx (le32 7) icm_addr, Rx (le32 8) icm_addr, Rx (le32 9) icm_addr, Rx demo_packet epc_peer]
      demo_down empty_queue =
    Inr (s', q', True,
      [Tx Sock_Enb (take 4 demo_packet @ be32 ([7, 8, 9] ! 1) @ drop 8 demo_packet) enb_peer])"
  by (rule down_exchanges_teid) (simp_all add: demo_simps)

text \<open>The terminal keeps the TEIDs of the last three announcements: after any number of
  nonzero TEIDs the announcement number \<open>j\<close> is stored, in network byte order, at position
  \<open>index + j\<close> modulo 3 unless three later ones followed, and the position for the next one has
  advanced by their number modulo 3.\<close>

theorem down_learns_latest:
  assumes "down_ok s" and "is_icm a" and "0 \<notin> set ts"
  shows "\<exists>s'. udp_handler_down (map (\<lambda>t. Rx (le32 t) a) ts) s q = Inr (s', q, True, []) \<and>
    index_drb s' = (index_drb s + length ts) mod MAX_DRB \<and>
    (\<forall>j < length ts. length ts \<le> j + MAX_DRB \<longrightarrow>
       le32 (teid_array s' ! ((index_drb s + j) mod MAX_DRB)) = be32 (ts ! j))"
  using learn_fold [OF assms(1), of a ts] learn_all [OF assms(2,1,3), of q "[]"]
  by (auto simp: udp_handler_down_def Let_def le32_htonl)

lemma down_learns_latest_witness:
  "\<exists>s'. udp_handler_down (map (\<lambda>t. Rx (le32 t) icm_addr) [1, 2, 3, 4]) demo_down empty_queue
      = Inr (s', empty_queue, True, []) \<and>
    index_drb s' = (index_drb demo_down + length [1 :: u32, 2, 3, 4]) mod MAX_DRB \<and>
    (\<forall>j < length [1 :: u32, 2, 3, 4]. length [1 :: u32, 2, 3, 4] \<le> j + MAX_DRB \<longrightarrow>
       le32 (teid_array s' ! ((index_drb demo_down + j) mod MAX_DRB)) = be32 ([1, 2, 3, 4] ! j))"
  by (rule down_learns_latest) (simp_all add: demo_simps)

text \<open>C26. A downlink datagram is sent on unchanged, and recorded in the list, while the terminal
  waits for the rest of a set of three TEIDs and when its inner source port is none of the three
  ports; the learnt TEIDs stay.\<close>

theorem down_transparent:
  assumes "down_ok s" and "queue_ok q" and "\<not> is_icm a" and "length d \<le> BUFFSIZE" and "0 \<in> set d"
    and "index_drb s \<noteq> 0 \<or> 30 \<le> length d \<and> of_be16 (get_bytes 28 2 d) \<notin> {PORT1, PORT2, PORT3}"
  shows "\<exists>s' q' str. udp_handler_down [Rx d a] s q = Inr (s', q', True, [Tx Sock_Enb d enb_peer]) \<and>
    teid_array s' = teid_array s \<and> index_drb s' = index_drb s \<and>
    queue_contents q' = queue_contents q @ [(str, of_nat (length d), DOWNSTREAM)]"
proof -
  let ?s = "s\<lparr>buffer := put_bytes 0 d (buffer s), from_addr := a\<rparr>"
  have len: "length d \<le> length (buffer s)" using assms(1,4) by (simp add: down_ok_def)
  have ex: "exchange_teid ?s = ?s"
    using assms(6) udp_source_put [OF _ len] by (auto simp: exchange_teid_def Let_def)
  have "c_sendto Sock_Enb (buffer ?s) (int (length d)) enb_peer = Tx Sock_Enb d enb_peer"
    using len by (simp add: c_sendto_def put_bytes_def)
  with body_forward [OF assms(3,4,5), of s q] ex obtain str where
    "udp_handler_down_body (Rx d a) s q =
      Inr (?s, link_item (str, word_of_int (int (length d)), DOWNSTREAM) q, True, [Tx Sock_Enb d enb_peer])"
    by (auto simp: Let_def)
  then show ?thesis using ptq.contents_enq [OF assms(2)]
    by (auto simp: udp_handler_down_def down_iter_def)
qed

lemma down_transparent_witness:
  "\<exists>s' q' str. udp_handler_down [Rx demo_packet epc_peer] (demo_down\<lparr>index_drb := 2\<rparr>) empty_queue =
      Inr (s', q', True, [Tx Sock_Enb demo_packet enb_peer]) \<and>
    teid_array s' = teid_array (demo_down\<lparr>index_drb := 2\<rparr>) \<and>
    index_drb s' = index_drb (demo_down\<lparr>index_drb := 2\<rparr>) \<and>
    queue_contents q' = queue_contents empty_queue @ [(str, of_nat (length demo_packet), DOWNSTREAM)]"
proof (rule down_transparent)
  show "down_ok (demo_down\<lparr>index_drb := 2\<rparr>)"
    using demo_simps(3) by (simp add: down_ok_def MAX_DRB_def)
qed (simp_all add: demo_simps empty_queue_ok)

text \<open>The first datagrams: the code allows the exchange of TEIDs when the number of learnt
  TEIDs is a multiple of 3, so also when it is 0. A datagram from port 6001, 6002 or 6003 that
  arrives before any TEID was announced is sent with the uninitialised array entry as its TEID.\<close>

theorem down_uninitialised_teid:
  assumes "length db = BUFFSIZE" and "length junk = MAX_DRB"
    and "\<not> is_icm epc" and "30 \<le> length d" and "length d \<le> BUFFSIZE" and "0 \<in> set d"
    and "k < 3" and "of_be16 (get_bytes 28 2 d) = [PORT1, PORT2, PORT3] ! k"
  shows "\<exists>s' q'. udp_handler_down [Rx d epc] (down (pt_init ub db junk a)) q =
    Inr (s', q', True, [Tx Sock_Enb (take 4 d @ le32 (junk ! k) @ drop 8 d) enb_peer])"
proof -
  let ?s = "down (pt_init ub db junk a)"
  let ?s1 = "?s\<lparr>buffer := put_bytes 0 d db, from_addr := epc\<rparr>"
  have i: "index_drb ?s = 0" "buffer ?s = db" "teid_array ?s = junk" by (simp_all add: pt_init_def)
  have len: "length d \<le> length db" using assms(1,5) by simp
  have "udp_source (buffer ?s1) = [PORT1, PORT2, PORT3] ! k"
    using udp_source_put [OF assms(4) len] assms(8) by simp
  then have ex: "exchange_teid ?s1 = put_teid k ?s1"
    using i assms(7) by (intro exchange_port) simp_all
  have b: "buffer (put_teid k ?s1) = put_bytes 4 (le32 (junk ! k)) (put_bytes 0 d db)"
    by (simp add: put_teid_def i)
  have l: "length d \<le> length (buffer (put_teid k ?s1))"
    using len assms(4) by (simp add: b)
  have c: "c_sendto Sock_Enb (buffer (put_teid k ?s1)) (int (length d)) enb_peer =
      Tx Sock_Enb (take 4 d @ le32 (junk ! k) @ drop 8 d) enb_peer"
    using l exchanged_bytes [OF _ len, of "le32 (junk ! k)"] assms(4)
    by (simp add: c_sendto_def b)
  have "\<exists>str. udp_handler_down_body (Rx d epc) ?s q = Inr (put_teid k ?s1,
      link_item (str, word_of_int (int (length d)), DOWNSTREAM) q, True,
      [c_sendto Sock_Enb (buffer (put_teid k ?s1)) (int (length d)) enb_peer])"
    using body_forward [OF assms(3,5,6), of ?s q] ex i(2) by (simp add: Let_def)
  with c show ?thesis by (auto simp: udp_handler_down_def down_iter_def)
qed

lemma down_uninitialised_teid_witness:
  "\<exists>s' q'. udp_handler_down [Rx demo_packet epc_peer]
      (down (pt_init [] (replicate BUFFSIZE 1) (replicate MAX_DRB 255) enb_peer)) empty_queue =
    Inr (s', q', True, [Tx Sock_Enb
      (take 4 demo_packet @ le32 (replicate MAX_DRB 255 ! 1) @ drop 8 demo_packet) enb_peer])"
  by (rule down_uninitialised_teid) (simp_all add: demo_simps)

section \<open>Shutdown\<close>

text \<open>An announcement of TEID 0 ends the downlink thread: nothing is sent for it, and no
  later datagram has any effect.\<close>

theorem down_zero_teid_stops:
  assumes "is_icm a" and "down_ok s"
  shows "\<exists>s'. udp_handler_down (Rx (le32 0) a # rs) s q = Inr (s', q, False, []) \<and>
    teid_array s' = teid_array s \<and> index_drb s' = index_drb s"
proof -
  have len: "4 \<le> length (buffer s)" using assms(2) by (simp add: down_ok_def BUFFSIZE_def)
  have r: "recv_into (buffer s) (le32 0) = (put_bytes 0 (le32 0) (buffer s), 4)"
    by (simp add: recv_into_fits BUFFSIZE_def)
  have z: "of_le32 (get_bytes 0 4 (put_bytes 0 (le32 0) (buffer s))) = 0"
    using len by (intro le32.store_load) simp
  have stop: "rfold down_iter rs (s', q, False, []) = Inr (s', q, False, [])" for s'
    by (induction rs) (simp_all add: down_iter_def)
  show ?thesis
    by (simp add: udp_handler_down_def down_iter_def [of "Rx (le32 0) a"] stop
        udp_handler_down_body_def r down_config_def z assms(1) Let_def)
qed

lemma down_zero_teid_stops_witness:
  "\<exists>s'. udp_handler_down (Rx (le32 0) icm_addr # [Rx demo_packet epc_peer]) demo_down empty_queue
      = Inr (s', empty_queue, False, []) \<and>
    teid_array s' = teid_array demo_down \<and> index_drb s' = index_drb demo_down"
  by (rule down_zero_teid_stops) (simp_all add: demo_simps)

inductive_cases pt_step_upE: "pt_step s (Ev_Up r) t"
inductive_cases pt_step_downE: "pt_step s (Ev_Down r) t"
inductive_cases pt_step_printE: "pt_step s Ev_Print t"
inductive_cases pt_step_sleepE: "pt_step s Ev_Sleep_Over t"

lemmas pt_step_cases = pt_step_upE pt_step_downE pt_step_printE pt_step_sleepE

lemma stopped_step:
  assumes "pt_step s e t" and "\<not> run s"
  shows "\<not> run t \<and> waiting (up_pc t) + (if is_up e then 1 else 0) \<le> waiting (up_pc s) \<and>
    waiting (down_pc t) + (if is_down e then 1 else 0) \<le> waiting (down_pc s)"
  using assms
  by (cases e) (auto elim!: pt_step_cases simp: loop_head_def waiting_def is_up_def is_down_def)

lemma stopped_trace:
  "pt_trace s es t \<Longrightarrow> \<not> run s \<Longrightarrow>
     length (filter is_up es) \<le> waiting (up_pc s) \<and> length (filter is_down es) \<le> waiting (down_pc s)"
proof (induction rule: pt_trace.induct)
  case (trace_nil s)
  then show ?case by simp
next
  case (trace_cons s e t es u)
  then show ?case using stopped_step [OF trace_cons.hyps(1) trace_cons.prems] by auto
qed

lemma zero_teid_body:
  assumes "is_icm a" and "down_ok s" and "udp_handler_down_body (Rx (le32 0) a) s q = Inr (s', q', k, ts)"
  shows "\<not> k"
proof -
  have len: "4 \<le> length (buffer s)" using assms(2) by (simp add: down_ok_def BUFFSIZE_def)
  have "of_le32 (get_bytes 0 4 (put_bytes 0 (le32 0) (buffer s))) = 0"
    using len by (intro le32.store_load) simp
  with assms(1,3) show ?thesis
    by (simp add: udp_handler_down_body_def recv_into_fits BUFFSIZE_def down_config_def Let_def
        split: prod.splits)
qed

text \<open>C18. After the datagram with TEID 0 the process takes no further downlink datagram, and at
  most one further uplink datagram: the one the uplink thread was already waiting for.\<close>

theorem pt_shutdown:
  assumes "pt_ok s" and "is_icm a" and "pt_step s (Ev_Down (Rx (le32 0) a)) t" and "pt_trace t es u"
  shows "filter is_down es = [] \<and> length (filter is_up es) \<le> 1"
proof -
  from assms(3) obtain d q k ts where t: "t = s\<lparr>down := d, queue := q, run := (run s \<and> k),
      sent := sent s @ ts, down_pc := loop_head (run s \<and> k)\<rparr>"
    and b: "udp_handler_down_body (Rx (le32 0) a) (down s) (queue s) = Inr (d, q, k, ts)"
    by (auto elim: pt_step_downE)
  have "\<not> k" using assms(1) by (intro zero_teid_body [OF assms(2) _ b]) (simp add: pt_ok_def)
  with t have "\<not> run t" and "waiting (down_pc t) = 0" and "waiting (up_pc t) \<le> 1"
    by (simp_all add: loop_head_def waiting_def)
  with stopped_trace [OF assms(4)] show ?thesis by simp
qed

lemma pt_shutdown_witness:
  "\<exists>s t u. pt_step s (Ev_Down (Rx (le32 0) icm_addr)) t \<and> pt_trace t [Ev_Print] u \<and>
     filter is_down [Ev_Print] = [] \<and> length (filter is_up [Ev_Print]) \<le> 1"
proof -
  let ?s = "pt_init (replicate BUFFSIZE 1) (replicate BUFFSIZE 1) [5, 5, 5] enb_peer"
  have ok: "pt_ok ?s" by (intro pt_init_ok) (simp_all add: MAX_DRB_def)
  have r: "\<exists>d q k ts. udp_handler_down_body (Rx (le32 0) icm_addr) (down ?s) (queue ?s) = Inr (d, q, k, ts)"
    by (cases "down_config ((down ?s)\<lparr>buffer := put_bytes 0 (le32 0) (buffer (down ?s)), from_addr := icm_addr\<rparr>)")
      (simp add: udp_handler_down_body_def recv_into_fits BUFFSIZE_def demo_simps)
  have i: "alive ?s" "down_pc ?s = Waiting" by (simp_all add: pt_init_def)
  from r obtain t where t: "pt_step ?s (Ev_Down (Rx (le32 0) icm_addr)) t"
    using pt_step.down [OF i] by blast
  then have "pt_ok t" using ok by (rule pt_step_ok)
  then obtain q' where "handler_print_body (queue t) = Some (Inr q')"
    using handler_print_body_ok [of "queue t"] by (auto simp: pt_ok_def)
  moreover have "alive t" "print_pc t = Waiting"
    using t by (auto elim!: pt_step_downE simp: pt_init_def)
  ultimately obtain u where "pt_trace t [Ev_Print] u"
    by (blast intro: pt_step.print pt_trace.intros)
  with t pt_shutdown [OF ok demo_simps(1) t] show ?thesis by blast
qed

section \<open>Memory safety of the list\<close>

text \<open>C12. In every state the process can reach the linked list is well formed: it is acyclic
  and null-terminated, its cells are exactly the allocated ones, and one more iteration of the
  printing thread ends, follows no bad pointer and removes the oldest record. The arrays keep
  their sizes and the index of the next TEID stays in range.\<close>

theorem pt_memory_safe:
  assumes "length ub = BUFFSIZE" and "length db = BUFFSIZE" and "length junk = MAX_DRB"
    and "pt_trace (pt_init ub db junk a) es t"
  shows "queue_ok (queue t) \<and> down_ok (down t) \<and> length (up_buffer t) = BUFFSIZE \<and>
    (\<exists>q'. handler_print_body (queue t) = Some (Inr q') \<and> queue_ok q' \<and>
       queue_contents q' = tl (queue_contents (queue t)))"
proof -
  have "pt_ok t" using assms(4) pt_init_ok [OF assms(1,2,3)] by (rule pt_trace_ok)
  then show ?thesis using handler_print_body_ok [of "queue t"] by (simp add: pt_ok_def)
qed

lemma pt_memory_safe_witness:
  "\<exists>t. pt_trace (pt_init (replicate BUFFSIZE 1) (replicate BUFFSIZE 1) (replicate MAX_DRB 5) enb_peer)
       [Ev_Sleep_Over] t \<and>
     queue_ok (queue t) \<and> down_ok (down t) \<and> length (up_buffer t) = BUFFSIZE \<and>
     (\<exists>q'. handler_print_body (queue t) = Some (Inr q') \<and> queue_ok q' \<and>
        queue_contents q' = tl (queue_contents (queue t)))"
proof -
  let ?s = "pt_init (replicate BUFFSIZE 1) (replicate BUFFSIZE 1) (replicate MAX_DRB 5) enb_peer"
  have "pt_step ?s Ev_Sleep_Over (?s\<lparr>run := False, alive := False\<rparr>)"
    by (rule pt_step.sleep_over) (simp add: pt_init_def)
  then have t: "pt_trace ?s [Ev_Sleep_Over] (?s\<lparr>run := False, alive := False\<rparr>)"
    by (blast intro: pt_trace.intros)
  with pt_memory_safe [OF _ _ _ t] show ?thesis by auto
qed

text \<open>C10. The list is a first-in first-out queue: records pushed on an empty list are removed by
  the printing thread in the order in which they were pushed, and then no cell is left
  allocated.\<close>

theorem queue_fifo:
  "\<exists>q'. drain take_item (length xs) (fold link_item xs empty_queue) = (xs, q') \<and>
     queue_contents q' = [] \<and> dom (cells q') = {} \<and> anchor q' = None"
proof -
  have e: "queue_ok empty_queue" "queue_contents empty_queue = []"
    using empty_queue_ok by (simp_all add: queue_contents_def)
  obtain q' where q': "drain take_item (length xs) (fold link_item xs empty_queue) = (xs, q')"
    "queue_ok q'" "queue_contents q' = []"
    using ptq.enq_drain [OF e] by blast
  then have "queue_addrs q' = []" by (simp add: queue_contents_def)
  with q' queue_okD(3) [OF q'(2)] queue_anchor [OF q'(2)] show ?thesis by auto
qed

text \<open>The record of a datagram is made with \<^verbatim>\<open>strcpy\<close>, so it fails exactly when the buffer of
  \<open>BUFFSIZE\<close> bytes holds no zero byte: then the copy reads past its end. Otherwise the record
  keeps the bytes before the first zero byte only.\<close>

theorem add_queue_item_outcome:
  "add_queue_item buf dir n q =
    (if 0 \<in> set buf then
       Inr (link_item (takeWhile (\<lambda>b. b \<noteq> 0) buf @ [0], word_of_int n, dir) q)
     else Inl Strcpy_Overrun)"
proof -
  have "c_string buf = (if 0 \<in> set buf then Some (takeWhile (\<lambda>b. b \<noteq> 0) buf @ [0]) else None)"
    by (induction buf) auto
  then show ?thesis by (simp add: add_queue_item_def)
qed

section \<open>The uplink thread\<close>

lemma up_body_forward:
  assumes "length buf = BUFFSIZE" and "0 \<in> set (take BUFFSIZE d)"
  shows "\<exists>q'. udp_handler_up_body (Rx d a) buf q =
    Inr (put_bytes 0 (take BUFFSIZE d) buf, q', Tx Sock_Epc (take BUFFSIZE d) epc_peer)"
proof -
  let ?b = "put_bytes 0 (take BUFFSIZE d) buf"
  have r: "recv_into buf d = (?b, int (min BUFFSIZE (length d)))" by (simp add: recv_into_def)
  obtain str where "add_queue_item ?b UPSTREAM (int (min BUFFSIZE (length d))) q =
      Inr (link_item (str, word_of_int (int (min BUFFSIZE (length d))), UPSTREAM) q)"
    using add_queue_item_total [OF zero_in_put [OF assms(2)]] by blast
  moreover have "c_sendto Sock_Epc ?b (int (min BUFFSIZE (length d))) epc_peer =
      Tx Sock_Epc (take BUFFSIZE d) epc_peer"
    using assms(1) by (simp add: c_sendto_def put_bytes_def min_def)
  ultimately show ?thesis by (simp add: udp_handler_up_body_def r)
qed

text \<open>The uplink thread sends every datagram of the eNB to the EPC, in order and unchanged up
  to the size of the buffer, as long as each contains a zero byte (every GTP-U datagram of less
  than 2048 bytes over IPv4 does in practice; without one the record of the datagram overruns).\<close>

theorem up_forwards_all:
  assumes "length buf = BUFFSIZE" and "\<forall>(d, a)\<in>set rs. 0 \<in> set (take BUFFSIZE d)"
  shows "\<exists>buf' q'. udp_handler_up (map (\<lambda>(d, a). Rx d a) rs) buf q =
    Inr (buf', q', map (\<lambda>(d, a). Tx Sock_Epc (take BUFFSIZE d) epc_peer) rs)"
proof -
  have "\<exists>buf' q'. rfold up_iter (map (\<lambda>(d, a). Rx d a) rs) (buf, q, out) =
    Inr (buf', q', out @ map (\<lambda>(d, a). Tx Sock_Epc (take BUFFSIZE d) epc_peer) rs)" for out
    using assms
  proof (induction rs arbitrary: buf q out)
    case Nil
    then show ?case by simp
  next
    case (Cons r rs)
    obtain d a where r: "r = (d, a)" by (cases r)
    let ?b = "put_bytes 0 (take BUFFSIZE d) buf"
    from Cons.prems r obtain q1 where q1: "udp_handler_up_body (Rx d a) buf q =
        Inr (?b, q1, Tx Sock_Epc (take BUFFSIZE d) epc_peer)"
      using up_body_forward by fastforce
    have b: "length ?b = BUFFSIZE" using Cons.prems(1) by simp
    have rest: "\<forall>(d, a)\<in>set rs. 0 \<in> set (take BUFFSIZE d)" using Cons.prems(2) by simp
    from Cons.IH [OF b rest, of q1 "out @ [Tx Sock_Epc (take BUFFSIZE d) epc_peer]"] q1
    show ?case by (simp add: r up_iter_def)
  qed
  from this [of "[]"] show ?thesis by (simp add: udp_handler_up_def)
qed

lemma up_forwards_all_witness:
  "\<exists>buf' q'. udp_handler_up (map (\<lambda>(d, a). Rx d a) [([1, 0, 2], enb_peer), ([0], enb_peer)])
      (replicate BUFFSIZE 7) empty_queue =
    Inr (buf', q', map (\<lambda>(d, a). Tx Sock_Epc (take BUFFSIZE d) epc_peer)
      [([1, 0, 2], enb_peer), ([0], enb_peer)])"
  by (rule up_forwards_all) (simp_all add: BUFFSIZE_def)

end
