(* ===== verification/Itti.thy ===== *)
theory Itti
  imports Prelude
begin

text \<open>
  The inter-task interface of the eNB
  (\<^verbatim>\<open>src/openairinterface5g/common/utils/ocp_itti/intertask_interface.h\<close> and
  \<^verbatim>\<open>intertask_interface.cpp\<close>): message queues and timers of the tasks, with the copy of every
  message to the ICM task.

  \<^item> Messages and buffers are blocks on a heap; queues hold pointers to messages. \<^verbatim>\<open>malloc\<close>
    returns a new address and is assumed to succeed (the code asserts that it does).
  \<^item> Failed assertions, bad pointers, indices out of an array and the use of an invalid
    iterator are errors.
  \<^item> What is done while the mutex of a queue is locked is one atomic step. Waiting for events releases it, so
    \<open>itti_receive_msg\<close> is split at \<^verbatim>\<open>epoll_wait\<close> into the part before the wait and the part after it, and a send locks two
    queues one after the other; \<open>Itti_Wake\<close> interleaves these parts.
  \<^item> The \<^verbatim>\<open>func\<close> field of every task is null in the table of tasks, so the loops that call it
    never run; \<open>no_inline_tasks\<close> states it.
  \<^item> The message ids and the members of the message union are those of this header and those
    the modelled tasks name; the remaining ids of \<^verbatim>\<open>all_msg.h\<close> are \<open>OTHER_MSG\<close>. A sender fills
    the union member that belongs to the id, so the copy of that member is the whole payload.
\<close>

section \<open>Tasks and messages\<close>

datatype task_id =
    TASK_UNKNOWN | TASK_TIMER | TASK_L2L1 | TASK_BM | TASK_PHY_ENB | TASK_MAC_ENB | TASK_RLC_ENB
  | TASK_RRC_ENB_NB_IoT | TASK_PDCP_ENB | TASK_DATA_FORWARDING | TASK_END_MARKER | TASK_RRC_ENB
  | TASK_RAL_ENB | TASK_S1AP | TASK_X2AP | TASK_M2AP_ENB | TASK_M2AP_MCE | TASK_M3AP
  | TASK_M3AP_MME | TASK_M3AP_MCE | TASK_SCTP | TASK_ENB_APP | TASK_MCE_APP | TASK_MME_APP
  | TASK_FLEXRAN_AGENT | TASK_PHY_UE | TASK_MAC_UE | TASK_RLC_UE | TASK_PDCP_UE | TASK_RRC_UE
  | TASK_NAS_UE | TASK_RAL_UE | TASK_MSC | TASK_GTPV1_U | TASK_UDP | TASK_ICM | TASK_CU_F1
  | TASK_DU_F1 | TASK_MAX

record task_info =
  priority :: nat
  queue_size :: nat
  func :: bool        \<comment> \<open>not null\<close>
  threadFunc :: bool  \<comment> \<open>not null\<close>

definition TASK_PRIORITY_MAX :: nat where "TASK_PRIORITY_MAX = 100"
definition TASK_PRIORITY_MED :: nat where "TASK_PRIORITY_MED = 55"

definition task_def :: "task_id \<Rightarrow> nat \<Rightarrow> nat \<Rightarrow> task_id \<times> task_info" where
  "task_def t p q = (t, \<lparr>priority = p, queue_size = q, func = False, threadFunc = False\<rparr>)"

definition tasks_info :: "(task_id \<times> task_info) list" where
  "tasks_info =
    [task_def TASK_UNKNOWN TASK_PRIORITY_MED 50,
     task_def TASK_TIMER TASK_PRIORITY_MED 10,
     task_def TASK_L2L1 TASK_PRIORITY_MAX 200,
     task_def TASK_BM TASK_PRIORITY_MED 200,
     task_def TASK_PHY_ENB TASK_PRIORITY_MED 200,
     task_def TASK_MAC_ENB TASK_PRIORITY_MED 200,
     task_def TASK_RLC_ENB TASK_PRIORITY_MED 200,
     task_def TASK_RRC_ENB_NB_IoT TASK_PRIORITY_MED 200,
     task_def TASK_PDCP_ENB TASK_PRIORITY_MED 200,
     task_def TASK_DATA_FORWARDING TASK_PRIORITY_MED 200,
     task_def TASK_END_MARKER TASK_PRIORITY_MED 200,
     task_def TASK_RRC_ENB TASK_PRIORITY_MED 200,
     task_def TASK_RAL_ENB TASK_PRIORITY_MED 200,
     task_def TASK_S1AP TASK_PRIORITY_MED 200,
     task_def TASK_X2AP TASK_PRIORITY_MED 200,
     task_def TASK_M2AP_ENB TASK_PRIORITY_MED 200,
     task_def TASK_M2AP_MCE TASK_PRIORITY_MED 200,
     task_def TASK_M3AP TASK_PRIORITY_MED 200,
     task_def TASK_M3AP_MME TASK_PRIORITY_MED 200,
     task_def TASK_M3AP_MCE TASK_PRIORITY_MED 200,
     task_def TASK_SCTP TASK_PRIORITY_MED 200,
     task_def TASK_ENB_APP TASK_PRIORITY_MED 200,
     task_def TASK_MCE_APP TASK_PRIORITY_MED 200,
     task_def TASK_MME_APP TASK_PRIORITY_MED 200,
     task_def TASK_FLEXRAN_AGENT TASK_PRIORITY_MED 200,
     task_def TASK_PHY_UE TASK_PRIORITY_MED 200,
     task_def TASK_MAC_UE TASK_PRIORITY_MED 200,
     task_def TASK_RLC_UE TASK_PRIORITY_MED 200,
     task_def TASK_PDCP_UE TASK_PRIORITY_MED 200,
     task_def TASK_RRC_UE TASK_PRIORITY_MED 200,
     task_def TASK_NAS_UE TASK_PRIORITY_MED 200,
     task_def TASK_RAL_UE TASK_PRIORITY_MED 200,
     task_def TASK_MSC TASK_PRIORITY_MED 200,
     task_def TASK_GTPV1_U TASK_PRIORITY_MED 1000,
     task_def TASK_UDP TASK_PRIORITY_MED 1000,
     task_def TASK_ICM TASK_PRIORITY_MED 1000,
     task_def TASK_CU_F1 TASK_PRIORITY_MED 200,
     task_def TASK_DU_F1 TASK_PRIORITY_MED 200,
     task_def TASK_MAX TASK_PRIORITY_MED 200]"

text \<open>The enumeration numbers the tasks in the order of the table.\<close>

fun position :: "'a \<Rightarrow> 'a list \<Rightarrow> nat" where
  "position x [] = 0"
| "position x (y # ys) = (if x = y then 0 else Suc (position x ys))"

definition task_num :: "task_id \<Rightarrow> nat" where
  "task_num t = position t (map fst tasks_info)"

type_synonym ptr = nat

definition NULL :: ptr where "NULL = 0"

datatype MessagesIds =
    TIMER_HAS_EXPIRED | INITIALIZE_MESSAGE | ACTIVATE_MESSAGE | DEACTIVATE_MESSAGE
  | TERMINATE_MESSAGE | MESSAGE_TEST
  | RRC_SUBFRAME_PROCESS | S1AP_E_RAB_SETUP_RESP | UDP_INIT | UDP_DATA_REQ | UDP_DATA_IND
  | OTHER_MSG nat

record e_rab_setup =
  e_rab_id :: nat
  gtp_teid :: u32

record udp_init =
  port :: int
  address :: ptr

record udp_data =
  buffer :: ptr
  buffer_length :: nat
  buffer_offset :: nat
  peer :: sockaddr

datatype msg =
    Timer_Has_Expired (timer_id: nat) (arg: ptr)
  | Msg_Empty
  | E_Rab_Setup_Resp "e_rab_setup list"
  | Udp_Init udp_init
  | Udp_Data_Req udp_data
  | Udp_Data_Ind udp_data
  | Other_Msg nat

record MessageHeader =
  messageId :: MessagesIds
  originTaskId :: task_id
  destinationTaskId :: task_id
  instance_no :: int
  lte_frame :: u32
  lte_slot :: byte
  ittiMsgSize :: u32

record MessageDef =
  ittiMsgHeader :: MessageHeader
  ittiMsg :: msg

abbreviation ITTI_MSG_ID :: "MessageDef \<Rightarrow> MessagesIds" where
  "ITTI_MSG_ID m \<equiv> messageId (ittiMsgHeader m)"

abbreviation ITTI_MSG_ORIGIN_ID :: "MessageDef \<Rightarrow> task_id" where
  "ITTI_MSG_ORIGIN_ID m \<equiv> originTaskId (ittiMsgHeader m)"

definition INSTANCE_DEFAULT :: int where "INSTANCE_DEFAULT = 65534"

section \<open>State\<close>

datatype timer_type = TIMER_PERIODIC | TIMER_ONE_SHOT

record timer_elm =
  ttype :: timer_type
  tinstance :: int
  duration :: nat
  timeout :: u64
  timer_arg :: ptr

text \<open>The queue lists the front of the vector first. \<open>timer_map\<close> lists the map in the order of
  its keys. \<open>epoll_fds\<close> are the descriptors registered with the kernel, \<open>sem_counter\<close> the value
  of the event descriptor.\<close>

record task_list =
  message_queue :: "ptr list"
  timer_map :: "(nat \<times> timer_elm) list"
  next_timer :: u64
  nb_fd_epoll :: int
  epoll_fds :: "int list"
  sem_fd :: int
  sem_counter :: nat

text \<open>A block of the memory pool; its data lies behind the structure in the same piece of memory.\<close>

record mem_block =
  mb_next :: ptr
  mb_previous :: ptr
  mb_data :: "byte list"
  mb_size :: u32

datatype block = Msg MessageDef | Buf "byte list" | Blk mem_block

record itti =
  tasks :: "task_id \<Rightarrow> task_list"
  heap :: "ptr \<rightharpoonup> block"
  brk :: ptr
  threads :: "task_id list"

datatype itti_error =
    Assert_Fatal
  | Bad_Pointer
  | Out_Of_Bounds
  | Invalid_Iterator

type_synonym 'a result = "itti_error + 'a"

definition UINT64_MAX :: u64 where "UINT64_MAX = - 1"
definition UINT16_MAX :: nat where "UINT16_MAX = 65535"

section \<open>Memory\<close>

definition itti_malloc :: "block \<Rightarrow> itti \<Rightarrow> ptr \<times> itti" where
  "itti_malloc b s = (brk s, s\<lparr>heap := (heap s)(brk s \<mapsto> b), brk := Suc (brk s)\<rparr>)"

definition itti_free :: "ptr \<Rightarrow> itti \<Rightarrow> itti result" where
  "itti_free p s =
     (if p = NULL then Inl Assert_Fatal
      else if heap s p = None then Inl Bad_Pointer
      else Inr (s\<lparr>heap := (heap s)(p := None)\<rparr>))"

text \<open>The memory pool is a wrapper of \<^verbatim>\<open>malloc\<close> and \<^verbatim>\<open>free\<close>. \<open>junk\<close> is what the fresh memory holds.\<close>

definition get_free_mem_block :: "(nat \<Rightarrow> byte) \<Rightarrow> u32 \<Rightarrow> itti \<Rightarrow> ptr \<times> itti" where
  "get_free_mem_block junk sizeP s =
     itti_malloc (Blk \<lparr>mb_next = NULL, mb_previous = NULL, mb_data = map junk [0..<unat sizeP], mb_size = sizeP\<rparr>) s"

definition free_mem_block :: "ptr \<Rightarrow> itti \<Rightarrow> itti result" where
  "free_mem_block leP s =
     (if leP = NULL then Inl Assert_Fatal
      else if heap s leP = None then Inl Bad_Pointer
      else Inr (s\<lparr>heap := (heap s)(leP := None)\<rparr>))"

definition get_msg :: "ptr \<Rightarrow> itti \<Rightarrow> MessageDef result" where
  "get_msg p s = (case heap s p of Some (Msg m) \<Rightarrow> Inr m | _ \<Rightarrow> Inl Bad_Pointer)"

definition get_buf :: "ptr \<Rightarrow> itti \<Rightarrow> byte list result" where
  "get_buf p s = (case heap s p of Some (Buf b) \<Rightarrow> Inr b | _ \<Rightarrow> Inl Bad_Pointer)"

text \<open>\<open>junk\<close> is what the fresh memory holds in the fields the code leaves unset. The payload
  size of an id comes from \<^verbatim>\<open>messages_info\<close>, whose sizes the C types outside determine; \<open>hdr\<close> is
  the size of the header.\<close>

definition itti_alloc_new_message_sized ::
  "task_id \<Rightarrow> MessagesIds \<Rightarrow> u32 \<Rightarrow> MessageDef \<Rightarrow> itti \<Rightarrow> ptr \<times> itti" where
  "itti_alloc_new_message_sized origin_task_id message_id sz junk =
     itti_malloc (Msg (junk\<lparr>ittiMsgHeader := (ittiMsgHeader junk)
       \<lparr>messageId := message_id, originTaskId := origin_task_id, ittiMsgSize := sz\<rparr>\<rparr>))"

definition itti_alloc_new_message ::
  "u32 \<Rightarrow> (MessagesIds \<Rightarrow> u32) \<Rightarrow> task_id \<Rightarrow> MessagesIds \<Rightarrow> MessageDef \<Rightarrow> itti \<Rightarrow> ptr \<times> itti" where
  "itti_alloc_new_message hdr msize origin_task_id message_id junk =
     itti_alloc_new_message_sized origin_task_id message_id (hdr + msize message_id) junk"

section \<open>Sending\<close>

definition upd_task :: "task_id \<Rightarrow> (task_list \<Rightarrow> task_list) \<Rightarrow> itti \<Rightarrow> itti" where
  "upd_task t f s = s\<lparr>tasks := (tasks s)(t := f (tasks s t))\<rparr>"

definition push_message :: "ptr \<Rightarrow> task_list \<Rightarrow> task_list" where
  "push_message p t =
     t\<lparr>message_queue := p # message_queue t, sem_counter := sem_counter t + 1\<rparr>"

definition itti_send_msg_to_task_locked :: "task_id \<Rightarrow> int \<Rightarrow> ptr \<Rightarrow> itti \<Rightarrow> itti result" where
  "itti_send_msg_to_task_locked dest inst p s =
     (if dest = TASK_MAX then Inl Out_Of_Bounds else
      rbind (get_msg p s) (\<lambda>m.
        let m' = m\<lparr>ittiMsgHeader := (ittiMsgHeader m)\<lparr>destinationTaskId := dest,
              instance_no := inst, lte_frame := 0, lte_slot := 0\<rparr>\<rparr>
        in Inr (upd_task dest (push_message p) (s\<lparr>heap := (heap s)(p \<mapsto> Msg m')\<rparr>))))"

text \<open>The copy for the ICM task is made before the message is queued: afterwards the receiver
  may already have freed it.\<close>

definition itti_send_msg_to_task ::
  "u32 \<Rightarrow> (MessagesIds \<Rightarrow> u32) \<Rightarrow> MessageDef \<Rightarrow> task_id \<Rightarrow> int \<Rightarrow> ptr \<Rightarrow> itti \<Rightarrow> itti result" where
  "itti_send_msg_to_task hdr msize junk dest inst p s =
     rbind (get_msg p s) (\<lambda>m.
       let (c, s1) = itti_alloc_new_message hdr msize TASK_ICM (ITTI_MSG_ID m) junk s;
           s2 = s1\<lparr>heap := (heap s1)(c \<mapsto> Msg \<lparr>ittiMsgHeader = ittiMsgHeader m, ittiMsg = ittiMsg m\<rparr>)\<rparr>
       in rbind (itti_send_msg_to_task_locked dest inst p s2) (\<lambda>s3.
            if ITTI_MSG_ID m \<noteq> RRC_SUBFRAME_PROCESS
            then itti_send_msg_to_task_locked TASK_ICM inst c s3
            else Inr s3))"

section \<open>Descriptors and tasks\<close>

definition itti_subscribe_event_fd :: "task_id \<Rightarrow> int \<Rightarrow> itti \<Rightarrow> itti result" where
  "itti_subscribe_event_fd t fd s =
     (if fd \<in> set (epoll_fds (tasks s t)) then Inl Assert_Fatal
      else Inr (upd_task t (\<lambda>l. l\<lparr>nb_fd_epoll := nb_fd_epoll l + 1, epoll_fds := epoll_fds l @ [fd]\<rparr>) s))"

definition itti_unsubscribe_event_fd :: "task_id \<Rightarrow> int \<Rightarrow> itti \<Rightarrow> itti result" where
  "itti_unsubscribe_event_fd t fd s =
     (if fd \<notin> set (epoll_fds (tasks s t)) then Inl Assert_Fatal
      else Inr (upd_task t (\<lambda>l. l\<lparr>nb_fd_epoll := nb_fd_epoll l - 1,
                                 epoll_fds := remove1 fd (epoll_fds l)\<rparr>) s))"

text \<open>\<open>ok\<close>: the result of \<^verbatim>\<open>pthread_create\<close> is 0.\<close>

definition itti_create_task :: "bool \<Rightarrow> task_id \<Rightarrow> itti \<Rightarrow> itti result" where
  "itti_create_task ok t s = (if ok then Inr (s\<lparr>threads := threads s @ [t]\<rparr>) else Inl Assert_Fatal)"

text \<open>Sending a termination message has an empty body, so terminating the tasks only waits.\<close>

definition itti_send_terminate_message :: "task_id \<Rightarrow> itti \<Rightarrow> itti" where
  "itti_send_terminate_message t s = s"

definition itti_terminate_tasks :: "task_id \<Rightarrow> itti \<Rightarrow> itti" where
  "itti_terminate_tasks t s = itti_send_terminate_message t s"

text \<open>The kernel hands out the event descriptors; \<open>fds i\<close> is the one of task number \<open>i\<close>. The
  fields with default initialisers start as the structure gives them.\<close>

definition fresh_task :: task_list where
  "fresh_task = \<lparr>message_queue = [], timer_map = [], next_timer = UINT64_MAX, nb_fd_epoll = 0,
     epoll_fds = [], sem_fd = -1, sem_counter = 0\<rparr>"

definition itti_empty :: itti where
  "itti_empty = \<lparr>tasks = (\<lambda>_. fresh_task), heap = Map.empty, brk = 1, threads = []\<rparr>"

definition init_task :: "(task_id \<Rightarrow> int) \<Rightarrow> task_id \<times> task_info \<Rightarrow> itti \<Rightarrow> itti result" where
  "init_task fds ti s = (case ti of (t, info) \<Rightarrow>
     if fds t < 0 then Inl Assert_Fatal else
     rbind (itti_subscribe_event_fd t (fds t) (upd_task t (\<lambda>l. l\<lparr>sem_fd := fds t\<rparr>) s)) (\<lambda>s'.
       if threadFunc info then itti_create_task True t s' else Inr s'))"

definition itti_init :: "nat \<Rightarrow> (task_id \<Rightarrow> int) \<Rightarrow> itti \<Rightarrow> itti result" where
  "itti_init task_max fds s = rfold (init_task fds) (take task_max tasks_info) s"

section \<open>Timers\<close>

definition timer_find :: "nat \<Rightarrow> task_list \<Rightarrow> timer_elm option" where
  "timer_find k t = map_of (timer_map t) k"

definition timer_put :: "nat \<Rightarrow> timer_elm \<Rightarrow> task_list \<Rightarrow> task_list" where
  "timer_put k v t = t\<lparr>timer_map := insort_key fst (k, v) (filter (\<lambda>x. fst x \<noteq> k) (timer_map t))\<rparr>"

definition lower_next :: "u64 \<Rightarrow> task_list \<Rightarrow> task_list" where
  "lower_next w l = (if w < next_timer l then l\<lparr>next_timer := w\<rparr> else l)"

text \<open>The loop that draws random numbers until the timer id is new; \<open>None\<close> if the drawn numbers
  run out first.\<close>

definition mk_timer_id :: "nat \<Rightarrow> task_id \<Rightarrow> nat" where
  "mk_timer_id r t = push_bit 16 (r mod UINT16_MAX) OR task_num t"

fun draw_timer_id :: "nat list \<Rightarrow> task_id \<Rightarrow> task_list \<Rightarrow> nat option" where
  "draw_timer_id [] t l = None"
| "draw_timer_id (r # rs) t l =
     (if timer_find (mk_timer_id r t) l \<noteq> None then draw_timer_id rs t l
      else Some (mk_timer_id r t))"

definition timer_duration :: "u32 \<Rightarrow> u32 \<Rightarrow> u32" where
  "timer_duration interval_sec interval_us = interval_sec * 1000 + interval_us div 1000"

definition timer_setup ::
  "u32 \<Rightarrow> u32 \<Rightarrow> task_id \<Rightarrow> int \<Rightarrow> timer_type \<Rightarrow> ptr \<Rightarrow> nat list \<Rightarrow> u64 \<Rightarrow> itti \<Rightarrow> (nat \<times> itti) option" where
  "timer_setup interval_sec interval_us t inst ty targ rs now s =
     (case draw_timer_id rs t (tasks s t) of
        None \<Rightarrow> None
      | Some k \<Rightarrow>
          let d = timer_duration interval_sec interval_us;
              tm = \<lparr>ttype = ty, tinstance = inst, duration = unat d, timeout = now + ucast d, timer_arg = targ\<rparr>
          in Some (k, upd_task t (\<lambda>l. (lower_next (timeout tm) (timer_put k tm l))
                 \<lparr>sem_counter := sem_counter l + 1\<rparr>) s))"

definition timer_remove :: "nat \<Rightarrow> itti \<Rightarrow> (int \<times> itti) result" where
  "timer_remove k s =
     (let n = k AND 65535 in
      if n \<ge> task_num TASK_MAX then Inl Out_Of_Bounds
      else let t = map fst tasks_info ! n in
        Inr (if timer_find k (tasks s t) \<noteq> None then 0 else 1,
             upd_task t (\<lambda>l. l\<lparr>timer_map := filter (\<lambda>x. fst x \<noteq> k) (timer_map l)\<rparr>) s))"

definition set_payload :: "ptr \<Rightarrow> msg \<Rightarrow> itti \<Rightarrow> itti" where
  "set_payload p x s = (case heap s p of
     Some (Msg m) \<Rightarrow> s\<lparr>heap := (heap s)(p \<mapsto> Msg (m\<lparr>ittiMsg := x\<rparr>))\<rparr> | _ \<Rightarrow> s)"

definition rearm :: "nat \<Rightarrow> timer_elm \<Rightarrow> task_list \<Rightarrow> task_list" where
  "rearm k e l = (let e' = e\<lparr>timeout := timeout e + of_nat (duration e)\<rparr> in
     lower_next (timeout e') (timer_put k e' l))"

text \<open>The loop over the timers of a task. An expired timer that is not periodic is erased and the
  iterator to it is then incremented, which is an error.\<close>

fun expire_loop ::
  "u32 \<Rightarrow> (MessagesIds \<Rightarrow> u32) \<Rightarrow> MessageDef \<Rightarrow> task_id \<Rightarrow> u64 \<Rightarrow> (nat \<times> timer_elm) list \<Rightarrow> itti \<Rightarrow> itti result"
where
  "expire_loop hdr msize junk t now [] s = Inr s"
| "expire_loop hdr msize junk t now ((k, e) # es) s =
     (if timeout e < now then
        let (p, s1) = itti_alloc_new_message hdr msize TASK_TIMER TIMER_HAS_EXPIRED junk s;
            s2 = set_payload p (Timer_Has_Expired k (timer_arg e)) s1
        in rbind (itti_send_msg_to_task_locked t (tinstance e) p s2) (\<lambda>s3.
          case ttype e of
            TIMER_PERIODIC \<Rightarrow>
              expire_loop hdr msize junk t now es (upd_task t (rearm k e) s3)
          | TIMER_ONE_SHOT \<Rightarrow> Inl Invalid_Iterator)
      else expire_loop hdr msize junk t now es (upd_task t (lower_next (timeout e)) s))"

definition expire_timers ::
  "u32 \<Rightarrow> (MessagesIds \<Rightarrow> u32) \<Rightarrow> MessageDef \<Rightarrow> task_id \<Rightarrow> u64 \<Rightarrow> itti \<Rightarrow> itti result" where
  "expire_timers hdr msize junk t now s =
     (let l = tasks s t in
      if next_timer l \<noteq> UINT64_MAX \<and> next_timer l < now
      then expire_loop hdr msize junk t now (timer_map l) (upd_task t (\<lambda>l. l\<lparr>next_timer := UINT64_MAX\<rparr>) s)
      else Inr s)"

section \<open>Receiving\<close>

text \<open>Taking the oldest message: the back of the vector.\<close>

definition pop_message :: "task_id \<Rightarrow> itti \<Rightarrow> (ptr \<times> itti) option" where
  "pop_message t s =
     (if message_queue (tasks s t) = [] then None
      else Some (last (message_queue (tasks s t)),
                 upd_task t (\<lambda>l. l\<lparr>message_queue := butlast (message_queue l)\<rparr>) s))"

text \<open>\<^verbatim>\<open>NULL\<close> if there is no message.\<close>

definition itti_poll_msg :: "task_id \<Rightarrow> itti \<Rightarrow> ptr \<times> itti" where
  "itti_poll_msg t s = (case pop_message t s of None \<Rightarrow> (NULL, s) | Some (p, s') \<Rightarrow> (p, s'))"

text \<open>What \<^verbatim>\<open>epoll_wait\<close> returns: the descriptors with an event, an interrupted call, or another
  error.\<close>

datatype epoll_res = Ready "int list" | Interrupted | Epoll_Failed

definition consume_sem :: "int list \<Rightarrow> task_list \<Rightarrow> task_list" where
  "consume_sem evs l = (if sem_fd l \<in> set evs then l\<lparr>sem_counter := sem_counter l - 1\<rparr> else l)"

text \<open>A call either returns a pointer or waits for events.\<close>

datatype recv_res = Got ptr itti | Waits itti

definition recv_wait ::
  "u32 \<Rightarrow> (MessagesIds \<Rightarrow> u32) \<Rightarrow> MessageDef \<Rightarrow> task_id \<Rightarrow> u64 \<Rightarrow> itti \<Rightarrow> recv_res result" where
  "recv_wait hdr msize junk t now s = rbind (expire_timers hdr msize junk t now s) (\<lambda>s'. Inr (Waits s'))"

definition itti_receive_msg ::
  "u32 \<Rightarrow> (MessagesIds \<Rightarrow> u32) \<Rightarrow> MessageDef \<Rightarrow> task_id \<Rightarrow> u64 \<Rightarrow> itti \<Rightarrow> recv_res result" where
  "itti_receive_msg hdr msize junk t now s =
     (case pop_message t s of
        Some (p, s') \<Rightarrow> Inr (Got p s')
      | None \<Rightarrow> recv_wait hdr msize junk t now s)"

text \<open>The last part of a call that waited, once the mutex is locked again: a message if there is one; otherwise the
  task waits again, or returns without a message if it has other descriptors.\<close>

definition itti_receive_take ::
  "u32 \<Rightarrow> (MessagesIds \<Rightarrow> u32) \<Rightarrow> MessageDef \<Rightarrow> task_id \<Rightarrow> u64 \<Rightarrow> itti \<Rightarrow> recv_res result" where
  "itti_receive_take hdr msize junk t now s =
     (case pop_message t s of
        Some (p, s') \<Rightarrow> Inr (Got p s')
      | None \<Rightarrow> if nb_fd_epoll (tasks s t) = 1 then recv_wait hdr msize junk t now s
                else Inr (Got NULL s))"

text \<open>The rest of a call that waited, from the return of \<^verbatim>\<open>epoll_wait\<close> on.\<close>

definition itti_receive_wake ::
  "u32 \<Rightarrow> (MessagesIds \<Rightarrow> u32) \<Rightarrow> MessageDef \<Rightarrow> task_id \<Rightarrow> epoll_res \<Rightarrow> u64 \<Rightarrow> itti \<Rightarrow> recv_res result" where
  "itti_receive_wake hdr msize junk t r now s =
     (case r of
        Epoll_Failed \<Rightarrow> Inl Assert_Fatal
      | Interrupted \<Rightarrow> recv_wait hdr msize junk t now s
      | Ready evs \<Rightarrow> itti_receive_take hdr msize junk t now (upd_task t (consume_sem evs) s))"

text \<open>\<^verbatim>\<open>itti_get_events\<close> waits once and returns the descriptors with an event; the event descriptor of
  the queue is among them, with its event mask cleared.\<close>

definition itti_get_events_wake :: "task_id \<Rightarrow> int list \<Rightarrow> itti \<Rightarrow> int list \<times> itti" where
  "itti_get_events_wake t evs s = (evs, upd_task t (consume_sem evs) s)"

section \<open>Sequences of sends\<close>

text \<open>A task allocates a message, fills it and sends it.\<close>

definition send_new ::
  "u32 \<Rightarrow> (MessagesIds \<Rightarrow> u32) \<Rightarrow> MessageDef \<Rightarrow> task_id \<times> int \<times> MessageDef \<Rightarrow> itti \<Rightarrow> itti result" where
  "send_new hdr msize junk x s = (case x of (dest, inst, m) \<Rightarrow>
     let (p, s1) = itti_malloc (Msg m) s in itti_send_msg_to_task hdr msize junk dest inst p s1)"

definition msg_view :: "MessageDef \<Rightarrow> MessagesIds \<times> task_id \<times> msg" where
  "msg_view m = (ITTI_MSG_ID m, ITTI_MSG_ORIGIN_ID m, ittiMsg m)"

definition heap_view :: "(ptr \<rightharpoonup> block) \<Rightarrow> ptr \<Rightarrow> MessagesIds \<times> task_id \<times> msg" where
  "heap_view h p = (case h p of Some (Msg m) \<Rightarrow> msg_view m | _ \<Rightarrow> (OTHER_MSG 0, TASK_UNKNOWN, Msg_Empty))"

text \<open>The messages that wait in a queue, oldest first.\<close>

definition pending :: "task_id \<Rightarrow> itti \<Rightarrow> (MessagesIds \<times> task_id \<times> msg) list" where
  "pending t s = map (heap_view (heap s)) (rev (message_queue (tasks s t)))"

definition queued :: "itti \<Rightarrow> ptr set" where
  "queued s = (\<Union>t. set (message_queue (tasks s t)))"

definition is_msg :: "(ptr \<rightharpoonup> block) \<Rightarrow> ptr \<Rightarrow> bool" where
  "is_msg h p \<longleftrightarrow> (\<exists>m. h p = Some (Msg m))"

definition itti_ok :: "itti \<Rightarrow> bool" where
  "itti_ok s \<longleftrightarrow>
     0 < brk s \<and> (\<forall>p. brk s \<le> p \<longrightarrow> heap s p = None) \<and> heap s NULL = None \<and>
     (\<forall>p\<in>queued s. is_msg (heap s) p) \<and>
     (\<forall>t. distinct (message_queue (tasks s t))) \<and>
     (\<forall>t u. t \<noteq> u \<longrightarrow> set (message_queue (tasks s t)) \<inter> set (message_queue (tasks s u)) = {})"

definition sem_ok :: "itti \<Rightarrow> bool" where
  "sem_ok s \<longleftrightarrow> (\<forall>t. length (message_queue (tasks s t)) \<le> sem_counter (tasks s t))"

definition itti_good :: "itti \<Rightarrow> bool" where
  "itti_good s \<longleftrightarrow> itti_ok s \<and> sem_ok s"

text \<open>The view of a queue as a first-in first-out queue of messages.\<close>

definition enq_msg :: "task_id \<Rightarrow> MessageDef \<Rightarrow> itti \<Rightarrow> itti" where
  "enq_msg t m s = (let (p, s1) = itti_malloc (Msg m) s in
     case itti_send_msg_to_task_locked t 0 p s1 of Inr s' \<Rightarrow> s' | Inl _ \<Rightarrow> s)"

definition view_msg :: "MessagesIds \<times> task_id \<times> msg \<Rightarrow> MessageDef" where
  "view_msg x = (case x of (i, t, b) \<Rightarrow> \<lparr>ittiMsgHeader = \<lparr>messageId = i, originTaskId = t,
     destinationTaskId = TASK_UNKNOWN, instance_no = 0, lte_frame = 0, lte_slot = 0, ittiMsgSize = 0\<rparr>,
     ittiMsg = b\<rparr>)"

definition deq_msg :: "task_id \<Rightarrow> itti \<Rightarrow> ((MessagesIds \<times> task_id \<times> msg) \<times> itti) option" where
  "deq_msg t s = map_option (\<lambda>(p, s'). (heap_view (heap s) p, s')) (pop_message t s)"

text \<open>Sample data.\<close>

definition demo_send :: "MessagesIds \<Rightarrow> msg \<Rightarrow> task_id \<Rightarrow> task_id \<times> int \<times> MessageDef" where
  "demo_send i b d = (d, 0, view_msg (i, TASK_RRC_ENB, b))"

definition demo_timer :: "timer_type \<Rightarrow> itti" where
  "demo_timer ty = upd_task TASK_ICM (\<lambda>l. l\<lparr>next_timer := 10,
     timer_map := [(5, \<lparr>ttype = ty, tinstance = 0, duration = 30, timeout = 10, timer_arg = 0\<rparr>)]\<rparr>) itti_empty"

section \<open>Facts on the table of tasks\<close>

lemma task_num_at [simp]: "map fst tasks_info ! task_num t = t"
  by (cases t) (simp_all add: task_num_def tasks_info_def task_def_def)

lemma task_num_bound: "t \<noteq> TASK_MAX \<Longrightarrow> task_num t < task_num TASK_MAX"
  by (cases t) (simp_all add: task_num_def tasks_info_def task_def_def)

lemma task_num_max: "task_num TASK_MAX = 38"
  by (simp add: task_num_def tasks_info_def task_def_def)

lemma no_inline_tasks: "\<forall>x\<in>set tasks_info. \<not> func (snd x) \<and> \<not> threadFunc (snd x)"
  by (simp add: tasks_info_def task_def_def)

section \<open>Heap and queue lemmas\<close>

lemma tasks_upd_task [simp]:
  "tasks (upd_task t f s) u = (if u = t then f (tasks s t) else tasks s u)"
  "heap (upd_task t f s) = heap s" "brk (upd_task t f s) = brk s"
  by (simp_all add: upd_task_def)

lemma push_message_sel [simp]:
  "message_queue (push_message p l) = p # message_queue l"
  "sem_counter (push_message p l) = sem_counter l + 1"
  by (simp_all add: push_message_def)

lemma timer_sel [simp]:
  "message_queue (lower_next w l) = message_queue l" "message_queue (timer_put k e l) = message_queue l"
  "message_queue (rearm k e l) = message_queue l"
  "sem_counter (lower_next w l) = sem_counter l" "sem_counter (timer_put k e l) = sem_counter l"
  "sem_counter (rearm k e l) = sem_counter l"
  "timer_map (lower_next w l) = timer_map l"
  "message_queue (consume_sem evs l) = message_queue l"
  by (simp_all add: lower_next_def timer_put_def rearm_def Let_def consume_sem_def)

lemma get_msg_Inr: "get_msg p s = Inr m \<longleftrightarrow> heap s p = Some (Msg m)"
  by (auto simp: get_msg_def split: option.splits block.splits)

lemma heap_below: "itti_ok s \<Longrightarrow> heap s p = Some b \<Longrightarrow> p < brk s"
  by (rule ccontr) (simp add: itti_ok_def)

lemma itti_okD:
  assumes "itti_ok s"
  shows "heap s (brk s) = None" "p \<in> set (message_queue (tasks s t)) \<Longrightarrow> is_msg (heap s) p"
    "p \<in> set (message_queue (tasks s t)) \<Longrightarrow> p < brk s" "0 < brk s" "brk s \<le> p \<Longrightarrow> heap s p = None"
    "distinct (message_queue (tasks s t))" "heap s NULL = None"
proof -
  have q: "is_msg (heap s) p" if "p \<in> set (message_queue (tasks s t))" for p
    using assms that by (auto simp: itti_ok_def queued_def)
  show "p \<in> set (message_queue (tasks s t)) \<Longrightarrow> is_msg (heap s) p" by (rule q)
  show "p \<in> set (message_queue (tasks s t)) \<Longrightarrow> p < brk s"
    using q [of p] heap_below [OF assms] by (auto simp: is_msg_def)
qed (use assms in \<open>auto simp: itti_ok_def\<close>)

lemma heap_view_msg [simp]: "h p = Some (Msg m) \<Longrightarrow> heap_view h p = msg_view m"
  by (simp add: heap_view_def)

text \<open>Only the blocks that a queue refers to matter for what is pending in it.\<close>

lemma pending_cong:
  "message_queue (tasks s t) = message_queue (tasks s' t) \<Longrightarrow>
   (\<And>p. p \<in> set (message_queue (tasks s t)) \<Longrightarrow> heap_view (heap s) p = heap_view (heap s') p) \<Longrightarrow>
   pending t s = pending t s'"
  by (simp add: pending_def)

lemma itti_malloc_ok:
  assumes "itti_ok s" and "itti_malloc b s = (p, s')"
  shows "itti_ok s'" "p = brk s" "p \<notin> queued s'" "pending t s' = pending t s"
    "tasks s' = tasks s" "heap s' = (heap s)(p \<mapsto> b)" "brk s' = Suc (brk s)"
proof -
  have s': "s' = s\<lparr>heap := (heap s)(brk s \<mapsto> b), brk := Suc (brk s)\<rparr>" and p: "p = brk s"
    using assms(2) by (auto simp: itti_malloc_def)
  have nq: "brk s \<notin> set (message_queue (tasks s t))" for t
    using itti_okD(1) [OF assms(1)] itti_okD(2) [OF assms(1)] by (fastforce simp: is_msg_def)
  show "pending t s' = pending t s"
    using nq by (intro pending_cong) (auto simp: s' heap_view_def)
  show "itti_ok s'" using assms(1) nq
    by (auto simp: itti_ok_def s' queued_def is_msg_def NULL_def)
  show "p \<notin> queued s'" using nq by (simp add: queued_def s' p)
qed (use assms(2) in \<open>auto simp: itti_malloc_def\<close>)

lemma send_locked_ok:
  assumes "itti_ok s" and "heap s p = Some (Msg m)" and "p \<notin> queued s" and "d \<noteq> TASK_MAX"
  shows "\<exists>s'. itti_send_msg_to_task_locked d i p s = Inr s' \<and> itti_ok s' \<and>
    (\<forall>t. pending t s' = pending t s @ (if t = d then [msg_view m] else [])) \<and>
    (\<forall>t. message_queue (tasks s' t) = (if t = d then [p] else []) @ message_queue (tasks s t)) \<and>
    (\<forall>q. q \<noteq> p \<longrightarrow> heap s' q = heap s q) \<and> brk s' = brk s \<and>
    (\<forall>t. sem_counter (tasks s' t) = sem_counter (tasks s t) + (if t = d then 1 else 0))"
proof -
  let ?m = "m\<lparr>ittiMsgHeader := (ittiMsgHeader m)\<lparr>destinationTaskId := d, instance_no := i,
      lte_frame := 0, lte_slot := 0\<rparr>\<rparr>"
  let ?s = "upd_task d (push_message p) (s\<lparr>heap := (heap s)(p \<mapsto> Msg ?m)\<rparr>)"
  have e: "itti_send_msg_to_task_locked d i p s = Inr ?s"
    using assms(2,4) by (simp add: itti_send_msg_to_task_locked_def get_msg_def)
  have nq: "p \<notin> set (message_queue (tasks s t))" for t using assms(3) by (simp add: queued_def)
  have b: "p < brk s" by (rule heap_below [OF assms(1,2)])
  have n: "p \<noteq> NULL" using itti_okD(7) [OF assms(1)] assms(2) by (cases "p = NULL") simp_all
  have v: "heap_view (heap ?s) q = heap_view (heap s) q" if "q \<noteq> p" for q
    using that by (simp add: heap_view_def)
  have "itti_ok ?s" using assms(1) nq b n
    by (fastforce simp: itti_ok_def queued_def is_msg_def)
  moreover have "map (heap_view (heap ?s)) (rev q) = map (heap_view (heap s)) (rev q)"
    if "p \<notin> set q" for q
  proof (rule map_cong [OF refl])
    fix x assume "x \<in> set (rev q)"
    with that have "x \<noteq> p" by auto
    then show "heap_view (heap ?s) x = heap_view (heap s) x" by (rule v)
  qed
  then have "pending t ?s = pending t s @ (if t = d then [msg_view m] else [])" for t
    using nq [of t] nq [of d] by (simp add: pending_def msg_view_def)
  ultimately show ?thesis using e by auto
qed

text \<open>One send: the destination gets the message, and the ICM task a copy of it.\<close>

lemma send_new_ok:
  assumes "itti_ok s" and "d \<noteq> TASK_MAX"
  shows "\<exists>s'. send_new hdr msize junk (d, i, m) s = Inr s' \<and> itti_ok s' \<and>
    (\<forall>t. pending t s' = pending t s @ (if t = d then [msg_view m] else []) @
       (if t = TASK_ICM \<and> ITTI_MSG_ID m \<noteq> RRC_SUBFRAME_PROCESS then [msg_view m] else [])) \<and>
    (\<forall>t. length (message_queue (tasks s' t)) + sem_counter (tasks s t) =
       length (message_queue (tasks s t)) + sem_counter (tasks s' t)) \<and>
    (ITTI_MSG_ID m = RRC_SUBFRAME_PROCESS \<longrightarrow> Suc (brk s) \<notin> queued s' \<and>
       heap s' (Suc (brk s)) = Some (Msg m)) \<and> brk s' = Suc (Suc (brk s))"
proof -
  obtain p s1 where p: "itti_malloc (Msg m) s = (p, s1)" by (cases "itti_malloc (Msg m) s")
  note m1 = itti_malloc_ok [OF assms(1) p]
  have g: "get_msg p s1 = Inr m" by (simp add: get_msg_Inr m1)
  obtain c s2 where c: "itti_alloc_new_message hdr msize TASK_ICM (ITTI_MSG_ID m) junk s1 = (c, s2)"
    by (cases "itti_alloc_new_message hdr msize TASK_ICM (ITTI_MSG_ID m) junk s1")
  then obtain b where c': "itti_malloc b s1 = (c, s2)"
    by (auto simp: itti_alloc_new_message_def itti_alloc_new_message_sized_def)
  let ?s2 = "s2\<lparr>heap := (heap s2)(c \<mapsto> Msg m)\<rparr>"
  have c3: "itti_malloc (Msg m) s1 = (c, ?s2)" using c' by (auto simp: itti_malloc_def)
  note m2 = itti_malloc_ok [OF m1(1) c3]
  have cp: "c \<noteq> p" using m1(2,7) m2(2) by simp
  have hp: "heap ?s2 p = Some (Msg m)" using m2(6) m1(6) cp by simp
  have pq: "p \<notin> queued ?s2" using m1(3) m2(5) by (simp add: queued_def)
  obtain s3 where s3: "itti_send_msg_to_task_locked d i p ?s2 = Inr s3" "itti_ok s3"
    "\<And>t. pending t s3 = pending t ?s2 @ (if t = d then [msg_view m] else [])"
    "\<And>t. message_queue (tasks s3 t) = (if t = d then [p] else []) @ message_queue (tasks ?s2 t)"
    "\<And>q. q \<noteq> p \<Longrightarrow> heap s3 q = heap ?s2 q" "brk s3 = brk ?s2"
    "\<And>t. sem_counter (tasks s3 t) = sem_counter (tasks ?s2 t) + (if t = d then 1 else 0)"
    using send_locked_ok [OF m2(1) hp pq assms(2), of i] by blast
  have hc: "heap s3 c = Some (Msg m)" using s3(5) [OF cp] by simp
  have cq: "c \<notin> queued s3" using m2(3) s3(4) cp by (auto simp: queued_def split: if_splits)
  have icm: "TASK_ICM \<noteq> TASK_MAX" by simp
  obtain s4 where s4: "itti_send_msg_to_task_locked TASK_ICM i c s3 = Inr s4" "itti_ok s4"
    "\<And>t. pending t s4 = pending t s3 @ (if t = TASK_ICM then [msg_view m] else [])"
    "\<And>t. message_queue (tasks s4 t) = (if t = TASK_ICM then [c] else []) @ message_queue (tasks s3 t)"
    "\<And>t. sem_counter (tasks s4 t) = sem_counter (tasks s3 t) + (if t = TASK_ICM then 1 else 0)"
    "brk s4 = brk s3"
    using send_locked_ok [OF s3(2) hc cq icm, of i] by blast
  have mm: "\<lparr>ittiMsgHeader = ittiMsgHeader m, ittiMsg = ittiMsg m\<rparr> = m" by (cases m) simp
  have e: "send_new hdr msize junk (d, i, m) s =
      (if ITTI_MSG_ID m \<noteq> RRC_SUBFRAME_PROCESS then Inr s4 else Inr s3)"
    using s3(1) s4(1) by (simp add: send_new_def p itti_send_msg_to_task_def g c mm)
  have cc: "c = Suc (brk s)" using m2(2) m1(7) by simp
  show ?thesis
  proof (cases "ITTI_MSG_ID m = RRC_SUBFRAME_PROCESS")
    case True
    then show ?thesis using e s3 m1 m2 hc cq cc by (auto intro!: exI [of _ s3])
  next
    case False
    then show ?thesis using e s3 s4 m1 m2 by (auto intro!: exI [of _ s4])
  qed
qed

text \<open>A send writes only to the message and its copy, which are new.\<close>

lemma send_locked_heap:
  "itti_send_msg_to_task_locked d i p s = Inr s' \<Longrightarrow> q \<noteq> p \<Longrightarrow> heap s' q = heap s q"
  by (auto simp: itti_send_msg_to_task_locked_def rbind_Inr_conv Let_def split: if_splits)

lemma send_new_frame:
  assumes "itti_ok s" and "send_new hdr msize junk (d, i, m) s = Inr s'" and "q < brk s"
  shows "heap s' q = heap s q"
  using assms(2,3)
  by (auto simp: send_new_def itti_malloc_def itti_send_msg_to_task_def rbind_Inr_conv
      itti_alloc_new_message_def itti_alloc_new_message_sized_def split: if_splits
      dest!: send_locked_heap [where q = q])

section \<open>Every step keeps the queues well formed\<close>

lemma upd_task_ok:
  assumes "message_queue (f (tasks s t)) = message_queue (tasks s t)"
  shows "itti_ok (upd_task t f s) = itti_ok s" "queued (upd_task t f s) = queued s"
    "pending u (upd_task t f s) = pending u s"
proof -
  have q: "message_queue (tasks (upd_task t f s) u) = message_queue (tasks s u)" for u
    using assms by simp
  show "queued (upd_task t f s) = queued s" unfolding queued_def q ..
  then show "itti_ok (upd_task t f s) = itti_ok s" unfolding itti_ok_def q by simp
  show "pending u (upd_task t f s) = pending u s" by (simp add: pending_def q del: tasks_upd_task(1))
qed

lemma upd_task_good:
  assumes "itti_good s" and "message_queue (f (tasks s t)) = message_queue (tasks s t)"
    and "sem_counter (tasks s t) \<le> sem_counter (f (tasks s t))"
  shows "itti_good (upd_task t f s)"
proof -
  have "length (message_queue (tasks s u)) \<le> sem_counter (tasks s u)" for u
    using assms(1) by (simp add: itti_good_def sem_ok_def)
  then show ?thesis using assms le_trans [OF _ assms(3)] upd_task_ok(1) [of f s t, OF assms(2)]
    by (simp add: itti_good_def sem_ok_def)
qed

lemma send_new_Inr:
  assumes "send_new hdr msize junk (d, i, m) s = Inr s'"
  shows "d \<noteq> TASK_MAX"
proof
  assume "d = TASK_MAX"
  then have "itti_send_msg_to_task_locked d i p s = Inl Out_Of_Bounds" for p s
    by (simp add: itti_send_msg_to_task_locked_def)
  with assms show False
    by (auto simp: send_new_def itti_send_msg_to_task_def rbind_Inr_conv split: prod.splits)
qed

lemma send_new_good:
  assumes "itti_good s" and "send_new hdr msize junk x s = Inr s'"
  shows "itti_good s'"
proof -
  obtain d i m where x: "x = (d, i, m)" by (cases x)
  have "d \<noteq> TASK_MAX" using assms(2) x by (blast dest: send_new_Inr)
  with assms x obtain "itti_ok s'" "\<And>t. length (message_queue (tasks s' t)) + sem_counter (tasks s t) =
       length (message_queue (tasks s t)) + sem_counter (tasks s' t)"
    using send_new_ok [of s d hdr msize junk i m] by (auto simp: itti_good_def)
  moreover have "length (message_queue (tasks s t)) \<le> sem_counter (tasks s t)" for t
    using assms(1) by (simp add: itti_good_def sem_ok_def)
  ultimately show ?thesis
    by (metis add_le_cancel_left add.commute itti_good_def sem_ok_def)
qed

interpretation itti_send: keeps_err "send_new hdr msize junk" itti_good for hdr msize junk
  by unfold_locales (rule send_new_good)

lemma alloc_payload:
  "itti_alloc_new_message hdr msize o' mid junk s = (p, s1) \<Longrightarrow>
     \<exists>m. itti_malloc (Msg m) s = (p, set_payload p x s1) \<and> msg_view m = (mid, o', x)"
  by (rule exI [of _ "junk\<lparr>ittiMsgHeader := (ittiMsgHeader junk)\<lparr>messageId := mid, originTaskId := o',
        ittiMsgSize := hdr + msize mid\<rparr>, ittiMsg := x\<rparr>"])
    (auto simp: itti_alloc_new_message_def itti_alloc_new_message_sized_def itti_malloc_def
      set_payload_def msg_view_def)

text \<open>Taking the oldest message.\<close>

lemma pop_message_ok:
  assumes "itti_ok s" and "pop_message t s = Some (p, s')"
  shows "itti_ok s'" "p \<noteq> NULL" "p \<notin> queued s'" "heap s' = heap s"
    "pending t s = heap_view (heap s) p # pending t s'"
    "u \<noteq> t \<Longrightarrow> pending u s' = pending u s" "is_msg (heap s) p"
    "length (message_queue (tasks s t)) = Suc (length (message_queue (tasks s' t)))"
    "sem_counter (tasks s' u) = sem_counter (tasks s u)"
    "u \<noteq> t \<Longrightarrow> tasks s' u = tasks s u"
proof -
  let ?f = "\<lambda>l. l\<lparr>message_queue := butlast (message_queue l)\<rparr>"
  from assms(2) have ne: "message_queue (tasks s t) \<noteq> []" and p: "p = last (message_queue (tasks s t))"
    and s': "s' = upd_task t ?f s" by (auto simp: pop_message_def split: if_splits)
  obtain q where q: "message_queue (tasks s t) = q @ [p]" using ne p append_butlast_last_id by metis
  have pin: "p \<in> set (message_queue (tasks s t))" by (simp add: q)
  show "pending t s = heap_view (heap s) p # pending t s'" by (simp add: pending_def s' q)
  show m: "is_msg (heap s) p" by (rule itti_okD(2) [OF assms(1) pin])
  show "p \<noteq> NULL" using m itti_okD(7) [OF assms(1)] by (auto simp: is_msg_def)
  have sub: "set (message_queue (tasks s' u)) \<subseteq> set (message_queue (tasks s u))" for u
    by (auto simp: s' dest: in_set_butlastD)
  have d: "distinct (message_queue (tasks s' u))" for u
    using itti_okD(6) [OF assms(1)] by (simp add: s' distinct_butlast)
  have "set (message_queue (tasks s' u)) \<inter> set (message_queue (tasks s' v)) = {}" if "u \<noteq> v" for u v
    using assms(1) that sub [of u] sub [of v] unfolding itti_ok_def by blast
  moreover have "queued s' \<subseteq> queued s" using sub unfolding queued_def by blast
  ultimately show "itti_ok s'" using assms(1) d unfolding itti_ok_def by (auto simp: s')
  have "p \<notin> set (message_queue (tasks s' u))" for u
  proof (cases "u = t")
    case True
    then show ?thesis using itti_okD(6) [OF assms(1), of t] by (simp add: s' q)
  next
    case False
    then have "set (message_queue (tasks s t)) \<inter> set (message_queue (tasks s u)) = {}"
      using assms(1) unfolding itti_ok_def by metis
    then show ?thesis using False pin by (auto simp: s')
  qed
  then show "p \<notin> queued s'" by (simp add: queued_def)
qed (use assms(2) in \<open>auto simp: pop_message_def pending_def split: if_splits\<close>)

lemma init_task_good:
  assumes "itti_good s" and "init_task fds ti s = Inr s'"
  shows "itti_good s'"
proof -
  obtain t info where ti: "ti = (t, info)" by (cases ti)
  let ?s = "upd_task t (\<lambda>l. l\<lparr>sem_fd := fds t\<rparr>) s"
  have g: "itti_good ?s" using assms(1) by (rule upd_task_good) simp_all
  from assms(2) obtain s1 where s1: "itti_subscribe_event_fd t (fds t) ?s = Inr s1"
    and s': "s' = s1 \<or> s' = s1\<lparr>threads := threads s1 @ [t]\<rparr>"
    by (auto simp: init_task_def ti rbind_Inr_conv itti_create_task_def split: if_splits)
  have "itti_good s1" using s1 upd_task_good [OF g, of _ t]
    by (auto simp: itti_subscribe_event_fd_def split: if_splits)
  with s' show ?thesis by (elim disjE) (simp_all add: itti_good_def itti_ok_def sem_ok_def queued_def)
qed

interpretation itti_start: keeps_err "init_task fds" itti_good for fds
  by unfold_locales (rule init_task_good)

lemma itti_empty_good: "itti_good itti_empty"
  by (simp add: itti_good_def itti_ok_def sem_ok_def itti_empty_def fresh_task_def queued_def)

lemma itti_init_good: "itti_init n fds itti_empty = Inr s \<Longrightarrow> itti_good s"
  unfolding itti_init_def by (rule itti_start.run_err_inv [OF itti_empty_good])

text \<open>The initialisation succeeds when the kernel hands out the descriptors.\<close>

lemma init_tasks_total:
  "(\<And>t. 0 \<le> fds t) \<Longrightarrow> distinct (map fst xs) \<Longrightarrow> \<forall>x\<in>set xs. \<not> threadFunc (snd x) \<Longrightarrow>
   \<forall>x\<in>set xs. epoll_fds (tasks s (fst x)) = [] \<Longrightarrow> \<exists>s'. rfold (init_task fds) xs s = Inr s'"
proof (induction xs arbitrary: s)
  case Nil
  then show ?case by simp
next
  case (Cons x xs)
  obtain t info where x: "x = (t, info)" by (cases x)
  from Cons.prems obtain s1 where s1: "init_task fds x s = Inr s1"
    "\<And>u. u \<noteq> t \<Longrightarrow> tasks s1 u = tasks s u"
    by (fastforce simp: init_task_def x itti_subscribe_event_fd_def not_less [symmetric])
  have "\<forall>y\<in>set xs. epoll_fds (tasks s1 (fst y)) = []"
    using Cons.prems(2,4) s1(2) by (fastforce simp: x)
  then show ?case using Cons.IH [OF Cons.prems(1)] Cons.prems(2,3) s1(1) by simp
qed

lemma distinct_tasks: "distinct (map fst tasks_info)"
  by (simp add: tasks_info_def task_def_def)

lemma itti_init_total:
  assumes "\<And>t. 0 \<le> fds t"
  shows "\<exists>s. itti_init n fds itti_empty = Inr s"
  unfolding itti_init_def
proof (rule init_tasks_total [OF assms])
  show "distinct (map fst (take n tasks_info))"
    using distinct_tasks by (simp add: take_map [symmetric] distinct_take)
  show "\<forall>x\<in>set (take n tasks_info). \<not> threadFunc (snd x)"
    using no_inline_tasks by (blast dest: in_set_takeD)
qed (simp add: itti_empty_def fresh_task_def)

section \<open>Mirroring\<close>

text \<open>C7. Every message that any task sends is delivered to its destination, and a copy of it to
  the ICM task, except for \<^verbatim>\<open>RRC_SUBFRAME_PROCESS\<close>: after any sequence of sends each queue holds,
  behind what it held before, the messages addressed to it in the order they were sent, and
  the queue of the ICM task in addition the copies, each right behind the original if that was
  addressed to the ICM task itself. No send fails.\<close>

theorem itti_mirror:
  assumes "itti_ok s" and "\<forall>x\<in>set xs. fst x \<noteq> TASK_MAX"
  shows "\<exists>s'. rfold (send_new hdr msize junk) xs s = Inr s' \<and> itti_ok s' \<and>
    (\<forall>t. pending t s' = pending t s @ concat (map (\<lambda>(d, i, m).
       (if t = d then [msg_view m] else []) @
       (if t = TASK_ICM \<and> ITTI_MSG_ID m \<noteq> RRC_SUBFRAME_PROCESS then [msg_view m] else [])) xs))"
  using assms
proof (induction xs arbitrary: s)
  case Nil
  then show ?case by simp
next
  case (Cons x xs)
  obtain d i m where x: "x = (d, i, m)" by (cases x)
  from Cons.prems x obtain s1 where s1: "send_new hdr msize junk x s = Inr s1" "itti_ok s1"
    "\<And>t. pending t s1 = pending t s @ (if t = d then [msg_view m] else []) @
       (if t = TASK_ICM \<and> ITTI_MSG_ID m \<noteq> RRC_SUBFRAME_PROCESS then [msg_view m] else [])"
    using send_new_ok [of s d hdr msize junk i m] by auto
  have "\<forall>x\<in>set xs. fst x \<noteq> TASK_MAX" using Cons.prems(2) by simp
  from Cons.IH [OF s1(2) this] s1(1,3) show ?case by (auto simp: x)
qed

lemma itti_mirror_witness:
  "\<exists>s'. rfold (send_new 36 (\<lambda>_. 8) (view_msg (MESSAGE_TEST, TASK_UNKNOWN, Msg_Empty)))
       [demo_send RRC_SUBFRAME_PROCESS (Other_Msg 1) TASK_RRC_ENB,
        demo_send S1AP_E_RAB_SETUP_RESP (E_Rab_Setup_Resp []) TASK_S1AP] itti_empty = Inr s' \<and>
     pending TASK_ICM s' = [(S1AP_E_RAB_SETUP_RESP, TASK_RRC_ENB, E_Rab_Setup_Resp [])] \<and>
     pending TASK_S1AP s' = [(S1AP_E_RAB_SETUP_RESP, TASK_RRC_ENB, E_Rab_Setup_Resp [])]"
proof -
  let ?xs = "[demo_send RRC_SUBFRAME_PROCESS (Other_Msg 1) TASK_RRC_ENB,
        demo_send S1AP_E_RAB_SETUP_RESP (E_Rab_Setup_Resp []) TASK_S1AP]"
  have "itti_ok itti_empty" using itti_empty_good by (simp add: itti_good_def)
  moreover have "\<forall>x\<in>set ?xs. fst x \<noteq> TASK_MAX" by (simp add: demo_send_def)
  moreover have "pending t itti_empty = []" for t
    by (simp add: pending_def itti_empty_def fresh_task_def)
  ultimately show ?thesis
    using itti_mirror [of itti_empty ?xs 36 "\<lambda>_. 8" "view_msg (MESSAGE_TEST, TASK_UNKNOWN, Msg_Empty)"]
    by (auto simp: demo_send_def view_msg_def msg_view_def)
qed

section \<open>Interfaces\<close>

lemma enq_msg_ok:
  assumes "itti_ok s" and "t \<noteq> TASK_MAX"
  shows "itti_ok (enq_msg t m s)" "pending t (enq_msg t m s) = pending t s @ [msg_view m]"
proof -
  obtain p s1 where p: "itti_malloc (Msg m) s = (p, s1)" by (cases "itti_malloc (Msg m) s")
  note m = itti_malloc_ok [OF assms(1) p]
  have h: "heap s1 p = Some (Msg m)" by (simp add: m)
  obtain s' where "itti_send_msg_to_task_locked t 0 p s1 = Inr s'" "itti_ok s'"
    "pending t s' = pending t s1 @ [msg_view m]"
    using send_locked_ok [OF m(1) h m(3) assms(2), of 0] by auto
  then show "itti_ok (enq_msg t m s)" "pending t (enq_msg t m s) = pending t s @ [msg_view m]"
    by (simp_all add: enq_msg_def p m)
qed

text \<open>The queue of a task is a first-in first-out queue.\<close>

interpretation icmq: fifo "enq_msg TASK_ICM \<circ> view_msg" "deq_msg TASK_ICM" "pending TASK_ICM" itti_ok
proof
  fix s x assume ok: "itti_ok s"
  have icm: "TASK_ICM \<noteq> TASK_MAX" by simp
  show "itti_ok ((enq_msg TASK_ICM \<circ> view_msg) x s)"
    using enq_msg_ok(1) [OF ok icm] by simp
  show "pending TASK_ICM ((enq_msg TASK_ICM \<circ> view_msg) x s) = pending TASK_ICM s @ [x]"
    using enq_msg_ok(2) [OF ok icm] by (cases x) (simp add: msg_view_def view_msg_def)
  show "pending TASK_ICM s = [] \<Longrightarrow> deq_msg TASK_ICM s = None"
    by (simp add: pending_def deq_msg_def pop_message_def)
  fix xs assume c: "pending TASK_ICM s = x # xs"
  then obtain p s' where p: "pop_message TASK_ICM s = Some (p, s')"
    by (auto simp: pop_message_def pending_def)
  show "\<exists>s'. deq_msg TASK_ICM s = Some (x, s') \<and> pending TASK_ICM s' = xs \<and> itti_ok s'"
    using pop_message_ok(1,5) [OF ok p] c by (auto simp: deq_msg_def p)
qed

section \<open>Memory\<close>

text \<open>The copy of a message for the ICM task is allocated before the code looks at the message
  id. For \<^verbatim>\<open>RRC_SUBFRAME_PROCESS\<close>, which is sent every subframe, it is neither queued nor freed:
  after the send there is an allocated block that no queue refers to, besides the message itself
  in the queue of its destination. The memory that is lost grows with every such send.\<close>

theorem subframe_copy_leaks:
  assumes "itti_ok s" and "d \<noteq> TASK_MAX" and "ITTI_MSG_ID m = RRC_SUBFRAME_PROCESS"
  shows "\<exists>s' c. send_new hdr msize junk (d, i, m) s = Inr s' \<and> heap s c = None \<and>
     heap s' c = Some (Msg m) \<and> c \<notin> queued s' \<and>
     pending d s' = pending d s @ [msg_view m] \<and>
     (\<forall>t. t \<noteq> d \<longrightarrow> pending t s' = pending t s)"
proof -
  have "heap s (Suc (brk s)) = None" using itti_okD(5) [OF assms(1)] by simp
  then show ?thesis using send_new_ok [OF assms(1,2), of hdr msize junk i m] assms(3) by auto
qed

lemma subframe_copy_leaks_witness:
  "\<exists>s' c. send_new 36 (\<lambda>_. 8) (view_msg (MESSAGE_TEST, TASK_UNKNOWN, Msg_Empty))
      (TASK_RRC_ENB, 0, view_msg (RRC_SUBFRAME_PROCESS, TASK_MAC_ENB, Other_Msg 1)) itti_empty = Inr s' \<and>
    heap itti_empty c = None \<and>
    heap s' c = Some (Msg (view_msg (RRC_SUBFRAME_PROCESS, TASK_MAC_ENB, Other_Msg 1))) \<and> c \<notin> queued s' \<and>
    pending TASK_RRC_ENB s' = pending TASK_RRC_ENB itti_empty @
      [msg_view (view_msg (RRC_SUBFRAME_PROCESS, TASK_MAC_ENB, Other_Msg 1))] \<and>
    (\<forall>t. t \<noteq> TASK_RRC_ENB \<longrightarrow> pending t s' = pending t itti_empty)"
  by (rule subframe_copy_leaks) (use itti_empty_good in \<open>simp_all add: itti_good_def view_msg_def\<close>)

section \<open>Timers\<close>

lemma timer_id_task: "mk_timer_id r t AND 65535 = task_num t"
proof -
  have "task_num t < 65536" using task_num_bound [of t] task_num_max by (cases "t = TASK_MAX") simp_all
  moreover have "mk_timer_id r t AND 65535 = take_bit 16 (mk_timer_id r t)"
    using take_bit_eq_mask [of 16 "mk_timer_id r t"] by (simp add: mask_eq_exp_minus_1)
  ultimately show ?thesis
    by (simp add: mk_timer_id_def take_bit_or take_bit_push_bit take_bit_nat_eq_self)
qed

lemma draw_timer_id_fresh:
  "draw_timer_id rs t l = Some k \<Longrightarrow> timer_find k l = None \<and> k AND 65535 = task_num t"
  by (induction rs) (auto split: if_splits simp: timer_id_task)

lemma map_of_insort:
  "map_of (insort_key fst (k, v) (filter (\<lambda>x. fst x \<noteq> k) xs)) k' = (if k' = k then Some v else map_of xs k')"
proof -
  have ins: "k \<notin> fst ` set ys \<Longrightarrow> map_of (insort_key fst (k, v) ys) k' = (if k' = k then Some v else map_of ys k')"
    for ys
    by (induction ys) auto
  have "map_of (filter (\<lambda>x. fst x \<noteq> k) xs) k' = map_of xs k'" if "k' \<noteq> k"
    using that by (induction xs) auto
  then show ?thesis by (subst ins) auto
qed

text \<open>C21. A timer that was set up can be removed by its id alone: the id carries the number of the
  task in its low 16 bits. The id is new, the timer is found under it, removing it succeeds, and
  a second removal reports that there is no such timer. Only the task the timer was set for is
  affected.\<close>

theorem timer_setup_remove:
  assumes "timer_setup sec us t inst ty a rs now s = Some (k, s1)" and "t \<noteq> TASK_MAX"
  shows "timer_find k (tasks s t) = None \<and>
    (\<exists>e. timer_find k (tasks s1 t) = Some e \<and> ttype e = ty \<and> timer_arg e = a \<and>
         timeout e = now + ucast (timer_duration sec us)) \<and>
    (\<exists>s2. timer_remove k s1 = Inr (0, s2) \<and> timer_find k (tasks s2 t) = None \<and>
       (\<forall>k'. k' \<noteq> k \<longrightarrow> timer_find k' (tasks s2 t) = timer_find k' (tasks s t)) \<and>
       (\<forall>u. u \<noteq> t \<longrightarrow> tasks s2 u = tasks s u) \<and> timer_remove k s2 = Inr (1, s2))"
proof -
  obtain d where d: "draw_timer_id rs t (tasks s t) = Some k"
    and s1: "s1 = upd_task t (\<lambda>l. (lower_next (now + ucast (timer_duration sec us)) (timer_put k d l))
                 \<lparr>sem_counter := sem_counter l + 1\<rparr>) s"
    and dd: "ttype d = ty" "timer_arg d = a" "timeout d = now + ucast (timer_duration sec us)"
    using assms(1) by (auto simp: timer_setup_def Let_def split: option.splits)
  note f = draw_timer_id_fresh [OF d]
  have find1: "timer_find k' (tasks s1 t) = (if k' = k then Some d else timer_find k' (tasks s t))" for k'
    by (simp add: s1 timer_find_def timer_put_def map_of_insort)
  let ?s2 = "upd_task t (\<lambda>l. l\<lparr>timer_map := filter (\<lambda>x. fst x \<noteq> k) (timer_map l)\<rparr>) s1"
  have n: "\<not> task_num TASK_MAX \<le> task_num t" using task_num_bound [OF assms(2)] by simp
  have r: "timer_remove k s1 = Inr (0, ?s2)"
    using f n by (simp add: timer_remove_def find1 [of k])
  have flt: "map_of (filter (\<lambda>x. fst x \<noteq> k) xs) k' = (if k' = k then None else map_of xs k')"
    for xs :: "(nat \<times> timer_elm) list" and k'
    by (induction xs) auto
  have find2: "timer_find k' (tasks ?s2 t) = (if k' = k then None else timer_find k' (tasks s t))" for k'
    using find1 [of k'] by (simp add: timer_find_def flt)
  have "upd_task t (\<lambda>l. l\<lparr>timer_map := filter (\<lambda>x. fst x \<noteq> k) (timer_map l)\<rparr>) ?s2 = ?s2"
    by (simp add: upd_task_def)
  then have r2: "timer_remove k ?s2 = Inr (1, ?s2)"
    using f n find2 [of k] by (simp add: timer_remove_def del: tasks_upd_task)
  have other: "tasks ?s2 u = tasks s u" if "u \<noteq> t" for u using that by (simp add: s1)
  have "\<exists>s2. timer_remove k s1 = Inr (0, s2) \<and> timer_find k (tasks s2 t) = None \<and>
       (\<forall>k'. k' \<noteq> k \<longrightarrow> timer_find k' (tasks s2 t) = timer_find k' (tasks s t)) \<and>
       (\<forall>u. u \<noteq> t \<longrightarrow> tasks s2 u = tasks s u) \<and> timer_remove k s2 = Inr (1, s2)"
    using r find2 other r2 by (intro exI [of _ ?s2]) presburger
  then show ?thesis using f find1 [of k] dd by simp
qed

lemma timer_setup_remove_witness:
  "\<exists>k s1. timer_setup 1 0 TASK_ICM 0 TIMER_PERIODIC NULL [7] 100 itti_empty = Some (k, s1) \<and>
     (\<exists>s2. timer_remove k s1 = Inr (0, s2) \<and> timer_remove k s2 = Inr (1, s2))"
proof -
  obtain k s1 where t: "timer_setup 1 0 TASK_ICM 0 TIMER_PERIODIC NULL [7] 100 itti_empty = Some (k, s1)"
    by (simp add: timer_setup_def timer_find_def itti_empty_def fresh_task_def Let_def)
  then show ?thesis using timer_setup_remove [OF t] by auto
qed

text \<open>Timers that expire: the loop over the timers of a task succeeds exactly when every timer that
  has expired is periodic. Otherwise an expired timer is erased from the map and the iterator
  to the erased element is then incremented.\<close>

theorem expired_one_shot_timer:
  assumes "itti_ok s" and "t \<noteq> TASK_MAX" and "next_timer (tasks s t) < now"
  shows "(\<exists>s'. expire_timers hdr msize junk t now s = Inr s') \<longleftrightarrow>
    (\<forall>(k, e)\<in>set (timer_map (tasks s t)). timeout e < now \<longrightarrow> ttype e = TIMER_PERIODIC)"
proof -
  have loop: "(\<exists>s'. expire_loop hdr msize junk t now es s = Inr s') \<longleftrightarrow>
      (\<forall>(k, e)\<in>set es. timeout e < now \<longrightarrow> ttype e = TIMER_PERIODIC)" if "itti_ok s" for es s
    using that
  proof (induction es arbitrary: s)
    case Nil
    then show ?case by simp
  next
    case (Cons x es)
    obtain k e where x: "x = (k, e)" by (cases x)
    obtain p s1 where p: "itti_alloc_new_message hdr msize TASK_TIMER TIMER_HAS_EXPIRED junk s = (p, s1)"
      by (cases "itti_alloc_new_message hdr msize TASK_TIMER TIMER_HAS_EXPIRED junk s")
    let ?s1 = "set_payload p (Timer_Has_Expired k (timer_arg e)) s1"
    obtain m where m: "itti_malloc (Msg m) s = (p, ?s1)" using alloc_payload [OF p] by blast
    note a = itti_malloc_ok [OF Cons.prems m]
    have h: "heap ?s1 p = Some (Msg m)" using a(6) by simp
    obtain s3 where s3: "itti_send_msg_to_task_locked t (tinstance e) p ?s1 = Inr s3" "itti_ok s3"
      using send_locked_ok [OF a(1) h a(3) assms(2)] by blast
    have "itti_ok (upd_task t (rearm k e) s3)" using s3(2) by (simp add: upd_task_ok)
    note ih = Cons.IH [OF this]
    have "itti_ok (upd_task t (lower_next (timeout e)) s)" using Cons.prems by (simp add: upd_task_ok)
    note ih2 = Cons.IH [OF this]
    show ?case using ih ih2 s3(1) by (cases "ttype e") (simp_all add: x p)
  qed
  have "next_timer (tasks s t) \<noteq> UINT64_MAX"
    using assms(3) word_order.extremum_strict [of now] by (auto simp: UINT64_MAX_def)
  moreover have "itti_ok (upd_task t (\<lambda>l. l\<lparr>next_timer := UINT64_MAX\<rparr>) s)"
    using assms(1) by (simp add: upd_task_ok)
  ultimately show ?thesis using assms(3) loop by (simp add: expire_timers_def)
qed

lemma expired_one_shot_timer_witness:
  "(\<exists>s'. expire_timers 36 (\<lambda>_. 8) (view_msg (MESSAGE_TEST, TASK_UNKNOWN, Msg_Empty)) TASK_ICM 20
      (demo_timer TIMER_PERIODIC) = Inr s') \<and>
   \<not> (\<exists>s'. expire_timers 36 (\<lambda>_. 8) (view_msg (MESSAGE_TEST, TASK_UNKNOWN, Msg_Empty)) TASK_ICM 20
      (demo_timer TIMER_ONE_SHOT) = Inr s')"
proof -
  have ok: "itti_ok (demo_timer ty)" for ty
    using itti_empty_good by (simp add: demo_timer_def upd_task_ok itti_good_def)
  have n: "next_timer (tasks (demo_timer ty) TASK_ICM) < 20" for ty by (simp add: demo_timer_def)
  show ?thesis
    using expired_one_shot_timer [OF ok [of TIMER_PERIODIC] _ n] expired_one_shot_timer [OF ok [of TIMER_ONE_SHOT] _ n]
    by (simp add: demo_timer_def)
qed

end
