(* ===== verification/Itti_Wake.thy ===== *)
theory Itti_Wake
  imports Itti
begin

text \<open>
  The interleaving of the tasks of the eNB on the queues of ITTI: which parts of the functions of
  \<^verbatim>\<open>intertask_interface.cpp\<close> run under one lock, in which states a task can be, and that no message is left behind by a
  task that sleeps.

  \<^item> A send is two steps: the message is queued under the lock of its destination, then its copy under the lock of
    the ICM queue. In between the copy is in flight (\<open>flight\<close>).
  \<^item> \<^verbatim>\<open>itti_receive_msg\<close> is up to three steps: up to the wait, the return of \<^verbatim>\<open>epoll_wait\<close> with the read of the event
    descriptor, for which the mutex is not locked, and the part after it is locked again.
  \<^item> \<^verbatim>\<open>itti_get_events\<close> waits in the same way and reads the event descriptor, but takes no message. It is called by a task that
    has called \<^verbatim>\<open>itti_receive_msg\<close> since its last call of \<^verbatim>\<open>itti_get_events\<close> (\<open>polled\<close>); this is the loop of the one caller,
    \<^verbatim>\<open>udp_eNB_task\<close>. A task that called it twice in a row would read two events for one message.
  \<^item> Between its calls a task allocates, fills and frees messages that are neither queued nor in flight, sends them,
    and sets and removes timers.
\<close>

section \<open>States\<close>

datatype wait = Runs | In_Receive | Woken | In_Events

record sched =
  core :: itti
  waits :: "task_id \<Rightarrow> wait"
  polled :: "task_id \<Rightarrow> bool"
  flight :: "(int \<times> ptr) list"

definition sched_init :: "itti \<Rightarrow> sched" where
  "sched_init s = \<lparr>core = s, waits = (\<lambda>_. Runs), polled = (\<lambda>_. False), flight = []\<rparr>"

definition in_flight :: "sched \<Rightarrow> ptr set" where
  "in_flight c = snd ` set (flight c)"

section \<open>Steps\<close>

text \<open>The first part of a send, up to the unlock of the destination, and the copy that is left to be queued.\<close>

definition send_front ::
  "u32 \<Rightarrow> (MessagesIds \<Rightarrow> u32) \<Rightarrow> MessageDef \<Rightarrow> task_id \<Rightarrow> int \<Rightarrow> ptr \<Rightarrow> itti \<Rightarrow> (ptr option \<times> itti) result" where
  "send_front hdr msize junk dest inst p s =
     rbind (get_msg p s) (\<lambda>m.
       let (c, s1) = itti_alloc_new_message hdr msize TASK_ICM (ITTI_MSG_ID m) junk s;
           s2 = s1\<lparr>heap := (heap s1)(c \<mapsto> Msg \<lparr>ittiMsgHeader = ittiMsgHeader m, ittiMsg = ittiMsg m\<rparr>)\<rparr>
       in rbind (itti_send_msg_to_task_locked dest inst p s2) (\<lambda>s3.
            Inr (if ITTI_MSG_ID m \<noteq> RRC_SUBFRAME_PROCESS then Some c else None, s3)))"

definition recv_result :: "task_id \<Rightarrow> sched \<Rightarrow> recv_res \<Rightarrow> sched" where
  "recv_result t c r = (case r of
     Got p s \<Rightarrow> c\<lparr>core := s, waits := (waits c)(t := Runs), polled := (polled c)(t := True)\<rparr>
   | Waits s \<Rightarrow> c\<lparr>core := s, waits := (waits c)(t := In_Receive), polled := (polled c)(t := True)\<rparr>)"

text \<open>The event descriptor is reported only if its counter is not zero.\<close>

definition readable :: "task_id \<Rightarrow> int list \<Rightarrow> itti \<Rightarrow> bool" where
  "readable t evs s \<longleftrightarrow> (sem_fd (tasks s t) \<in> set evs \<longrightarrow> 0 < sem_counter (tasks s t))"

inductive itti_step :: "u32 \<Rightarrow> (MessagesIds \<Rightarrow> u32) \<Rightarrow> sched \<Rightarrow> sched \<Rightarrow> bool"
  for hdr msize where
  alloc: "itti_malloc b (core c) = (p, s) \<Longrightarrow> itti_step hdr msize c (c\<lparr>core := s\<rparr>)"
| fill: "p \<notin> queued (core c) \<Longrightarrow> p \<notin> in_flight c \<Longrightarrow> itti_step hdr msize c (c\<lparr>core := set_payload p x (core c)\<rparr>)"
| release: "p \<notin> queued (core c) \<Longrightarrow> p \<notin> in_flight c \<Longrightarrow> itti_free p (core c) = Inr s \<Longrightarrow>
     itti_step hdr msize c (c\<lparr>core := s\<rparr>)"
| post: "p \<notin> queued (core c) \<Longrightarrow> p \<notin> in_flight c \<Longrightarrow> send_front hdr msize junk d i p (core c) = Inr (k, s) \<Longrightarrow>
     itti_step hdr msize c (c\<lparr>core := s, flight := flight c @ (case k of None \<Rightarrow> [] | Some q \<Rightarrow> [(i, q)])\<rparr>)"
| copy: "(i, q) \<in> set (flight c) \<Longrightarrow> itti_send_msg_to_task_locked TASK_ICM i q (core c) = Inr s \<Longrightarrow>
     itti_step hdr msize c (c\<lparr>core := s, flight := remove1 (i, q) (flight c)\<rparr>)"
| set_timer: "timer_setup sec us t inst ty a rs now (core c) = Some (k, s) \<Longrightarrow>
     itti_step hdr msize c (c\<lparr>core := s\<rparr>)"
| stop_timer: "timer_remove k (core c) = Inr (r, s) \<Longrightarrow> itti_step hdr msize c (c\<lparr>core := s\<rparr>)"
| poll: "waits c t = Runs \<Longrightarrow> itti_poll_msg t (core c) = (p, s) \<Longrightarrow> itti_step hdr msize c (c\<lparr>core := s\<rparr>)"
| receive: "waits c t = Runs \<Longrightarrow> itti_receive_msg hdr msize junk t now (core c) = Inr r \<Longrightarrow>
     itti_step hdr msize c (recv_result t c r)"
| again: "waits c t = In_Receive \<Longrightarrow> recv_wait hdr msize junk t now (core c) = Inr r \<Longrightarrow>
     itti_step hdr msize c (recv_result t c r)"
| wake: "waits c t = In_Receive \<Longrightarrow> readable t evs (core c) \<Longrightarrow>
     itti_step hdr msize c (c\<lparr>core := upd_task t (consume_sem evs) (core c), waits := (waits c)(t := Woken)\<rparr>)"
| taken: "waits c t = Woken \<Longrightarrow> itti_receive_take hdr msize junk t now (core c) = Inr r \<Longrightarrow>
     itti_step hdr msize c (recv_result t c r)"
| events: "waits c t = Runs \<Longrightarrow> polled c t \<Longrightarrow> expire_timers hdr msize junk t now (core c) = Inr s \<Longrightarrow>
     itti_step hdr msize c (c\<lparr>core := s, waits := (waits c)(t := In_Events)\<rparr>)"
| events_again: "waits c t = In_Events \<Longrightarrow> expire_timers hdr msize junk t now (core c) = Inr s \<Longrightarrow>
     itti_step hdr msize c (c\<lparr>core := s\<rparr>)"
| events_wake: "waits c t = In_Events \<Longrightarrow> readable t evs (core c) \<Longrightarrow> itti_get_events_wake t evs (core c) = (evs', s) \<Longrightarrow>
     itti_step hdr msize c (c\<lparr>core := s, waits := (waits c)(t := Runs), polled := (polled c)(t := False)\<rparr>)"

section \<open>Invariant\<close>

text \<open>By how many events the counter of a task may be behind its queue: one after an event was read and before the message
  it stands for was taken.\<close>

definition slack :: "sched \<Rightarrow> task_id \<Rightarrow> nat" where
  "slack c t = (if waits c t = Woken \<or> waits c t = Runs \<and> \<not> polled c t then 1 else 0)"

definition fits :: "nat \<Rightarrow> task_list \<Rightarrow> bool" where
  "fits n l \<longleftrightarrow> length (message_queue l) \<le> sem_counter l + n"

definition wake_inv :: "sched \<Rightarrow> bool" where
  "wake_inv c \<longleftrightarrow> itti_ok (core c) \<and> distinct (map snd (flight c)) \<and>
     (\<forall>p\<in>in_flight c. is_msg (heap (core c)) p \<and> p \<notin> queued (core c)) \<and>
     (\<forall>t. fits (slack c t) (tasks (core c) t))"

text \<open>What a step may do that neither takes a message nor queues one that existed before.\<close>

definition grows :: "itti \<Rightarrow> itti \<Rightarrow> bool" where
  "grows s s' \<longleftrightarrow> itti_ok s' \<and> (\<forall>p. is_msg (heap s) p \<longrightarrow> is_msg (heap s') p \<and> (p \<notin> queued s \<longrightarrow> p \<notin> queued s')) \<and>
     (\<forall>t n. fits n (tasks s t) \<longrightarrow> fits n (tasks s' t))"

definition demo_junk :: MessageDef where
  "demo_junk = view_msg (MESSAGE_TEST, TASK_UNKNOWN, Msg_Empty)"

section \<open>Lemmas\<close>

text \<open>A send that is not interrupted is \<^verbatim>\<open>itti_send_msg_to_task\<close>.\<close>

lemma send_parts:
  "itti_send_msg_to_task hdr msize junk dest inst p s =
     rbind (send_front hdr msize junk dest inst p s) (\<lambda>(k, s3).
       case k of None \<Rightarrow> Inr s3 | Some c \<Rightarrow> itti_send_msg_to_task_locked TASK_ICM inst c s3)"
proof (cases "get_msg p s")
  case (Inr m)
  obtain c s1 where c: "itti_alloc_new_message hdr msize TASK_ICM (ITTI_MSG_ID m) junk s = (c, s1)" by fastforce
  show ?thesis
    by (cases "itti_send_msg_to_task_locked dest inst p
          (s1\<lparr>heap := (heap s1)(c \<mapsto> Msg \<lparr>ittiMsgHeader = ittiMsgHeader m, ittiMsg = ittiMsg m\<rparr>)\<rparr>)")
      (simp_all add: itti_send_msg_to_task_def send_front_def Inr c)
qed (simp add: itti_send_msg_to_task_def send_front_def)

lemma growsI:
  assumes "itti_ok s'" and "\<And>p. is_msg (heap s) p \<Longrightarrow> is_msg (heap s') p"
    and "\<And>p t. is_msg (heap s) p \<Longrightarrow> p \<in> set (message_queue (tasks s' t)) \<Longrightarrow> p \<in> queued s"
    and "\<And>t. length (message_queue (tasks s' t)) + sem_counter (tasks s t) \<le> length (message_queue (tasks s t)) + sem_counter (tasks s' t)"
  shows "grows s s'"
proof -
  have "fits n (tasks s' t)" if "fits n (tasks s t)" for t n using assms(4) [of t] that by (simp add: fits_def)
  moreover have "p \<notin> queued s'" if "is_msg (heap s) p" "p \<notin> queued s" for p using assms(3) that by (auto simp: queued_def)
  ultimately show ?thesis using assms(1,2) by (simp add: grows_def)
qed

lemma grows_trans: "grows s s1 \<Longrightarrow> grows s1 s2 \<Longrightarrow> grows s s2"
  by (simp add: grows_def)

lemma grows_refl: "itti_ok s \<Longrightarrow> grows s s"
  by (simp add: grows_def)

lemma grows_upd:
  assumes "itti_ok s" and "message_queue (f (tasks s t)) = message_queue (tasks s t)"
    and "sem_counter (tasks s t) \<le> sem_counter (f (tasks s t))"
  shows "grows s (upd_task t f s)"
  using assms upd_task_ok(1) [of f s t] by (intro growsI) (auto simp: queued_def split: if_splits)

lemma grows_malloc:
  assumes "itti_ok s" and "itti_malloc b s = (p, s')"
  shows "grows s s'"
  using itti_malloc_ok [OF assms] itti_okD(1) [OF assms(1)]
  by (intro growsI) (auto simp: is_msg_def queued_def)

text \<open>A new message that is queued at once.\<close>

lemma grows_send_fresh:
  assumes "itti_ok s" and "itti_malloc (Msg m) s = (p, s1)" and "itti_send_msg_to_task_locked t i p s1 = Inr s2"
  shows "grows s s2"
proof -
  note m = itti_malloc_ok [OF assms(1,2)]
  have t: "t \<noteq> TASK_MAX" using assms(3) by (auto simp: itti_send_msg_to_task_locked_def)
  have h: "heap s1 p = Some (Msg m)" by (simp add: m)
  have new: "\<not> is_msg (heap s) p" using m(2) itti_okD(1) [OF assms(1)] by (simp add: is_msg_def)
  have s2: "itti_ok s2" "message_queue (tasks s2 u) = (if u = t then [p] else []) @ message_queue (tasks s1 u)"
      "q \<noteq> p \<Longrightarrow> heap s2 q = heap s1 q" "sem_counter (tasks s2 u) = sem_counter (tasks s1 u) + (if u = t then 1 else 0)" for u q
    using send_locked_ok [OF m(1) h m(3) t, of i] assms(3) by auto
  show ?thesis
  proof (rule growsI [OF s2(1)])
    fix q assume q: "is_msg (heap s) q"
    then have "q \<noteq> p" using new by blast
    then show "is_msg (heap s2) q" using q s2(3) m(6) by (simp add: is_msg_def)
    show "q \<in> queued s" if "q \<in> set (message_queue (tasks s2 u))" for u
      using that s2(2) m(5) \<open>q \<noteq> p\<close> by (auto simp: queued_def split: if_splits)
  qed (use s2 m(5) in simp)
qed

lemma grows_expire_loop:
  "itti_ok s \<Longrightarrow> expire_loop hdr msize junk t now es s = Inr s' \<Longrightarrow> grows s s'"
proof (induction es arbitrary: s)
  case Nil
  then show ?case by (simp add: grows_refl)
next
  case (Cons e es)
  obtain k te where e: "e = (k, te)" by (cases e)
  show ?case
  proof (cases "timeout te < now")
    case True
    obtain p s1 where p: "itti_alloc_new_message hdr msize TASK_TIMER TIMER_HAS_EXPIRED junk s = (p, s1)"
      by (cases "itti_alloc_new_message hdr msize TASK_TIMER TIMER_HAS_EXPIRED junk s")
    let ?s1 = "set_payload p (Timer_Has_Expired k (timer_arg te)) s1"
    obtain m where m: "itti_malloc (Msg m) s = (p, ?s1)" using alloc_payload [OF p] by blast
    from Cons.prems(2) True obtain s3 where s3: "itti_send_msg_to_task_locked t (tinstance te) p ?s1 = Inr s3"
      and r: "expire_loop hdr msize junk t now es (upd_task t (rearm k te) s3) = Inr s'"
      by (cases "ttype te") (auto simp: e p rbind_Inr_conv)
    have g: "grows s s3" by (rule grows_send_fresh [OF Cons.prems(1) m s3])
    then have "grows s3 (upd_task t (rearm k te) s3)" by (intro grows_upd) (simp_all add: grows_def)
    with g have "grows s (upd_task t (rearm k te) s3)" by (rule grows_trans)
    moreover from this have "grows (upd_task t (rearm k te) s3) s'" using r by (intro Cons.IH) (simp_all add: grows_def)
    ultimately show ?thesis by (rule grows_trans)
  next
    case False
    have g: "grows s (upd_task t (lower_next (timeout te)) s)" using Cons.prems(1) by (intro grows_upd) simp_all
    moreover have "grows (upd_task t (lower_next (timeout te)) s) s'"
      using g Cons.prems(2) False by (intro Cons.IH) (simp_all add: e grows_def)
    ultimately show ?thesis by (rule grows_trans)
  qed
qed

lemma grows_expire:
  assumes "itti_ok s" and "expire_timers hdr msize junk t now s = Inr s'"
  shows "grows s s'"
proof -
  let ?s = "upd_task t (\<lambda>l. l\<lparr>next_timer := UINT64_MAX\<rparr>) s"
  have g: "grows s ?s" using assms(1) by (intro grows_upd) simp_all
  show ?thesis
  proof (cases "next_timer (tasks s t) \<noteq> UINT64_MAX \<and> next_timer (tasks s t) < now")
    case True
    then have "expire_loop hdr msize junk t now (timer_map (tasks s t)) ?s = Inr s'" using assms(2) by (simp add: expire_timers_def)
    moreover have "itti_ok ?s" using g by (simp add: grows_def)
    ultimately have "grows ?s s'" by (intro grows_expire_loop)
    with g show ?thesis by (rule grows_trans)
  next
    case False
    then show ?thesis using assms grows_refl by (auto simp: expire_timers_def Let_def)
  qed
qed

lemma timer_setup_grows:
  assumes "itti_ok s" and "timer_setup sec us t inst ty a rs now s = Some (k, s')"
  shows "grows s s'"
proof -
  obtain f where "s' = upd_task t f s" "message_queue (f (tasks s t)) = message_queue (tasks s t)"
      "sem_counter (f (tasks s t)) = sem_counter (tasks s t) + 1"
    using assms(2) by (fastforce simp: timer_setup_def Let_def split: option.splits)
  then show ?thesis using grows_upd [OF assms(1), of f t] by simp
qed

lemma timer_remove_grows:
  assumes "itti_ok s" and "timer_remove k s = Inr (r, s')"
  shows "grows s s'"
proof -
  obtain t f where "s' = upd_task t f s" "message_queue (f (tasks s t)) = message_queue (tasks s t)"
      "sem_counter (f (tasks s t)) = sem_counter (tasks s t)"
    using assms(2) by (fastforce simp: timer_remove_def Let_def split: if_splits)
  then show ?thesis using grows_upd [OF assms(1), of f t] by simp
qed

text \<open>Taking a message lowers the queue by one.\<close>

lemma pop_fits:
  assumes "itti_ok s" and "pop_message t s = Some (p, s')"
  shows "itti_ok s'" "heap s' = heap s" "queued s' \<subseteq> queued s" "fits (Suc n) (tasks s t) \<Longrightarrow> fits n (tasks s' t)"
    "u \<noteq> t \<Longrightarrow> tasks s' u = tasks s u"
proof -
  note m = pop_message_ok [OF assms]
  show "itti_ok s'" "heap s' = heap s" "u \<noteq> t \<Longrightarrow> tasks s' u = tasks s u" using m by blast+
  show "fits (Suc n) (tasks s t) \<Longrightarrow> fits n (tasks s' t)" using m(8) m(9) [of t] by (simp add: fits_def)
  have "set (message_queue (tasks s' u)) \<subseteq> set (message_queue (tasks s u))" for u
    using assms(2) by (auto simp: pop_message_def split: if_splits dest: in_set_butlastD)
  then show "queued s' \<subseteq> queued s" by (auto simp: queued_def)
qed

lemma fits_mono: "fits m l \<Longrightarrow> m \<le> n \<Longrightarrow> fits n l"
  by (simp add: fits_def)

lemma wake_invD:
  assumes "wake_inv c"
  shows "itti_ok (core c)" "distinct (map snd (flight c))" "p \<in> in_flight c \<Longrightarrow> is_msg (heap (core c)) p"
    "p \<in> in_flight c \<Longrightarrow> p \<notin> queued (core c)" "fits (slack c t) (tasks (core c) t)"
  using assms by (auto simp: wake_inv_def)

text \<open>A step that only adds keeps the invariant, if the task itself allows no more slack than before.\<close>

lemma wake_inv_grows:
  assumes "wake_inv c" and "grows (core c) s" and "core c' = s" and "flight c' = flight c"
    and "\<And>t. slack c t \<le> slack c' t \<or> fits (slack c' t) (tasks (core c) t)"
  shows "wake_inv c'"
proof -
  have "fits (slack c' t) (tasks (core c) t)" for t
    using assms(5) [of t] fits_mono [OF wake_invD(5) [OF assms(1)]] by blast
  moreover have "in_flight c' = in_flight c" using assms(4) by (simp add: in_flight_def)
  ultimately show ?thesis using assms(1-4) by (simp add: wake_inv_def grows_def)
qed

text \<open>So does one that takes a message.\<close>

lemma wake_inv_pop:
  assumes "wake_inv c" and "pop_message t (core c) = Some (p, s)" and "core c' = s" and "flight c' = flight c"
    and "\<And>u. u \<noteq> t \<Longrightarrow> slack c' u = slack c u" and "slack c t \<le> Suc (slack c' t)"
  shows "wake_inv c'"
proof -
  note pop = pop_fits [OF wake_invD(1) [OF assms(1)] assms(2)]
  have "fits (Suc (slack c' t)) (tasks (core c) t)" by (rule fits_mono [OF wake_invD(5) [OF assms(1)] assms(6)])
  then have "fits (slack c' u) (tasks s u)" for u
    using pop(4,5) wake_invD(5) [OF assms(1), of u] assms(5) [of u] by (cases "u = t") auto
  moreover have "in_flight c' = in_flight c" using assms(4) by (simp add: in_flight_def)
  ultimately show ?thesis using assms(3,4) pop(1-3) wake_invD(2-4) [OF assms(1)] unfolding wake_inv_def by auto
qed

lemma slack_upd:
  "slack (c\<lparr>core := s, waits := w, polled := v, flight := f\<rparr>) t = (if w t = Woken \<or> w t = Runs \<and> \<not> v t then 1 else 0)"
  by (simp add: slack_def)

lemma slack_le: "slack c t \<le> 1" by (simp add: slack_def)

text \<open>The three ways in which a call of \<^verbatim>\<open>itti_receive_msg\<close> goes on.\<close>

lemma wake_inv_waits:
  assumes "wake_inv c" and "message_queue (tasks (core c) t) = [] \<or> slack c t = 0"
    and "recv_wait hdr msize junk t now (core c) = Inr r"
  shows "wake_inv (recv_result t c r)"
proof -
  obtain s where s: "expire_timers hdr msize junk t now (core c) = Inr s" "r = Waits s"
    using assms(3) by (auto simp: recv_wait_def rbind_Inr_conv)
  have "fits 0 (tasks (core c) t)" using assms(2) wake_invD(5) [OF assms(1), of t] by (auto simp: fits_def)
  then show ?thesis
    by (intro wake_inv_grows [OF assms(1) grows_expire [OF wake_invD(1) [OF assms(1)] s(1)]])
      (auto simp: recv_result_def s(2) slack_def)
qed

lemma wake_inv_got:
  assumes "wake_inv c" and "pop_message t (core c) = Some (p, s)"
  shows "wake_inv (recv_result t c (Got p s))"
  by (rule wake_inv_pop [OF assms]) (auto simp: recv_result_def slack_def)

lemma wake_inv_none:
  assumes "wake_inv c" and "message_queue (tasks (core c) t) = []"
  shows "wake_inv (recv_result t c (Got p (core c)))"
  by (rule wake_inv_grows [OF assms(1) grows_refl [OF wake_invD(1) [OF assms(1)]]])
    (use assms(2) in \<open>auto simp: recv_result_def slack_def fits_def\<close>)

lemma pop_None: "pop_message t s = None \<longleftrightarrow> message_queue (tasks s t) = []"
  by (simp add: pop_message_def)

lemma wake_inv_receive:
  assumes "wake_inv c" and "itti_receive_msg hdr msize junk t now (core c) = Inr r"
  shows "wake_inv (recv_result t c r)"
  using assms wake_inv_got [OF assms(1)] wake_inv_waits [OF assms(1)]
  by (auto simp: itti_receive_msg_def pop_None split: option.splits)

lemma wake_inv_take:
  assumes "wake_inv c" and "itti_receive_take hdr msize junk t now (core c) = Inr r"
  shows "wake_inv (recv_result t c r)"
  using assms wake_inv_got [OF assms(1)] wake_inv_waits [OF assms(1)] wake_inv_none [OF assms(1)]
  by (auto simp: itti_receive_take_def pop_None split: option.splits if_splits)

text \<open>Reading the event descriptor.\<close>

lemma wake_inv_read:
  assumes "wake_inv c" and "slack c t = 0" and "core c' = upd_task t (consume_sem evs) (core c)" and "flight c' = flight c"
    and "\<And>u. u \<noteq> t \<Longrightarrow> slack c' u = slack c u" and "slack c' t = 1"
  shows "wake_inv c'"
proof -
  let ?s = "upd_task t (consume_sem evs) (core c)"
  have q: "message_queue (consume_sem evs (tasks (core c) t)) = message_queue (tasks (core c) t)" by simp
  have "fits 1 (tasks ?s t)" using wake_invD(5) [OF assms(1), of t] assms(2) by (auto simp: fits_def consume_sem_def)
  then have "fits (slack c' u) (tasks ?s u)" for u
    using wake_invD(5) [OF assms(1), of u] assms(5) [of u] assms(6) by (cases "u = t") auto
  moreover have "in_flight c' = in_flight c" using assms(4) by (simp add: in_flight_def)
  ultimately show ?thesis using assms(3,4) upd_task_ok(1,2) [of "consume_sem evs" "core c" t, OF q] wake_invD(1-4) [OF assms(1)]
    unfolding wake_inv_def by auto
qed

text \<open>Queueing a message that is neither queued nor in flight.\<close>

lemma send_locked_facts:
  assumes "itti_ok s" and "p \<notin> queued s" and "itti_send_msg_to_task_locked d i p s = Inr s'"
  shows "itti_ok s'" "queued s' = insert p (queued s)" "is_msg (heap s) q \<Longrightarrow> is_msg (heap s') q"
    "fits n (tasks s t) \<Longrightarrow> fits n (tasks s' t)"
proof -
  obtain m where h: "heap s p = Some (Msg m)" and d: "d \<noteq> TASK_MAX"
    using assms(3) by (auto simp: itti_send_msg_to_task_locked_def rbind_Inr_conv get_msg_Inr split: if_splits)
  have s': "itti_ok s'" "\<And>t. message_queue (tasks s' t) = (if t = d then [p] else []) @ message_queue (tasks s t)"
      "\<And>t. sem_counter (tasks s' t) = sem_counter (tasks s t) + (if t = d then 1 else 0)"
    using send_locked_ok [OF assms(1) h assms(2) d, of i] assms(3) by auto
  show "itti_ok s'" by (rule s'(1))
  show "queued s' = insert p (queued s)" using s'(2) by (auto simp: queued_def split: if_splits)
  show "fits n (tasks s t) \<Longrightarrow> fits n (tasks s' t)" using s'(2,3) by (auto simp: fits_def)
  show "is_msg (heap s) q \<Longrightarrow> is_msg (heap s') q" using assms(3)
    by (auto simp: itti_send_msg_to_task_locked_def rbind_Inr_conv is_msg_def Let_def split: if_splits)
qed

lemma send_front_Inr:
  assumes "send_front hdr msize junk d i p s = Inr (k, s')" and "itti_ok s"
  obtains m c s2 where "itti_malloc (Msg m) s = (c, s2)" "itti_send_msg_to_task_locked d i p s2 = Inr s'" "k = Some c \<or> k = None"
    "is_msg (heap s) p"
proof -
  obtain m where m: "heap s p = Some (Msg m)" using assms(1) by (auto simp: send_front_def rbind_Inr_conv get_msg_Inr)
  obtain c s1 where c: "itti_alloc_new_message hdr msize TASK_ICM (ITTI_MSG_ID m) junk s = (c, s1)" by fastforce
  let ?m = "\<lparr>ittiMsgHeader = ittiMsgHeader m, ittiMsg = ittiMsg m\<rparr>"
  let ?s2 = "s1\<lparr>heap := (heap s1)(c \<mapsto> Msg ?m)\<rparr>"
  have "itti_malloc (Msg ?m) s = (c, ?s2)"
    using c by (auto simp: itti_alloc_new_message_def itti_alloc_new_message_sized_def itti_malloc_def)
  moreover have "itti_send_msg_to_task_locked d i p ?s2 = Inr s'" "k = Some c \<or> k = None"
    using assms(1) m c by (auto simp: send_front_def rbind_Inr_conv get_msg_def split: if_splits)
  moreover have "is_msg (heap s) p" using m by (simp add: is_msg_def)
  ultimately show thesis by (rule that)
qed

lemma send_front_run:
  assumes "heap s p = Some (Msg m)" and "itti_malloc (Msg m) s = (c, s2)" and "itti_send_msg_to_task_locked d i p s2 = Inr s'"
  shows "send_front hdr msize junk d i p s = Inr (if ITTI_MSG_ID m \<noteq> RRC_SUBFRAME_PROCESS then Some c else None, s')"
proof -
  obtain k s1 where k: "itti_alloc_new_message hdr msize TASK_ICM (ITTI_MSG_ID m) junk s = (k, s1)" by fastforce
  have "itti_malloc (Msg m) s = (k, s1\<lparr>heap := (heap s1)(k \<mapsto> Msg m)\<rparr>)"
    using k by (auto simp: itti_alloc_new_message_def itti_alloc_new_message_sized_def itti_malloc_def)
  then have s2: "k = c" "s1\<lparr>heap := (heap s1)(c \<mapsto> Msg m)\<rparr> = s2" using assms(2) by simp_all
  have mm: "\<lparr>ittiMsgHeader = ittiMsgHeader m, ittiMsg = ittiMsg m\<rparr> = m" by (cases m) simp
  show ?thesis using assms(1,3) k s2 by (simp add: send_front_def get_msg_def mm)
qed

lemma wake_inv_post:
  assumes "wake_inv c" and "p \<notin> queued (core c)" and "p \<notin> in_flight c" and "send_front hdr msize junk d i p (core c) = Inr (k, s)"
  shows "wake_inv (c\<lparr>core := s, flight := flight c @ (case k of None \<Rightarrow> [] | Some q \<Rightarrow> [(i, q)])\<rparr>)"
proof -
  note ok = wake_invD(1) [OF assms(1)]
  obtain m q s2 where f: "itti_malloc (Msg m) (core c) = (q, s2)" "itti_send_msg_to_task_locked d i p s2 = Inr s" "k = Some q \<or> k = None"
      "is_msg (heap (core c)) p" by (rule send_front_Inr [OF assms(4) ok])
  note a = itti_malloc_ok [OF ok f(1)]
  have q: "\<not> is_msg (heap (core c)) q" "q \<notin> queued (core c)" using a(2,3,5) itti_okD(1) [OF ok] by (simp_all add: is_msg_def queued_def)
  have g: "grows (core c) s2" by (rule grows_malloc [OF ok f(1)])
  have qs: "queued s2 = queued (core c)" using a(5) by (simp add: queued_def)
  then have p: "p \<notin> queued s2" using assms(2) by simp
  note s = send_locked_facts [OF a(1) p f(2)]
  have pq: "p \<noteq> q" using f(4) q(1) by auto
  have "is_msg (heap s2) q" using a(6) by (simp add: is_msg_def)
  then have new: "is_msg (heap s) q" "q \<notin> queued s" using s(2,3) pq q(2) qs by auto
  have old: "is_msg (heap s) x" "x \<notin> queued s" "x \<noteq> q" if "x \<in> in_flight c" for x
  proof -
    have "is_msg (heap (core c)) x" by (rule wake_invD(3) [OF assms(1) that])
    then show "is_msg (heap s) x" "x \<noteq> q" using g s(3) q(1) by (auto simp: grows_def)
    show "x \<notin> queued s" using s(2) qs wake_invD(4) [OF assms(1) that] that assms(3) by auto
  qed
  have "fits (slack c t) (tasks s t)" for t using s(4) g wake_invD(5) [OF assms(1)] by (auto simp: grows_def)
  then have fit: "\<And>f t. fits (slack (c\<lparr>core := s, flight := f\<rparr>) t) (tasks s t)" by (simp add: slack_def)
  have nq: "q \<notin> snd ` set (flight c)" using old(3) by (auto simp: in_flight_def)
  have olds: "\<forall>x\<in>snd ` set (flight c). is_msg (heap s) x \<and> x \<notin> queued s" using old(1,2) by (simp add: in_flight_def)
  from f(3) show ?thesis
  proof
    assume "k = Some q"
    then show ?thesis using s(1) new olds nq fit wake_invD(2) [OF assms(1)] by (simp add: wake_inv_def in_flight_def)
  next
    assume "k = None"
    then show ?thesis using s(1) olds fit [of "flight c"] wake_invD(2) [OF assms(1)] by (simp add: wake_inv_def in_flight_def)
  qed
qed

lemma wake_inv_copy:
  assumes "wake_inv c" and "(i, q) \<in> set (flight c)" and "itti_send_msg_to_task_locked TASK_ICM i q (core c) = Inr s"
  shows "wake_inv (c\<lparr>core := s, flight := remove1 (i, q) (flight c)\<rparr>)"
proof -
  have qf: "q \<in> in_flight c" using assms(2) by (force simp: in_flight_def)
  note s = send_locked_facts [OF wake_invD(1) [OF assms(1)] wake_invD(4) [OF assms(1) qf] assms(3)]
  obtain xs ys where fl: "flight c = xs @ (i, q) # ys" "(i, q) \<notin> set xs" using split_list_first [OF assms(2)] by blast
  then have fl': "remove1 (i, q) (flight c) = xs @ ys" by (simp add: remove1_append)
  have d: "distinct (map snd (xs @ ys))" "q \<notin> snd ` set (xs @ ys)" using wake_invD(2) [OF assms(1)] fl(1) by auto
  have "is_msg (heap s) x" "x \<notin> queued s" if "x \<in> snd ` set (xs @ ys)" for x
  proof -
    have x: "x \<in> in_flight c" "x \<noteq> q" using that d(2) fl(1) by (auto simp: in_flight_def)
    then show "is_msg (heap s) x" using s(3) wake_invD(3) [OF assms(1)] by blast
    show "x \<notin> queued s" using s(2) x wake_invD(4) [OF assms(1) x(1)] by simp
  qed
  moreover have "fits (slack c t) (tasks s t)" for t using s(4) wake_invD(5) [OF assms(1)] by blast
  ultimately show ?thesis using s(1) d(1) unfolding wake_inv_def in_flight_def by (simp add: fl' slack_def)
qed

text \<open>Changes of a message that belongs to no queue.\<close>

lemma wake_inv_own:
  assumes "wake_inv c" and "p \<notin> queued (core c)" and "p \<notin> in_flight c" and "p < brk (core c)" and "p \<noteq> NULL"
    and "s = (core c)\<lparr>heap := (heap (core c))(p := b)\<rparr>"
  shows "wake_inv (c\<lparr>core := s\<rparr>)"
proof -
  have "queued s = queued (core c)" by (simp add: assms(6) queued_def)
  then show ?thesis using assms unfolding wake_inv_def itti_ok_def by (auto simp: is_msg_def in_flight_def slack_def image_iff)
qed

lemma set_payload_own:
  assumes "itti_ok s"
  obtains "set_payload p x s = s" | m where "p < brk s" "p \<noteq> NULL" "set_payload p x s = s\<lparr>heap := (heap s)(p \<mapsto> Msg m)\<rparr>"
proof (cases "\<exists>m. heap s p = Some (Msg m)")
  case True
  then obtain m where m: "heap s p = Some (Msg m)" by blast
  have "p \<noteq> NULL" using m itti_okD(7) [OF assms] by auto
  then show thesis using that(2) heap_below [OF assms m] m by (simp add: set_payload_def)
next
  case False
  then have "set_payload p x s = s" by (auto simp: set_payload_def split: option.splits block.splits)
  then show thesis by (rule that(1))
qed

lemma itti_step_inv: "itti_step hdr msize c c' \<Longrightarrow> wake_inv c \<Longrightarrow> wake_inv c'"
proof (induction rule: itti_step.induct)
  case (alloc b c p s)
  then show ?case by (intro wake_inv_grows [OF alloc.prems grows_malloc [OF wake_invD(1) [OF alloc.prems] alloc.hyps]]) (auto simp: slack_def)
next
  case (fill p c x)
  show ?case
    by (rule set_payload_own [OF wake_invD(1) [OF fill.prems], of p x])
      (use fill in \<open>auto intro: wake_inv_own [OF fill.prems fill.hyps]\<close>)
next
  case (release p c s)
  then have "p < brk (core c)" "p \<noteq> NULL" "s = (core c)\<lparr>heap := (heap (core c))(p := None)\<rparr>"
    using heap_below [OF wake_invD(1) [OF release.prems]] by (auto simp: itti_free_def split: if_splits)
  then show ?case by (rule wake_inv_own [OF release.prems release.hyps(1,2)])
next
  case (post p c junk d i k s)
  show ?case by (rule wake_inv_post [OF post.prems post.hyps])
next
  case (copy i q c s)
  show ?case by (rule wake_inv_copy [OF copy.prems copy.hyps])
next
  case (set_timer sec us t inst ty a rs now c k s)
  then show ?case
    by (intro wake_inv_grows [OF set_timer.prems timer_setup_grows [OF wake_invD(1) [OF set_timer.prems] set_timer.hyps]]) (simp_all add: slack_def)
next
  case (stop_timer k c r s)
  then show ?case
    by (intro wake_inv_grows [OF stop_timer.prems timer_remove_grows [OF wake_invD(1) [OF stop_timer.prems] stop_timer.hyps]]) (simp_all add: slack_def)
next
  case (poll c t p s)
  show ?case
  proof (cases "pop_message t (core c)")
    case None
    then have "s = core c" using poll.hyps(2) by (simp add: itti_poll_msg_def)
    then show ?thesis by (intro wake_inv_grows [OF poll.prems grows_refl [OF wake_invD(1) [OF poll.prems]]]) (simp_all add: slack_def)
  next
    case (Some a)
    then have "pop_message t (core c) = Some (p, s)" using poll.hyps(2) by (cases a) (simp add: itti_poll_msg_def)
    then show ?thesis by (rule wake_inv_pop [OF poll.prems]) (simp_all add: slack_def)
  qed
next
  case (receive c t junk now r)
  show ?case by (rule wake_inv_receive [OF receive.prems receive.hyps(2)])
next
  case (again c t junk now r)
  show ?case by (rule wake_inv_waits [OF again.prems _ again.hyps(2)]) (use again.hyps(1) in \<open>simp add: slack_def\<close>)
next
  case (wake c t evs)
  then show ?case by (intro wake_inv_read [OF wake.prems, of t _ evs]) (auto simp: slack_def)
next
  case (taken c t junk now r)
  show ?case by (rule wake_inv_take [OF taken.prems taken.hyps(2)])
next
  case (events c t junk now s)
  then show ?case
    by (intro wake_inv_grows [OF events.prems grows_expire [OF wake_invD(1) [OF events.prems] events.hyps(3)]]) (auto simp: slack_def)
next
  case (events_again c t junk now s)
  then show ?case
    by (intro wake_inv_grows [OF events_again.prems grows_expire [OF wake_invD(1) [OF events_again.prems] events_again.hyps(2)]]) (auto simp: slack_def)
next
  case (events_wake c t evs evs' s)
  then show ?case by (intro wake_inv_read [OF events_wake.prems, of t _ evs]) (auto simp: slack_def itti_get_events_wake_def)
qed

lemma reachable_inv:
  assumes "itti_init n fds itti_empty = Inr s" and "(itti_step hdr msize)\<^sup>*\<^sup>* (sched_init s) c"
  shows "wake_inv c"
  using assms(2)
proof (induction rule: rtranclp_induct)
  case base
  then show ?case using itti_init_good [OF assms(1)]
    by (auto simp: sched_init_def wake_inv_def in_flight_def itti_good_def sem_ok_def fits_def slack_def le_SucI)
next
  case (step c d)
  then show ?case by (blast intro: itti_step_inv)
qed

text \<open>After the initialisation all queues are empty and no timer is set.\<close>

lemma init_task_idle:
  assumes "\<forall>t. message_queue (tasks s t) = [] \<and> next_timer (tasks s t) = UINT64_MAX" and "init_task fds x s = Inr s'"
  shows "\<forall>t. message_queue (tasks s' t) = [] \<and> next_timer (tasks s' t) = UINT64_MAX"
proof -
  obtain u info where x: "x = (u, info)" by (cases x)
  show ?thesis using assms
    by (auto simp: x init_task_def rbind_Inr_conv itti_subscribe_event_fd_def itti_create_task_def split: if_splits)
qed

interpretation itti_idle: keeps_err "init_task fds" "\<lambda>s. \<forall>t. message_queue (tasks s t) = [] \<and> next_timer (tasks s t) = UINT64_MAX" for fds
  by unfold_locales (rule init_task_idle)

lemma itti_init_idle:
  assumes "itti_init n fds itti_empty = Inr s"
  shows "\<forall>t. message_queue (tasks s t) = [] \<and> next_timer (tasks s t) = UINT64_MAX"
  using itti_idle.run_err_inv [of itti_empty fds "take n tasks_info" s] assms
  by (simp add: itti_init_def itti_empty_def fresh_task_def)

lemma take_oldest:
  assumes "itti_ok s" and "pending t s \<noteq> []"
  shows "\<exists>p s'. pop_message t s = Some (p, s') \<and> p \<noteq> NULL \<and> pending t s = heap_view (heap s) p # pending t s'"
proof -
  have "message_queue (tasks s t) \<noteq> []" using assms(2) by (simp add: pending_def)
  then obtain p s' where "pop_message t s = Some (p, s')" by (auto simp: pop_message_def)
  then show ?thesis using pop_message_ok(2,5) [OF assms(1)] by blast
qed

section \<open>Properties\<close>

text \<open>C19. No wake-up is lost. Let the tasks allocate, fill, send and free messages, set and remove timers, poll, receive and
  wait for events in any interleaving of the parts of these functions that run under one lock, with a task that calls
  \<^verbatim>\<open>itti_get_events\<close> calling \<^verbatim>\<open>itti_receive_msg\<close> in between, as the UDP task does. Whenever a task waits, in either function, while its
  queue is not empty, its event descriptor is readable, so the wait ends. The call of \<^verbatim>\<open>itti_receive_msg\<close> that
  waited, also if the descriptor was read before the message came, or the one that follows \<^verbatim>\<open>itti_get_events\<close>, then returns
  the oldest message of the queue.\<close>

theorem no_lost_wakeup:
  assumes "itti_init n fds itti_empty = Inr s" and "(itti_step hdr msize)\<^sup>*\<^sup>* (sched_init s) c"
    and "pending t (core c) \<noteq> []"
  shows "(waits c t \<in> {In_Receive, In_Events} \<longrightarrow> 0 < sem_counter (tasks (core c) t)) \<and>
    (\<exists>p s'. itti_receive_take hdr msize junk t now (core c) = Inr (Got p s') \<and>
       p \<noteq> NULL \<and> pending t (core c) = heap_view (heap (core c)) p # pending t s') \<and>
    (\<forall>evs. \<exists>p s'. itti_receive_wake hdr msize junk t (Ready evs) now (core c) = Inr (Got p s') \<and>
       p \<noteq> NULL \<and> pending t (core c) = heap_view (heap (core c)) p # pending t s') \<and>
    (\<forall>evs. \<exists>p s'. itti_receive_msg hdr msize junk t now (snd (itti_get_events_wake t evs (core c))) = Inr (Got p s') \<and>
       p \<noteq> NULL \<and> pending t (core c) = heap_view (heap (core c)) p # pending t s')"
proof -
  note inv = reachable_inv [OF assms(1,2)]
  have "0 < sem_counter (tasks (core c) t)" if "waits c t \<in> {In_Receive, In_Events}"
    using wake_invD(5) [OF inv, of t] that assms(3)
    by (cases "message_queue (tasks (core c) t)") (auto simp: slack_def fits_def pending_def)
  moreover have "\<exists>p s'. pop_message t (core c) = Some (p, s') \<and> p \<noteq> NULL \<and>
      pending t (core c) = heap_view (heap (core c)) p # pending t s'"
    by (rule take_oldest [OF wake_invD(1) [OF inv] assms(3)])
  then have "\<exists>p s'. itti_receive_take hdr msize junk t now (core c) = Inr (Got p s') \<and>
       p \<noteq> NULL \<and> pending t (core c) = heap_view (heap (core c)) p # pending t s'"
    by (auto simp: itti_receive_take_def)
  moreover have "\<exists>p s'. itti_receive_wake hdr msize junk t (Ready evs) now (core c) = Inr (Got p s') \<and>
       p \<noteq> NULL \<and> pending t (core c) = heap_view (heap (core c)) p # pending t s'"
    "\<exists>p s'. itti_receive_msg hdr msize junk t now (snd (itti_get_events_wake t evs (core c))) = Inr (Got p s') \<and>
       p \<noteq> NULL \<and> pending t (core c) = heap_view (heap (core c)) p # pending t s'" for evs
  proof -
    let ?s = "upd_task t (consume_sem evs) (core c)"
    have "itti_ok ?s" "pending t ?s = pending t (core c)" using wake_invD(1) [OF inv] by (simp_all add: upd_task_ok)
    then obtain p s' where p: "pop_message t ?s = Some (p, s')" "p \<noteq> NULL" "pending t (core c) = heap_view (heap (core c)) p # pending t s'"
      using take_oldest [of ?s t] assms(3) by auto
    then show "\<exists>p s'. itti_receive_wake hdr msize junk t (Ready evs) now (core c) = Inr (Got p s') \<and>
         p \<noteq> NULL \<and> pending t (core c) = heap_view (heap (core c)) p # pending t s'"
      "\<exists>p s'. itti_receive_msg hdr msize junk t now (snd (itti_get_events_wake t evs (core c))) = Inr (Got p s') \<and>
         p \<noteq> NULL \<and> pending t (core c) = heap_view (heap (core c)) p # pending t s'"
      by (simp_all add: itti_receive_wake_def itti_receive_take_def itti_receive_msg_def itti_get_events_wake_def)
  qed
  ultimately show ?thesis by blast
qed

text \<open>The S1AP task waits, a message for it is queued, and its copy is still in flight.\<close>

lemma no_lost_wakeup_witness:
  "\<exists>s c. itti_init (task_num TASK_MAX) (\<lambda>t. int (task_num t) + 3) itti_empty = Inr s \<and>
     (itti_step 36 (\<lambda>_. 8))\<^sup>*\<^sup>* (sched_init s) c \<and> waits c TASK_S1AP = In_Receive \<and> flight c \<noteq> [] \<and>
     pending TASK_S1AP (core c) \<noteq> [] \<and> 0 < sem_counter (tasks (core c) TASK_S1AP)"
proof -
  obtain s where s: "itti_init (task_num TASK_MAX) (\<lambda>t. int (task_num t) + 3) itti_empty = Inr s"
    using itti_init_total [of "\<lambda>t. int (task_num t) + 3"] by auto
  have ok: "itti_ok s" using itti_init_good [OF s] by (simp add: itti_good_def)
  have idle: "message_queue (tasks s t) = []" "next_timer (tasks s t) = UINT64_MAX" for t using itti_init_idle [OF s] by auto
  let ?c1 = "recv_result TASK_S1AP (sched_init s) (Waits s)"
  have 1: "itti_step 36 (\<lambda>_. 8) (sched_init s) ?c1"
    by (rule itti_step.receive [of _ _ _ _ demo_junk 0])
      (simp_all add: sched_init_def itti_receive_msg_def pop_message_def idle recv_wait_def expire_timers_def)
  obtain p s2 where m: "itti_malloc (Msg demo_junk) s = (p, s2)" by fastforce
  note a = itti_malloc_ok [OF ok m]
  let ?c2 = "?c1\<lparr>core := s2\<rparr>"
  have 2: "itti_step 36 (\<lambda>_. 8) ?c1 ?c2" by (rule itti_step.alloc [of "Msg demo_junk" _ p]) (simp add: recv_result_def m)
  obtain q s3 where m3: "itti_malloc (Msg demo_junk) s2 = (q, s3)" by fastforce
  note a3 = itti_malloc_ok [OF a(1) m3]
  have "q \<noteq> p" using a(7,2) a3(2) by simp
  then have h: "heap s3 p = Some (Msg demo_junk)" "p \<notin> queued s3" using a a3 by (simp_all add: queued_def)
  obtain s4 where s4: "itti_send_msg_to_task_locked TASK_S1AP 0 p s3 = Inr s4" "pending TASK_S1AP s4 \<noteq> []"
    using send_locked_ok [OF a3(1) h, of TASK_S1AP 0] by auto
  have "send_front 36 (\<lambda>_. 8) demo_junk TASK_S1AP 0 p s2 = Inr (Some q, s4)"
    using send_front_run [OF _ m3 s4(1)] a(6) by (simp add: demo_junk_def view_msg_def)
  let ?c = "?c2\<lparr>core := s4, flight := flight ?c2 @ (case Some q of None \<Rightarrow> [] | Some q \<Rightarrow> [(0, q)])\<rparr>"
  have 3: "itti_step 36 (\<lambda>_. 8) ?c2 ?c"
    by (rule itti_step.post [of p _ _ _ demo_junk TASK_S1AP])
      (use a(3) \<open>send_front 36 (\<lambda>_. 8) demo_junk TASK_S1AP 0 p s2 = Inr (Some q, s4)\<close> in \<open>simp_all add: in_flight_def recv_result_def sched_init_def\<close>)
  from 1 2 3 have r: "(itti_step 36 (\<lambda>_. 8))\<^sup>*\<^sup>* (sched_init s) ?c" by (meson converse_rtranclp_into_rtranclp rtranclp.rtrancl_refl)
  have w: "waits ?c TASK_S1AP = In_Receive" "flight ?c \<noteq> []" "pending TASK_S1AP (core ?c) \<noteq> []"
    using s4(2) by (simp_all add: recv_result_def)
  have "0 < sem_counter (tasks (core ?c) TASK_S1AP)"
    using no_lost_wakeup [OF s r w(3)] w(1) by blast
  with s r w show ?thesis by blast
qed

end
