(* ===== verification/Icm.thy ===== *)
theory Icm
  imports Itti
begin

text \<open>
  The ICM task of the eNB (\<^verbatim>\<open>src/openairinterface5g/openair3/ICM/icm.c\<close>). It receives a copy of the
  messages all other tasks exchange, and announces the tunnel id of each E-RAB that was set up to
  the packet terminal, over UDP from port 6000. A terminate message ends the task and the packet
  terminal.

  \<open>icm_loop\<close> runs the loop of \<^verbatim>\<open>icm_task\<close> for at most \<open>n\<close> iterations, until the task would wait
  for a message or \<^verbatim>\<open>run\<close> is cleared. \<open>e_rabs\<close> is the array of the message, of which the code
  reads the first entry. The result of \<^verbatim>\<open>sendto\<close> only decides which text is printed; the model
  records the call.
\<close>

definition PORT_ICM :: u16 where "PORT_ICM = 6000"
definition PORT_PT :: u16 where "PORT_PT = 2152"
definition IPV4_ADDR_ENB :: u32 where "IPV4_ADDR_ENB = ipv4 192 168 178 41"

text \<open>\<open>icm_sent\<close>: the datagrams handed to \<^verbatim>\<open>sendto\<close>, with their destination.\<close>

record icm =
  run :: bool
  addr_local :: sockaddr
  icm_sent :: "(byte list \<times> sockaddr) list"

definition addr_enb_peer :: sockaddr where
  "addr_enb_peer = \<lparr>sin_addr = IPV4_ADDR_ENB, sin_port = PORT_PT\<rparr>"

definition icm_start :: icm where
  "icm_start = \<lparr>run = True, addr_local = \<lparr>sin_addr = IPV4_ADDR_ENB, sin_port = PORT_ICM\<rparr>, icm_sent = []\<rparr>"

definition send_teid :: "u32 \<Rightarrow> icm \<Rightarrow> icm" where
  "send_teid teid c = c\<lparr>icm_sent := icm_sent c @ [(le32 teid, addr_enb_peer)]\<rparr>"

text \<open>The branch for \<^verbatim>\<open>S1AP_E_RAB_SETUP_RESP\<close> falls through to the empty default branch. The message is
  not freed.\<close>

definition icm_process_itti_msg :: "ptr \<Rightarrow> itti \<Rightarrow> icm \<Rightarrow> icm result" where
  "icm_process_itti_msg received_message_p s c =
     (if received_message_p = NULL then Inr c
      else rbind (get_msg received_message_p s) (\<lambda>m.
        case ITTI_MSG_ID m of
          S1AP_E_RAB_SETUP_RESP \<Rightarrow>
            (case ittiMsg m of
               E_Rab_Setup_Resp (rab # _) \<Rightarrow> Inr (send_teid (gtp_teid rab) c)
             | _ \<Rightarrow> Inl Out_Of_Bounds)
        | TERMINATE_MESSAGE \<Rightarrow> Inr ((send_teid 0 c)\<lparr>run := False\<rparr>)
        | _ \<Rightarrow> Inr c))"

fun icm_loop :: "nat \<Rightarrow> icm \<Rightarrow> itti \<Rightarrow> (icm \<times> itti) result" where
  "icm_loop 0 c s = Inr (c, s)"
| "icm_loop (Suc n) c s =
     (if run c then
        (case pop_message TASK_ICM s of
           None \<Rightarrow> Inr (c, s)
         | Some (p, s') \<Rightarrow> rbind (icm_process_itti_msg p s' c) (\<lambda>c'. icm_loop n c' s'))
      else Inr (c, s))"

definition icm_task :: "nat \<Rightarrow> itti \<Rightarrow> (icm \<times> itti) result" where
  "icm_task n s = icm_loop n icm_start s"

section \<open>Specification\<close>

text \<open>What the task announces for the messages it sees: the tunnel ids, and whether it goes on.\<close>

fun announced :: "(MessagesIds \<times> task_id \<times> msg) list \<Rightarrow> u32 list" where
  "announced [] = []"
| "announced ((S1AP_E_RAB_SETUP_RESP, t, E_Rab_Setup_Resp (r # rs)) # xs) = gtp_teid r # announced xs"
| "announced ((TERMINATE_MESSAGE, t, b) # xs) = [0]"
| "announced (x # xs) = announced xs"

text \<open>A response carries its array of E-RABs.\<close>

definition well_typed :: "MessagesIds \<times> task_id \<times> msg \<Rightarrow> bool" where
  "well_typed x = (case x of
     (S1AP_E_RAB_SETUP_RESP, _, b) \<Rightarrow> (case b of E_Rab_Setup_Resp (_ # _) \<Rightarrow> True | _ \<Rightarrow> False)
   | _ \<Rightarrow> True)"

definition no_terminate :: "(MessagesIds \<times> task_id \<times> msg) list \<Rightarrow> bool" where
  "no_terminate xs = list_all (\<lambda>x. fst x \<noteq> TERMINATE_MESSAGE) xs"

definition demo_resp :: "u32 \<Rightarrow> MessagesIds \<times> task_id \<times> msg" where
  "demo_resp w = (S1AP_E_RAB_SETUP_RESP, TASK_RRC_ENB, E_Rab_Setup_Resp [\<lparr>e_rab_id = 6, gtp_teid = w\<rparr>])"

section \<open>Lemmas\<close>

text \<open>One iteration on the oldest pending message.\<close>

lemma process_view:
  assumes "itti_ok s" and "pop_message TASK_ICM s = Some (p, s')" and "well_typed (heap_view (heap s) p)"
  shows "icm_process_itti_msg p s' c = Inr (fold send_teid (announced [heap_view (heap s) p]) c
     \<lparr>run := (run c \<and> fst (heap_view (heap s) p) \<noteq> TERMINATE_MESSAGE)\<rparr>)"
proof -
  note m = pop_message_ok [OF assms(1,2)]
  obtain h where h: "heap s p = Some (Msg h)" using m(7) by (auto simp: is_msg_def)
  have g: "get_msg p s' = Inr h" by (simp add: get_msg_Inr m h)
  have r: "c\<lparr>run := run c\<rparr> = c" "send_teid w c\<lparr>run := run c\<rparr> = send_teid w c" for w
    by (simp_all add: send_teid_def)
  show ?thesis
  proof (cases "ITTI_MSG_ID h = S1AP_E_RAB_SETUP_RESP")
    case True
    then obtain x xs where "ittiMsg h = E_Rab_Setup_Resp (x # xs)"
      using assms(3) by (auto simp: h msg_view_def well_typed_def split: msg.splits list.splits)
    with True show ?thesis using m(2) by (simp add: icm_process_itti_msg_def g h msg_view_def r)
  next
    case False
    then show ?thesis using m(2)
      by (cases "ITTI_MSG_ID h") (simp_all add: icm_process_itti_msg_def g h msg_view_def r)
  qed
qed

lemma announced_Cons: "announced (x # xs) =
   announced [x] @ (if fst x = TERMINATE_MESSAGE then [] else announced xs)"
  by (cases "x # xs" rule: announced.cases) simp_all

lemma fold_send_teid:
  "icm_sent (fold send_teid ws c) = icm_sent c @ map (\<lambda>w. (le32 w, addr_enb_peer)) ws"
  "run (fold send_teid ws c) = run c" "addr_local (fold send_teid ws c) = addr_local c"
  by (induction ws arbitrary: c) (simp_all add: send_teid_def)

lemma icm_loop_spec:
  assumes "itti_ok s" and "length (pending TASK_ICM s) \<le> n"
    and "list_all well_typed (pending TASK_ICM s)" and "run c"
  shows "\<exists>c' s'. icm_loop n c s = Inr (c', s') \<and>
    icm_sent c' = icm_sent c @ map (\<lambda>w. (le32 w, addr_enb_peer)) (announced (pending TASK_ICM s)) \<and>
    run c' = no_terminate (pending TASK_ICM s) \<and> heap s' = heap s \<and> itti_ok s' \<and>
    (run c' \<longrightarrow> pending TASK_ICM s' = []) \<and> addr_local c' = addr_local c"
  using assms
proof (induction n arbitrary: s c)
  case 0
  then show ?case by (simp add: no_terminate_def)
next
  case (Suc n)
  show ?case
  proof (cases "pop_message TASK_ICM s")
    case None
    then have "pending TASK_ICM s = []" by (auto simp: pop_message_def pending_def split: if_splits)
    with None Suc.prems show ?thesis by (simp add: no_terminate_def)
  next
    case (Some a)
    obtain p s1 where p: "pop_message TASK_ICM s = Some (p, s1)" using Some by (cases a) simp
    note m = pop_message_ok [OF Suc.prems(1) p]
    let ?x = "heap_view (heap s) p"
    let ?c = "fold send_teid (announced [?x]) c\<lparr>run := (run c \<and> fst ?x \<noteq> TERMINATE_MESSAGE)\<rparr>"
    have wt: "well_typed ?x" "list_all well_typed (pending TASK_ICM s1)"
      using Suc.prems(3) by (simp_all add: m(5))
    have e: "icm_loop (Suc n) c s = icm_loop n ?c s1"
      using process_view [OF Suc.prems(1) p wt(1), of c] Suc.prems(4) by (simp add: p)
    show ?thesis
    proof (cases "fst ?x = TERMINATE_MESSAGE")
      case True
      then have stop: "icm_loop n ?c s1 = Inr (?c, s1)" by (cases n) simp_all
      have "announced (?x # pending TASK_ICM s1) = announced [?x]"
        using True announced_Cons [of ?x "pending TASK_ICM s1"] by simp
      with e stop True show ?thesis
        by (simp add: m(1,4,5) fold_send_teid no_terminate_def)
    next
      case False
      have "length (pending TASK_ICM s1) \<le> n" using Suc.prems(2) by (simp add: m(5))
      from Suc.IH [OF m(1) this wt(2), of ?c] False Suc.prems(4) obtain c' s' where
        "icm_loop n ?c s1 = Inr (c', s')"
        "icm_sent c' = icm_sent ?c @ map (\<lambda>w. (le32 w, addr_enb_peer)) (announced (pending TASK_ICM s1))"
        "run c' = no_terminate (pending TASK_ICM s1)" "heap s' = heap s1" "itti_ok s'"
        "run c' \<longrightarrow> pending TASK_ICM s' = []" "addr_local c' = addr_local ?c"
        by auto
      moreover have "announced (?x # pending TASK_ICM s1) = announced [?x] @ announced (pending TASK_ICM s1)"
        using False announced_Cons [of ?x "pending TASK_ICM s1"] by simp
      ultimately show ?thesis using e False by (simp add: m(4,5) fold_send_teid no_terminate_def)
    qed
  qed
qed

section \<open>Properties\<close>

text \<open>C8. The ICM task refines its specification: for the messages waiting in its queue it sends the
  tunnel id of the first E-RAB of every setup response, in order, as four bytes to port 2152 of the
  eNB host, and for a terminate message the tunnel id 0, after which it stops. As many iterations
  as there are messages are enough. Without a terminate message the queue is empty afterwards.\<close>

theorem icm_announces:
  assumes "itti_ok s" and "length (pending TASK_ICM s) \<le> n"
    and "list_all well_typed (pending TASK_ICM s)"
  shows "\<exists>c s'. icm_task n s = Inr (c, s') \<and>
    icm_sent c = map (\<lambda>w. (le32 w, \<lparr>sin_addr = ipv4 192 168 178 41, sin_port = 2152\<rparr>))
      (announced (pending TASK_ICM s)) \<and>
    run c = no_terminate (pending TASK_ICM s) \<and> (run c \<longrightarrow> pending TASK_ICM s' = [])"
  using icm_loop_spec [OF assms, of icm_start]
  by (auto simp: icm_task_def icm_start_def addr_enb_peer_def IPV4_ADDR_ENB_def PORT_PT_def)

lemma demo_queue:
  "itti_ok (fold (enq_msg TASK_ICM \<circ> view_msg) xs itti_empty)"
  "pending TASK_ICM (fold (enq_msg TASK_ICM \<circ> view_msg) xs itti_empty) = xs"
proof -
  have "itti_ok itti_empty" "pending TASK_ICM itti_empty = []"
    using itti_empty_good by (simp_all add: itti_good_def pending_def itti_empty_def fresh_task_def)
  then show "itti_ok (fold (enq_msg TASK_ICM \<circ> view_msg) xs itti_empty)"
    "pending TASK_ICM (fold (enq_msg TASK_ICM \<circ> view_msg) xs itti_empty) = xs"
    using icmq.fold_enq by simp_all
qed

lemma icm_announces_witness:
  "\<exists>c s'. icm_task 3 (fold (enq_msg TASK_ICM \<circ> view_msg)
       [demo_resp 17, demo_resp 34, (TERMINATE_MESSAGE, TASK_ENB_APP, Msg_Empty)] itti_empty) = Inr (c, s') \<and>
     icm_sent c = map (\<lambda>w. (le32 w, \<lparr>sin_addr = ipv4 192 168 178 41, sin_port = 2152\<rparr>)) [17, 34, 0] \<and>
     \<not> run c"
proof -
  let ?xs = "[demo_resp 17, demo_resp 34, (TERMINATE_MESSAGE, TASK_ENB_APP, Msg_Empty)]"
  let ?s = "fold (enq_msg TASK_ICM \<circ> view_msg) ?xs itti_empty"
  have "list_all well_typed ?xs" "announced ?xs = [17, 34, 0]" "\<not> no_terminate ?xs"
    by (simp_all add: well_typed_def demo_resp_def no_terminate_def)
  then show ?thesis using icm_announces [OF demo_queue(1) [of ?xs], of 3] unfolding demo_queue(2) by auto
qed

text \<open>The ICM task frees nothing: however many messages it processes, every block that was
  allocated before still is, although the processed messages are in no queue any more.\<close>

theorem icm_never_frees:
  assumes "itti_ok s" and "list_all well_typed (pending TASK_ICM s)"
    and "no_terminate (pending TASK_ICM s)"
  shows "\<exists>c s'. icm_task (length (pending TASK_ICM s)) s = Inr (c, s') \<and> heap s' = heap s \<and>
    (\<forall>p\<in>set (message_queue (tasks s TASK_ICM)). is_msg (heap s') p) \<and>
    message_queue (tasks s' TASK_ICM) = []"
  using icm_loop_spec [OF assms(1) order_refl assms(2), of icm_start] assms(3)
    itti_okD(2) [OF assms(1)]
  by (auto simp: icm_task_def icm_start_def pending_def)

lemma icm_never_frees_witness:
  "\<exists>c s'. icm_task (length (pending TASK_ICM (enq_msg TASK_ICM (view_msg (demo_resp 17)) itti_empty)))
      (enq_msg TASK_ICM (view_msg (demo_resp 17)) itti_empty) = Inr (c, s') \<and>
    heap s' = heap (enq_msg TASK_ICM (view_msg (demo_resp 17)) itti_empty) \<and>
    (\<forall>p\<in>set (message_queue (tasks (enq_msg TASK_ICM (view_msg (demo_resp 17)) itti_empty) TASK_ICM)).
       is_msg (heap s') p) \<and>
    message_queue (tasks s' TASK_ICM) = []"
  by (rule icm_never_frees)
    (use demo_queue [of "[demo_resp 17]"] in \<open>simp_all add: well_typed_def demo_resp_def no_terminate_def\<close>)

end
