(* ===== verification/Udp_Task.thy ===== *)
theory Udp_Task
  imports Itti
begin

text \<open>
  The UDP task of the eNB (\<^verbatim>\<open>src/openairinterface5g/openair3/UDP/udp_eNB_task.c\<close>): a list of socket
  descriptors, one per requesting task, the receiver that hands datagrams to the task of the
  socket, and the handler of the messages to the task. Every datagram to be sent is redirected to
  the packet terminal, whatever peer the request names.

  \<^item> The list is a tail queue; it is a list with the head first.
  \<^item> The results of \<^verbatim>\<open>socket\<close>, \<^verbatim>\<open>bind\<close> and \<^verbatim>\<open>recvfrom\<close> are arguments. \<^verbatim>\<open>inet_addr\<close> of a null pointer is a
    bad pointer: \<^verbatim>\<open>INADDR_ANY\<close> is the integer 0, used in place of a string.
  \<^item> A buffer is a block of bytes; sending a range outside it is an error.
\<close>

record udp_socket_desc =
  sd :: int
  local_address :: ptr
  local_port :: u16
  task_of :: task_id

record udp_task =
  udp_socket_list :: "udp_socket_desc list"
  udp_sent :: "(int \<times> byte list \<times> sockaddr) list"
  exited :: bool

definition udp_enb_init :: udp_task where
  "udp_enb_init = \<lparr>udp_socket_list = [], udp_sent = [], exited = False\<rparr>"

definition udp_eNB_get_socket_desc :: "task_id \<Rightarrow> udp_task \<Rightarrow> udp_socket_desc option" where
  "udp_eNB_get_socket_desc t u = find (\<lambda>d. task_of d = t) (udp_socket_list u)"

text \<open>The redirection, as in the source: the eNB address and port 2150.\<close>

definition terminal_addr :: sockaddr where
  "terminal_addr = \<lparr>sin_addr = ipv4 192 168 178 41, sin_port = 2150\<rparr>"

definition L_BUFFER :: nat where "L_BUFFER = 2048"

section \<open>Sockets\<close>

definition udp_eNB_create_socket ::
  "int \<Rightarrow> bool \<Rightarrow> int \<Rightarrow> ptr \<Rightarrow> task_id \<Rightarrow> udp_task \<Rightarrow> itti \<Rightarrow> (udp_task \<times> itti) result" where
  "udp_eNB_create_socket s_res bind_ok port_no ip_addr t u s =
     (if \<not> 0 < s_res then Inl Assert_Fatal
      else if ip_addr = NULL then Inl Bad_Pointer
      else if \<not> bind_ok then Inl Assert_Fatal
      else
        let d = \<lparr>sd = s_res, local_address = ip_addr, local_port = word_of_int port_no, task_of = t\<rparr>
        in rbind (itti_subscribe_event_fd TASK_UDP s_res s) (\<lambda>s'.
             Inr (u\<lparr>udp_socket_list := udp_socket_list u @ [d]\<rparr>, s')))"

text \<open>The function for other modules: -1 for bad parameters or if the kernel refuses.\<close>

definition udp_eNB_send_to ::
  "bool \<Rightarrow> int \<Rightarrow> sockaddr \<Rightarrow> byte list option \<Rightarrow> nat \<Rightarrow> udp_task \<Rightarrow> int \<times> udp_task" where
  "udp_eNB_send_to kernel_ok s_d to buf len u =
     (if s_d \<le> 0 \<or> (buf = None \<and> 0 < len) then (-1, u)
      else if kernel_ok
      then (0, u\<lparr>udp_sent := udp_sent u @ [(s_d, take len (case buf of Some b \<Rightarrow> b | None \<Rightarrow> []), to)]\<rparr>)
      else (-1, u))"

section \<open>Receiving\<close>

datatype recv_from = Received "byte list" sockaddr | Recv_Failed

definition data_ind :: "ptr \<Rightarrow> nat \<Rightarrow> sockaddr \<Rightarrow> msg" where
  "data_ind b n a = Udp_Data_Ind \<lparr>buffer = b, buffer_length = n, buffer_offset = 0, peer = a\<rparr>"

definition udp_eNB_receiver ::
  "u32 \<Rightarrow> (MessagesIds \<Rightarrow> u32) \<Rightarrow> MessageDef \<Rightarrow> recv_from \<Rightarrow> udp_socket_desc \<Rightarrow> itti \<Rightarrow> itti result" where
  "udp_eNB_receiver hdr msize junk r d s =
     (case r of
        Recv_Failed \<Rightarrow> Inr s
      | Received bytes a \<Rightarrow>
          (let l_buffer = take L_BUFFER bytes in
           if l_buffer = [] then Inr s
           else
             let (b, s1) = itti_malloc (Buf l_buffer) s;
                 (p, s2) = itti_alloc_new_message hdr msize TASK_UDP UDP_DATA_IND junk s1
             in itti_send_msg_to_task hdr msize junk (task_of d) INSTANCE_DEFAULT p
                  (set_payload p (data_ind b (length l_buffer) a) s2)))"

text \<open>Each event goes to the first descriptor with that socket; \<open>rx\<close> is what the socket has.\<close>

definition process_event ::
  "u32 \<Rightarrow> (MessagesIds \<Rightarrow> u32) \<Rightarrow> MessageDef \<Rightarrow> (int \<Rightarrow> recv_from) \<Rightarrow> udp_task \<Rightarrow> int \<Rightarrow> itti \<Rightarrow> itti result" where
  "process_event hdr msize junk rx u fd s =
     (case find (\<lambda>d. sd d = fd) (udp_socket_list u) of
        Some d \<Rightarrow> udp_eNB_receiver hdr msize junk (rx fd) d s
      | None \<Rightarrow> Inr s)"

definition udp_eNB_process_file_descriptors ::
  "u32 \<Rightarrow> (MessagesIds \<Rightarrow> u32) \<Rightarrow> MessageDef \<Rightarrow> (int \<Rightarrow> recv_from) \<Rightarrow> udp_task \<Rightarrow> int list \<Rightarrow> itti \<Rightarrow> itti result" where
  "udp_eNB_process_file_descriptors hdr msize junk rx u events s =
     rfold (process_event hdr msize junk rx u) events s"

section \<open>The messages to the task\<close>

text \<open>The branch for \<^verbatim>\<open>UDP_DATA_REQ\<close> up to the jump to \<^verbatim>\<open>on_error\<close>.\<close>

definition udp_data_req :: "task_id \<Rightarrow> udp_data \<Rightarrow> udp_task \<Rightarrow> itti \<Rightarrow> (udp_task \<times> itti) result" where
  "udp_data_req origin r u s =
     (case udp_eNB_get_socket_desc origin u of
        None \<Rightarrow> if buffer r \<noteq> NULL then rbind (itti_free (buffer r) s) (\<lambda>s'. Inr (u, s')) else Inr (u, s)
      | Some d \<Rightarrow>
          rbind (get_buf (buffer r) s) (\<lambda>b.
            if buffer_offset r + buffer_length r \<le> length b then
              rbind (itti_free (buffer r) s) (\<lambda>s'.
                Inr (u\<lparr>udp_sent := udp_sent u @
                   [(sd d, get_bytes (buffer_offset r) (buffer_length r) b, terminal_addr)]\<rparr>, s'))
            else Inl Out_Of_Bounds))"

text \<open>\<open>s_res\<close> and \<open>bind_ok\<close> are the results of \<^verbatim>\<open>socket\<close> and \<^verbatim>\<open>bind\<close> for \<^verbatim>\<open>UDP_INIT\<close>.\<close>

definition udp_dispatch ::
  "int \<Rightarrow> bool \<Rightarrow> MessageDef \<Rightarrow> udp_task \<Rightarrow> itti \<Rightarrow> (udp_task \<times> itti) result" where
  "udp_dispatch s_res bind_ok m u s =
     (case ITTI_MSG_ID m of
        UDP_INIT \<Rightarrow> (case ittiMsg m of
            Udp_Init i \<Rightarrow> udp_eNB_create_socket s_res bind_ok (port i) (address i) (ITTI_MSG_ORIGIN_ID m) u s
          | _ \<Rightarrow> Inl Bad_Pointer)
      | UDP_DATA_REQ \<Rightarrow> (case ittiMsg m of
            Udp_Data_Req r \<Rightarrow> udp_data_req (ITTI_MSG_ORIGIN_ID m) r u s
          | _ \<Rightarrow> Inl Bad_Pointer)
      | TERMINATE_MESSAGE \<Rightarrow> Inr (u\<lparr>exited := True\<rparr>, s)
      | _ \<Rightarrow> Inr (u, s))"

text \<open>The first half of an iteration: the message that \<^verbatim>\<open>itti_receive_msg\<close> returned. A thread that
  exits does not free it.\<close>

definition udp_handle_msg ::
  "int \<Rightarrow> bool \<Rightarrow> ptr \<Rightarrow> udp_task \<Rightarrow> itti \<Rightarrow> (udp_task \<times> itti) result" where
  "udp_handle_msg s_res bind_ok p u s =
     (if p = NULL then Inr (u, s)
      else rbind (get_msg p s) (\<lambda>m. rbind (udp_dispatch s_res bind_ok m u s) (\<lambda>(u', s').
        if exited u' then Inr (u', s') else rbind (itti_free p s') (\<lambda>s''. Inr (u', s'')))))"

text \<open>An iteration of \<^verbatim>\<open>udp_eNB_task\<close>, with the events that \<^verbatim>\<open>itti_get_events\<close> returns after the message
  was handled.\<close>

definition udp_eNB_task_body ::
  "u32 \<Rightarrow> (MessagesIds \<Rightarrow> u32) \<Rightarrow> MessageDef \<Rightarrow> int \<Rightarrow> bool \<Rightarrow> ptr \<Rightarrow> int list \<Rightarrow> (int \<Rightarrow> recv_from) \<Rightarrow>
   udp_task \<Rightarrow> itti \<Rightarrow> (udp_task \<times> itti) result" where
  "udp_eNB_task_body hdr msize junk s_res bind_ok p events rx u s =
     rbind (udp_handle_msg s_res bind_ok p u s) (\<lambda>(u', s1).
       if exited u' then Inr (u', s1)
       else
         let (evs, s2) = itti_get_events_wake TASK_UDP events s1 in
         rbind (udp_eNB_process_file_descriptors hdr msize junk rx u' evs s2) (\<lambda>s3. Inr (u', s3)))"

definition udp_view :: "udp_data \<Rightarrow> MessagesIds \<times> task_id \<times> msg" where
  "udp_view r = (UDP_DATA_REQ, TASK_GTPV1_U, Udp_Data_Req r)"

definition demo_sock :: udp_task where
  "demo_sock = udp_enb_init\<lparr>udp_socket_list :=
     [\<lparr>sd = 9, local_address = 4, local_port = 2152, task_of = TASK_GTPV1_U\<rparr>]\<rparr>"

definition demo_req :: udp_data where
  "demo_req = \<lparr>buffer = 1, buffer_length = 2, buffer_offset = 1,
     peer = \<lparr>sin_addr = ipv4 192 168 178 42, sin_port = 2152\<rparr>\<rparr>"

text \<open>A heap with the buffer of the request and the message.\<close>

definition demo_heap :: itti where
  "demo_heap = itti_empty\<lparr>heap := [1 \<mapsto> Buf [7, 8, 9], 2 \<mapsto> Msg (view_msg (udp_view demo_req))], brk := 3\<rparr>"

section \<open>Sending\<close>

lemma handle_data_req:
  assumes "p \<noteq> NULL" and "heap s p = Some (Msg m)" and "msg_view m = (UDP_DATA_REQ, t, Udp_Data_Req r)"
    and "buffer r \<noteq> NULL" and "heap s (buffer r) = Some (Buf b)"
    and "buffer_offset r + buffer_length r \<le> length b" and "\<not> exited u"
  shows "\<exists>u' s'. udp_handle_msg s_res bind_ok p u s = Inr (u', s') \<and>
    udp_sent u' = udp_sent u @ (case udp_eNB_get_socket_desc t u of
       None \<Rightarrow> []
     | Some d \<Rightarrow> [(sd d, get_bytes (buffer_offset r) (buffer_length r) b, terminal_addr)]) \<and>
    s' = s\<lparr>heap := (heap s)(buffer r := None, p := None)\<rparr> \<and>
    udp_socket_list u' = udp_socket_list u"
proof -
  have bp: "buffer r \<noteq> p" using assms(2,5) by auto
  have m: "ITTI_MSG_ID m = UDP_DATA_REQ" "ITTI_MSG_ORIGIN_ID m = t" "ittiMsg m = Udp_Data_Req r"
    using assms(3) by (simp_all add: msg_view_def)
  let ?s = "s\<lparr>heap := (heap s)(buffer r := None)\<rparr>"
  have f: "itti_free (buffer r) s = Inr ?s" using assms(4,5) by (simp add: itti_free_def)
  have g: "itti_free p ?s = Inr (?s\<lparr>heap := (heap s)(buffer r := None, p := None)\<rparr>)"
    using assms(1,2) bp by (simp add: itti_free_def)
  have get: "get_msg p s = Inr m" "get_buf (buffer r) s = Inr b"
    using assms(2,5) by (simp_all add: get_msg_def get_buf_def)
  show ?thesis
    using assms(1,4,6,7) f g m get
    by (cases "udp_eNB_get_socket_desc t u")
      (auto simp: udp_handle_msg_def udp_dispatch_def udp_data_req_def)
qed

text \<open>C13. Upstream data. A request of a task that has a socket is sent on that socket, with exactly
  the requested range of the buffer, to port 2150 of the eNB host, whatever peer it names; a
  request of a task without a socket sends nothing. In both cases the buffer and the message are
  freed and nothing else in memory changes, so no request leaks memory or frees it twice.\<close>

theorem udp_data_req_redirected:
  assumes "p \<noteq> NULL" and "heap s p = Some (Msg m)" and "msg_view m = (UDP_DATA_REQ, t, Udp_Data_Req r)"
    and "buffer r \<noteq> NULL" and "heap s (buffer r) = Some (Buf b)"
    and "buffer_offset r + buffer_length r \<le> length b" and "\<not> exited u"
  shows "\<exists>u' s'. udp_handle_msg s_res bind_ok p u s = Inr (u', s') \<and>
    udp_sent u' = udp_sent u @ (case udp_eNB_get_socket_desc t u of
       None \<Rightarrow> []
     | Some d \<Rightarrow> [(sd d, take (buffer_length r) (drop (buffer_offset r) b),
                   \<lparr>sin_addr = ipv4 192 168 178 41, sin_port = 2150\<rparr>)]) \<and>
    heap s' = (heap s)(buffer r := None, p := None) \<and> tasks s' = tasks s \<and>
    udp_socket_list u' = udp_socket_list u"
  using handle_data_req [OF assms, of s_res bind_ok]
  by (auto simp: terminal_addr_def get_bytes_def split: option.splits)

lemma udp_data_req_redirected_witness:
  "\<exists>u' s'. udp_handle_msg 0 True 2 demo_sock demo_heap = Inr (u', s') \<and>
    udp_sent u' = [(9, [8, 9], \<lparr>sin_addr = ipv4 192 168 178 41, sin_port = 2150\<rparr>)] \<and> heap s' = Map.empty"
proof -
  have "\<exists>u' s'. udp_handle_msg 0 True 2 demo_sock demo_heap = Inr (u', s') \<and>
    udp_sent u' = udp_sent demo_sock @ (case udp_eNB_get_socket_desc TASK_GTPV1_U demo_sock of
       None \<Rightarrow> []
     | Some d \<Rightarrow> [(sd d, take (buffer_length demo_req) (drop (buffer_offset demo_req) [7, 8, 9]),
                   \<lparr>sin_addr = ipv4 192 168 178 41, sin_port = 2150\<rparr>)]) \<and>
    heap s' = (heap demo_heap)(buffer demo_req := None, 2 := None) \<and> tasks s' = tasks demo_heap \<and>
    udp_socket_list u' = udp_socket_list demo_sock"
    by (rule udp_data_req_redirected [where m = "view_msg (udp_view demo_req)"])
      (simp_all add: NULL_def demo_heap_def udp_view_def view_msg_def msg_view_def demo_req_def
        demo_sock_def udp_enb_init_def)
  then show ?thesis
    by (auto simp: demo_sock_def udp_enb_init_def udp_eNB_get_socket_desc_def demo_req_def demo_heap_def)
qed

section \<open>Receiving\<close>

text \<open>C20. A datagram that arrives on a socket is handed to the task the socket belongs to: an indication
  whose buffer holds the datagram (at most its first 2048 bytes) and its source is queued behind
  the messages that task has, the ICM task gets a copy, and the copy refers to the same buffer.
  An empty datagram is ignored.\<close>

theorem udp_receiver_delivers:
  assumes "itti_ok s" and "task_of d \<noteq> TASK_MAX" and "bytes \<noteq> []"
  shows "\<exists>s' b. udp_eNB_receiver hdr msize junk (Received bytes a) d s = Inr s' \<and> itti_ok s' \<and>
    heap s b = None \<and> heap s' b = Some (Buf (take 2048 bytes)) \<and>
    (\<forall>t. pending t s' = pending t s @
       replicate ((if t = task_of d then 1 else 0) + (if t = TASK_ICM then 1 else 0))
         (UDP_DATA_IND, TASK_UDP, data_ind b (min 2048 (length bytes)) a))"
proof -
  obtain b s1 where b: "itti_malloc (Buf (take L_BUFFER bytes)) s = (b, s1)"
    by (cases "itti_malloc (Buf (take L_BUFFER bytes)) s")
  note m1 = itti_malloc_ok [OF assms(1) b]
  obtain p s2 where p: "itti_alloc_new_message hdr msize TASK_UDP UDP_DATA_IND junk s1 = (p, s2)"
    by (cases "itti_alloc_new_message hdr msize TASK_UDP UDP_DATA_IND junk s1")
  let ?x = "data_ind b (min 2048 (length bytes)) a"
  obtain m where m: "itti_malloc (Msg m) s1 = (p, set_payload p ?x s2)"
    and v: "msg_view m = (UDP_DATA_IND, TASK_UDP, ?x)"
    using alloc_payload [OF p] by blast
  note m2 = itti_malloc_ok [OF m1(1) m]
  have id: "ITTI_MSG_ID m \<noteq> RRC_SUBFRAME_PROCESS" using v by (simp add: msg_view_def)
  have e: "udp_eNB_receiver hdr msize junk (Received bytes a) d s =
      send_new hdr msize junk (task_of d, INSTANCE_DEFAULT, m) s1"
    using assms(3) m by (simp add: udp_eNB_receiver_def b [unfolded L_BUFFER_def] p send_new_def Let_def L_BUFFER_def min.commute)
  obtain s' where s': "send_new hdr msize junk (task_of d, INSTANCE_DEFAULT, m) s1 = Inr s'" "itti_ok s'"
    "\<And>t. pending t s' = pending t s1 @ (if t = task_of d then [msg_view m] else []) @
       (if t = TASK_ICM then [msg_view m] else [])"
    using send_new_ok [OF m1(1) assms(2), of hdr msize junk INSTANCE_DEFAULT m] id by auto
  have "heap s' b = heap s1 b"
    using send_new_frame [OF m1(1) s'(1)] m1(2,7) by simp
  then have "heap s' b = Some (Buf (take 2048 bytes))" by (simp add: m1(6) L_BUFFER_def)
  moreover have "heap s b = None" using itti_okD(1) [OF assms(1)] m1(2) by simp
  ultimately show ?thesis using e s' v m1(4) by (auto simp: numeral_2_eq_2)
qed

lemma udp_receiver_delivers_witness:
  "\<exists>s' b. udp_eNB_receiver 36 (\<lambda>_. 8) (view_msg (MESSAGE_TEST, TASK_UNKNOWN, Msg_Empty))
      (Received [1, 2, 3] terminal_addr) (hd (udp_socket_list demo_sock)) itti_empty = Inr s' \<and> itti_ok s' \<and>
    heap itti_empty b = None \<and> heap s' b = Some (Buf (take 2048 [1, 2, 3])) \<and>
    (\<forall>t. pending t s' = pending t itti_empty @
       replicate ((if t = task_of (hd (udp_socket_list demo_sock)) then 1 else 0) +
           (if t = TASK_ICM then 1 else 0))
         (UDP_DATA_IND, TASK_UDP, data_ind b (min 2048 (length [1 :: byte, 2, 3])) terminal_addr))"
  by (rule udp_receiver_delivers)
    (use itti_empty_good in \<open>simp_all add: itti_good_def demo_sock_def udp_enb_init_def\<close>)

text \<open>The copy that the ICM task gets of a message is shallow. Once the UDP task has handled a
  request, the copy in the queue of the ICM task still refers to the buffer of the request, which
  is freed by then: a task that sees the copy must not read the buffer.\<close>

theorem icm_copy_dangles:
  assumes "itti_ok s" and "pending TASK_UDP s = []" and "msg_view m = (UDP_DATA_REQ, t, Udp_Data_Req r)"
    and "buffer r \<noteq> NULL" and "heap s (buffer r) = Some (Buf b)"
    and "buffer_offset r + buffer_length r \<le> length b" and "\<not> exited u"
  shows "\<exists>s1 p s2 u' s3. send_new hdr msize junk (TASK_UDP, i, m) s = Inr s1 \<and>
    pop_message TASK_UDP s1 = Some (p, s2) \<and> udp_handle_msg s_res bind_ok p u s2 = Inr (u', s3) \<and>
    pending TASK_ICM s3 = pending TASK_ICM s @ [(UDP_DATA_REQ, t, Udp_Data_Req r)] \<and>
    heap s3 (buffer r) = None"
proof -
  have "TASK_UDP \<noteq> TASK_MAX" by simp
  moreover have "ITTI_MSG_ID m \<noteq> RRC_SUBFRAME_PROCESS" using assms(3) by (simp add: msg_view_def)
  ultimately obtain s1 where s1: "send_new hdr msize junk (TASK_UDP, i, m) s = Inr s1" "itti_ok s1"
    "pending TASK_UDP s1 = [msg_view m]" "pending TASK_ICM s1 = pending TASK_ICM s @ [msg_view m]"
    using send_new_ok [OF assms(1), of TASK_UDP hdr msize junk i m] assms(2) by auto
  then obtain p s2 where p: "pop_message TASK_UDP s1 = Some (p, s2)"
    by (auto simp: pop_message_def pending_def)
  note m2 = pop_message_ok [OF s1(2) p]
  have "buffer r < brk s" by (rule heap_below [OF assms(1,5)])
  then have hb: "heap s2 (buffer r) = Some (Buf b)"
    using send_new_frame [OF assms(1) s1(1)] assms(5) by (simp add: m2(4))
  obtain m' where m': "heap s2 p = Some (Msg m')" using m2(7) by (auto simp: is_msg_def m2(4))
  have v: "msg_view m' = (UDP_DATA_REQ, t, Udp_Data_Req r)"
    using m2(5) s1(3) assms(3) m' by (simp add: m2(4))
  obtain u' s3 where h: "udp_handle_msg s_res bind_ok p u s2 = Inr (u', s3)"
    "s3 = s2\<lparr>heap := (heap s2)(buffer r := None, p := None)\<rparr>"
    using handle_data_req [OF m2(2) m' v assms(4) hb assms(6,7), of s_res bind_ok] by blast
  have nq: "q \<noteq> p \<and> q \<noteq> buffer r" if "q \<in> set (message_queue (tasks s2 TASK_ICM))" for q
    using m2(3) itti_okD(2) [OF m2(1) that] hb that by (auto simp: queued_def is_msg_def)
  have "pending TASK_ICM s3 = pending TASK_ICM s2"
    by (rule pending_cong) (auto simp: h(2) heap_view_def dest: nq)
  then have "pending TASK_ICM s3 = pending TASK_ICM s @ [(UDP_DATA_REQ, t, Udp_Data_Req r)]"
    using m2(6) [of TASK_ICM] s1(4) assms(3) by simp
  moreover have "heap s3 (buffer r) = None" by (simp add: h(2))
  ultimately show ?thesis using s1(1) p h(1) by blast
qed

lemma icm_copy_dangles_witness:
  "\<exists>s1 p s2 u' s3. send_new 36 (\<lambda>_. 8) (view_msg (MESSAGE_TEST, TASK_UNKNOWN, Msg_Empty))
      (TASK_UDP, 0, view_msg (udp_view demo_req)) demo_heap = Inr s1 \<and>
    pop_message TASK_UDP s1 = Some (p, s2) \<and> udp_handle_msg 0 True p demo_sock s2 = Inr (u', s3) \<and>
    pending TASK_ICM s3 = pending TASK_ICM demo_heap @ [(UDP_DATA_REQ, TASK_GTPV1_U, Udp_Data_Req demo_req)] \<and>
    heap s3 (buffer demo_req) = None"
proof (rule icm_copy_dangles)
  show "itti_ok demo_heap"
    by (auto simp: itti_ok_def demo_heap_def itti_empty_def fresh_task_def queued_def NULL_def)
  show "heap demo_heap (buffer demo_req) = Some (Buf [7, 8, 9])" by (simp add: demo_heap_def demo_req_def)
qed (simp_all add: pending_def demo_heap_def itti_empty_def fresh_task_def demo_req_def NULL_def
    udp_view_def view_msg_def msg_view_def demo_sock_def udp_enb_init_def)

section \<open>The socket list\<close>

text \<open>Creating sockets and looking them up. After a series of requests that
  all succeed, the descriptor found for a task is the one of its first
  request, and an event on a descriptor reaches the task that asked for it.\<close>

theorem udp_socket_lookup:
  assumes "rfold (\<lambda>(s_res, t). \<lambda>(u, s). udp_eNB_create_socket s_res True pt ip t u s) xs (udp_enb_init, s)
      = Inr (u, s')"
  shows "map_option sd (udp_eNB_get_socket_desc t u) = map_of (map (\<lambda>(d, t). (t, d)) xs) t \<and>
    map_option task_of (find (\<lambda>d. sd d = fd) (udp_socket_list u)) = map_of xs fd"
proof -
  have "map (\<lambda>d. (sd d, task_of d)) (udp_socket_list u) = map (\<lambda>d. (sd d, task_of d)) (udp_socket_list u0) @ xs"
    if "rfold (\<lambda>(s_res, t). \<lambda>(u, s). udp_eNB_create_socket s_res True pt ip t u s) xs (u0, s) = Inr (u, s')"
    for u0
    using that
  proof (induction xs arbitrary: u0 s)
    case Nil
    then show ?case by simp
  next
    case (Cons x xs)
    obtain f t where x: "x = (f, t)" by (cases x)
    from Cons.prems obtain u1 s1 where
      c: "udp_eNB_create_socket f True pt ip t u0 s = Inr (u1, s1)" and
      r: "rfold (\<lambda>(s_res, t). \<lambda>(u, s). udp_eNB_create_socket s_res True pt ip t u s) xs (u1, s1) = Inr (u, s')"
      by (auto simp: x rbind_Inr_conv)
    from c have "map (\<lambda>d. (sd d, task_of d)) (udp_socket_list u1) =
        map (\<lambda>d. (sd d, task_of d)) (udp_socket_list u0) @ [(f, t)]"
      by (auto simp: udp_eNB_create_socket_def Let_def rbind_Inr_conv split: if_splits)
    with Cons.IH [OF r] x show ?case by simp
  qed
  from this [OF assms(1)] have l: "map (\<lambda>d. (sd d, task_of d)) (udp_socket_list u) = xs"
    by (simp add: udp_enb_init_def)
  have f: "map_option g (find (\<lambda>d. k d = x) ds) = map_of (map (\<lambda>d. (k d, g d)) ds) x"
    for g :: "udp_socket_desc \<Rightarrow> 'b" and k :: "udp_socket_desc \<Rightarrow> 'c" and ds x
    by (induction ds) auto
  have "map_option sd (udp_eNB_get_socket_desc t u) =
      map_of (map (\<lambda>(d, t). (t, d)) (map (\<lambda>d. (sd d, task_of d)) (udp_socket_list u))) t"
    unfolding udp_eNB_get_socket_desc_def by (simp add: f comp_def)
  moreover have "map_option task_of (find (\<lambda>d. sd d = fd) (udp_socket_list u)) =
      map_of (map (\<lambda>d. (sd d, task_of d)) (udp_socket_list u)) fd"
    by (rule f)
  ultimately show ?thesis unfolding l by blast
qed

lemma udp_socket_lookup_witness:
  "\<exists>u s'. rfold (\<lambda>(s_res, t). \<lambda>(u, s). udp_eNB_create_socket s_res True 2152 4 t u s)
      [(7, TASK_GTPV1_U), (8, TASK_S1AP)] (udp_enb_init, itti_empty) = Inr (u, s') \<and>
    map_option sd (udp_eNB_get_socket_desc TASK_S1AP u) = Some 8 \<and>
    map_option task_of (find (\<lambda>d. sd d = 7) (udp_socket_list u)) = Some TASK_GTPV1_U"
proof -
  obtain u s' where r: "rfold (\<lambda>(s_res, t). \<lambda>(u, s). udp_eNB_create_socket s_res True 2152 4 t u s)
      [(7, TASK_GTPV1_U), (8, TASK_S1AP)] (udp_enb_init, itti_empty) = Inr (u, s')"
    by (simp add: udp_eNB_create_socket_def NULL_def itti_subscribe_event_fd_def itti_empty_def fresh_task_def)
  show ?thesis
    using r udp_socket_lookup [OF r, of TASK_S1AP 7] by auto
qed

end
