(* ===== verification/Attach.thy ===== *)
theory Attach
  imports Prelude
begin

text \<open>
  The attach procedure of the MME (\<^verbatim>\<open>src/openair-cn/src/nas/emm/Attach.c\<close>).

  \<^item> EMM contexts and the data of the timer T3450 are blocks on two heaps; the code works on
    pointers to them, and following a pointer to a block that was freed is an error, as is a null
    pointer. A context on the stack is passed by value.
  \<^item> What the procedure calls outside this file is the record \<open>emm_env\<close> of functions on the state:
    the service access points of EMM and ESM, the tables of contexts, the common procedures, timers,
    and the allocation of a GUTI. They may change anything in the state, also free contexts. The
    state has a component \<open>world\<close> of their own.
  \<^item> The small accessors of the context (\<^verbatim>\<open>emm_ctx_clear_guti\<close>, \<^verbatim>\<open>emm_ctx_set_valid_imsi\<close> and so on) are
    field updates: an attribute has a value, and the flags present and valid.
  \<^item> \<^verbatim>\<open>calloc\<close> is assumed to succeed. The branches under \<^verbatim>\<open>ORIGINAL_CODE\<close> are not compiled.
  \<^item> Log messages have no effect, except that their arguments are evaluated: a message that prints a
    GUTI through a null pointer is an error.
  \<^item> \<open>sap_log\<close> records the primitives sent to the EMM service access point, \<open>drb_forward\<close> the contexts
    forwarded to the DRB task.
\<close>

section \<open>Data\<close>

type_synonym ue = nat
type_synonym aptr = nat

definition INVALID_MME_UE_S1AP_ID :: ue where "INVALID_MME_UE_S1AP_ID = 0"
definition ATTACH_COUNTER_MAX :: nat where "ATTACH_COUNTER_MAX = 5"
definition RETURNok :: int where "RETURNok = 0"
definition RETURNerror :: int where "RETURNerror = - 1"

datatype attach_type = EMM_ATTACH_TYPE_EPS | EMM_ATTACH_TYPE_IMSI | EMM_ATTACH_TYPE_EMERGENCY | EMM_ATTACH_TYPE_RESERVED

datatype emm_fsm_state = EMM_INVALID | EMM_DEREGISTERED | EMM_REGISTERED | EMM_OTHER_STATE

datatype emm_cause =
    EMM_CAUSE_SUCCESS | EMM_CAUSE_IMEI_NOT_ACCEPTED | EMM_CAUSE_NOT_AUTHORIZED_IN_PLMN
  | EMM_CAUSE_ILLEGAL_UE | EMM_CAUSE_ESM_FAILURE | EMM_CAUSE_PROTOCOL_ERROR | EMM_CAUSE_OTHER int

datatype esm_sap_error = ESM_SAP_SUCCESS | ESM_SAP_DISCARDED | ESM_SAP_FAILED | ESM_SAP_UNSET

datatype esm_primitive = ESM_PDN_CONNECTIVITY_REQ | ESM_DEFAULT_EPS_BEARER_CONTEXT_ACTIVATE_CNF

record guti =
  m_tmsi :: u32
  mme_code :: nat
  mme_gid :: nat
  plmn_digits :: "nat list"

type_synonym bytes = "byte list"

record attach_request =
  r_type :: attach_type
  r_additional_update_type :: nat
  r_ksi :: nat
  r_guti :: "guti option"
  r_imsi :: "bytes option"
  r_imei :: "bytes option"
  r_lvr_tai :: "nat option"
  r_tai :: nat
  r_eea :: nat
  r_eia :: nat
  r_ucs2 :: nat
  r_uea :: nat
  r_uia :: nat
  r_gea :: nat
  r_umts_present :: bool
  r_gprs_present :: bool
  r_esm_msg :: "bytes option"

record emm_context =
  ue_id :: ue
  is_dynamic :: bool
  is_emergency :: bool
  attach_type_of :: attach_type
  additional_update_type :: nat
  emm_cause_of :: emm_cause
  num_attach_request :: nat
  fsm_status :: emm_fsm_state
  T3450 :: int
  ue_ksi :: nat
  eea :: nat
  eia :: nat
  ucs2 :: nat
  uea :: nat
  uia :: nat
  gea :: nat
  umts_present :: bool
  gprs_present :: bool
  originating_tai :: nat
  tai_list :: "nat list"
  is_guti_based_attach :: bool
  guti_of :: guti
  guti_present :: bool
  guti_valid :: bool
  old_guti_of :: guti
  old_guti_present :: bool
  imsi_of :: bytes
  imsi_present :: bool
  imsi_valid :: bool
  imsi64 :: nat
  imei_of :: bytes
  imei_valid :: bool
  lvr_tai :: "nat option"
  auth_vectors :: "bool list"
  auth_present :: bool
  auth_valid :: bool
  vector_index :: nat
  security_valid :: bool
  eksi :: "nat option"
  esm_msg :: "bytes option"
  is_attached :: bool
  is_has_been_attached :: bool
  smc_running :: bool
  ident_running :: bool
  spec_attach :: bool
  accept_sent :: bool
  reject_sent :: bool
  selected_algorithms :: "nat \<times> nat"
  tai_list_valid :: bool
  ue_nw_cap_valid :: bool
  ms_nw_cap_valid :: bool
  drx_current :: nat
  drx_current_valid :: bool
  drx_pending :: nat
  drx_pending_present :: bool

record attach_data =
  d_ue_id :: ue
  retransmission_count :: nat
  d_esm_msg :: "bytes option"

datatype emm_sap =
    EMMCN_IMPLICIT_DETACH_UE ue
  | EMMREG_PROC_ABORT ue
  | EMMREG_ATTACH_CNF ue
  | EMMREG_ATTACH_REJ ue
  | EMMAS_ESTABLISH_REJ ue emm_cause "bytes option"
  | EMMAS_ESTABLISH_CNF ue guti "guti option" "nat list" "nat \<times> nat" "bytes option"
  | EMMAS_DATA_REQ ue guti "nat list" "nat \<times> nat" "bytes option"

record 'w mme =
  ctxs :: "aptr \<rightharpoonup> emm_context"
  datas :: "aptr \<rightharpoonup> attach_data"
  brk :: nat
  sap_log :: "emm_sap list"
  drb_forward :: "aptr list"
  world :: 'w

datatype attach_error = Null_Pointer | Dangling_Pointer | Assert_Failed

record 'w emm_env =
  conf_emergency :: bool
  conf_unauthenticated_imsi :: bool
  T_INACTIVE :: int
  MAX_EPS_AUTH_VECTORS :: nat
  EKSI_MAX_VALUE :: nat
  esm_err_zero :: esm_sap_error
  imsi_to_imsi64 :: "bytes \<Rightarrow> nat"
  invalid_imsi64 :: nat
  bstrcpy_ok :: bool
  emm_sap_send :: "emm_sap \<Rightarrow> 'w mme \<Rightarrow> int \<times> 'w mme"
  esm_sap_send :: "esm_primitive \<Rightarrow> ue \<Rightarrow> aptr \<Rightarrow> bytes option \<Rightarrow> 'w mme \<Rightarrow> int \<times> esm_sap_error \<times> bytes option \<times> 'w mme"
  emm_data_context_get :: "ue \<Rightarrow> 'w mme \<Rightarrow> aptr option"
  emm_data_context_get_by_guti :: "guti \<Rightarrow> 'w mme \<Rightarrow> aptr option"
  emm_data_context_get_by_imsi :: "nat \<Rightarrow> 'w mme \<Rightarrow> aptr option"
  emm_data_context_add :: "aptr \<Rightarrow> 'w mme \<Rightarrow> int \<times> 'w mme"
  emm_data_context_add_imsi :: "aptr \<Rightarrow> 'w mme \<Rightarrow> 'w mme"
  emm_data_context_add_guti :: "aptr \<Rightarrow> 'w mme \<Rightarrow> 'w mme"
  clear_emm_ctxt :: "aptr \<Rightarrow> 'w mme \<Rightarrow> 'w mme"
  emm_fsm_get_status :: "ue \<Rightarrow> aptr \<Rightarrow> 'w mme \<Rightarrow> emm_fsm_state"
  emm_fsm_set_status :: "ue \<Rightarrow> aptr \<Rightarrow> emm_fsm_state \<Rightarrow> 'w mme \<Rightarrow> 'w mme"
  emm_proc_common_get_args :: "ue \<Rightarrow> 'w mme \<Rightarrow> aptr option"
  emm_proc_common_clear_args :: "ue \<Rightarrow> 'w mme \<Rightarrow> 'w mme"
  emm_proc_common_initialize :: "ue \<Rightarrow> aptr \<Rightarrow> 'w mme \<Rightarrow> int \<times> 'w mme"
  emm_proc_identification :: "ue \<Rightarrow> aptr \<Rightarrow> 'w mme \<Rightarrow> int \<times> 'w mme"
  emm_proc_authentication :: "aptr \<Rightarrow> ue \<Rightarrow> nat \<Rightarrow> nat \<Rightarrow> 'w mme \<Rightarrow> int \<times> 'w mme"
  emm_proc_security_mode_control :: "ue \<Rightarrow> aptr \<Rightarrow> 'w mme \<Rightarrow> int \<times> 'w mme"
  nas_itti_auth_info_req :: "ue \<Rightarrow> nat \<Rightarrow> nat \<Rightarrow> 'w mme \<Rightarrow> 'w mme"
  nas_itti_detach_req :: "ue \<Rightarrow> 'w mme \<Rightarrow> 'w mme"
  nas_timer_start :: "aptr \<Rightarrow> 'w mme \<Rightarrow> int \<times> 'w mme"
  nas_timer_stop :: "int \<Rightarrow> 'w mme \<Rightarrow> int \<times> 'w mme"
  nas_timer_restart :: "int \<Rightarrow> 'w mme \<Rightarrow> int \<times> 'w mme"
  mme_api_new_guti :: "bytes \<Rightarrow> guti \<Rightarrow> nat \<Rightarrow> 'w mme \<Rightarrow> int \<times> guti \<times> nat list \<times> 'w mme"
  delete_ue_radio_capabilities :: "ue \<Rightarrow> 'w mme \<Rightarrow> 'w mme"

type_synonym 'w res = "attach_error + int \<times> 'w mme"

section \<open>Access to contexts\<close>

definition get_ctx :: "aptr \<Rightarrow> 'w mme \<Rightarrow> attach_error + emm_context" where
  "get_ctx p s = (case ctxs s p of None \<Rightarrow> Inl Dangling_Pointer | Some c \<Rightarrow> Inr c)"

definition upd_ctx :: "aptr \<Rightarrow> (emm_context \<Rightarrow> emm_context) \<Rightarrow> 'w mme \<Rightarrow> attach_error + 'w mme" where
  "upd_ctx p f s = (case ctxs s p of None \<Rightarrow> Inl Dangling_Pointer
     | Some c \<Rightarrow> Inr (s\<lparr>ctxs := (ctxs s)(p \<mapsto> f c)\<rparr>))"

definition get_data :: "aptr option \<Rightarrow> 'w mme \<Rightarrow> attach_error + attach_data" where
  "get_data d s = (case d of None \<Rightarrow> Inl Null_Pointer
     | Some p \<Rightarrow> (case datas s p of None \<Rightarrow> Inl Dangling_Pointer | Some x \<Rightarrow> Inr x))"

definition sap_send :: "'w emm_env \<Rightarrow> emm_sap \<Rightarrow> 'w mme \<Rightarrow> int \<times> 'w mme" where
  "sap_send env x s = emm_sap_send env x (s\<lparr>sap_log := sap_log s @ [x]\<rparr>)"

section \<open>Release, reject, abort\<close>

definition emm_attach_release :: "'w emm_env \<Rightarrow> aptr option \<Rightarrow> 'w mme \<Rightarrow> 'w res" where
  "emm_attach_release env ctx s =
     (case ctx of
        None \<Rightarrow> Inr (RETURNerror, s)
      | Some p \<Rightarrow> rbind (get_ctx p s) (\<lambda>c.
          let (rc, s1) = sap_send env (EMMREG_PROC_ABORT (ue_id c)) s
          in rbind (get_ctx p s1) (\<lambda>_. Inr (rc, clear_emm_ctxt env p s1))))"

text \<open>The message to be sent; \<open>None\<close>: the ESM message is missing and the function returns early.\<close>

definition reject_sap :: "'w emm_env \<Rightarrow> emm_context \<Rightarrow> 'w mme \<Rightarrow> attach_error + emm_sap option" where
  "reject_sap env c s =
     (if emm_cause_of c \<noteq> EMM_CAUSE_ESM_FAILURE then Inr (Some (EMMAS_ESTABLISH_REJ (ue_id c) (emm_cause_of c) None))
      else if esm_msg c \<noteq> None then
        rbind (get_data (emm_proc_common_get_args env (ue_id c) s) s) (\<lambda>d.
          Inr (Some (EMMAS_ESTABLISH_REJ (ue_id c) (emm_cause_of c) (d_esm_msg d))))
      else Inr None)"

text \<open>For a context on the stack, which is not dynamic.\<close>

definition emm_attach_reject_tmp :: "'w emm_env \<Rightarrow> emm_context \<Rightarrow> 'w mme \<Rightarrow> 'w res" where
  "emm_attach_reject_tmp env c s =
     rbind (reject_sap env c s) (\<lambda>x. case x of None \<Rightarrow> Inr (RETURNerror, s) | Some m \<Rightarrow> Inr (sap_send env m s))"

definition emm_attach_reject :: "'w emm_env \<Rightarrow> aptr option \<Rightarrow> 'w mme \<Rightarrow> 'w res" where
  "emm_attach_reject env ctx s =
     (case ctx of
        None \<Rightarrow> Inr (RETURNerror, s)
      | Some p \<Rightarrow> rbind (get_ctx p s) (\<lambda>c. rbind (reject_sap env c s) (\<lambda>x. case x of
            None \<Rightarrow> Inr (RETURNerror, s)
          | Some m \<Rightarrow> (let (rc, s1) = sap_send env m s in
              rbind (get_ctx p s1) (\<lambda>c1.
                if is_dynamic c1 then emm_attach_release env (Some p) s1 else Inr (rc, s1))))))"

definition emm_attach_abort :: "'w emm_env \<Rightarrow> aptr option \<Rightarrow> 'w mme \<Rightarrow> 'w res" where
  "emm_attach_abort env args s =
     (case args of
        None \<Rightarrow> Inr (RETURNerror, s)
      | Some d \<Rightarrow> rbind (get_data (Some d) s) (\<lambda>dat.
          case emm_data_context_get env (d_ue_id dat) s of
            None \<Rightarrow> Inr (RETURNerror, s)
          | Some p \<Rightarrow> rbind (get_ctx p s) (\<lambda>c.
              let (tid, s1) = (if T3450 c \<noteq> T_INACTIVE env then nas_timer_stop env (T3450 c) s else (T3450 c, s)) in
              rbind (upd_ctx p (\<lambda>c. c\<lparr>T3450 := tid\<rparr>) s1) (\<lambda>s2.
                let s3 = s2\<lparr>datas := (datas s2)(d := None)\<rparr> in
                rbind (get_ctx p s3) (\<lambda>c3. Inr (sap_send env (EMMCN_IMPLICIT_DETACH_UE (ue_id c3)) s3))))))"

section \<open>Attach accept and its timer\<close>

definition emm_attach_accept_retx :: "'w emm_env \<Rightarrow> aptr option \<Rightarrow> aptr option \<Rightarrow> 'w mme \<Rightarrow> 'w res" where
  "emm_attach_accept_retx env ctx data s =
     (case ctx of
        None \<Rightarrow> Inr (RETURNerror, s)
      | Some p \<Rightarrow> rbind (get_ctx p s) (\<lambda>c.
          if \<not> guti_present c then Inr (RETURNerror, s)
          else rbind (get_data data s) (\<lambda>d.
            let (rc, s1) = sap_send env (EMMAS_DATA_REQ (ue_id c) (guti_of c) (tai_list c) (selected_algorithms c) (d_esm_msg d)) s in
            if rc \<noteq> RETURNerror then
              rbind (get_ctx p s1) (\<lambda>c1.
                let (tid, s2) = nas_timer_restart env (T3450 c1) s1 in
                rbind (upd_ctx p (\<lambda>c. c\<lparr>T3450 := tid\<rparr>) s2) (\<lambda>s3. Inr (rc, s3)))
            else Inr (rc, s1))))"

text \<open>The attach accept makes the capabilities valid and the pending DRX parameter the current one.\<close>

definition accept_caps :: "emm_context \<Rightarrow> emm_context" where
  "accept_caps c = c\<lparr>ue_nw_cap_valid := True, ms_nw_cap_valid := True, drx_current := drx_pending c, drx_current_valid := True,
     drx_pending := 0, drx_pending_present := False\<rparr>"

text \<open>The GUTI part of the attach accept: whether it goes on. The function that makes a GUTI from the identity, the old GUTI and the
  tracking area writes the list of tracking areas of the context in any case.\<close>

definition accept_guti :: "'w emm_env \<Rightarrow> aptr \<Rightarrow> 'w mme \<Rightarrow> attach_error + bool \<times> 'w mme" where
  "accept_guti env p s = rbind (get_ctx p s) (\<lambda>c.
     if \<not> guti_present c then
       (case mme_api_new_guti env (imsi_of c) (old_guti_of c) (originating_tai c) s of
          (rc, g, tais, s1) \<Rightarrow>
            rbind (upd_ctx p (\<lambda>c. c\<lparr>tai_list := tais\<rparr>) s1) (\<lambda>s2.
              if rc = RETURNok
              then rbind (upd_ctx p (\<lambda>c. c\<lparr>guti_of := g, guti_present := True, tai_list_valid := True\<rparr>) s2) (\<lambda>s3. Inr (True, s3))
              else Inr (False, s2)))
     else Inr (True, s))"

definition emm_attach_accept :: "'w emm_env \<Rightarrow> aptr option \<Rightarrow> aptr option \<Rightarrow> 'w mme \<Rightarrow> 'w res" where
  "emm_attach_accept env ctx data s =
     (case ctx of
        None \<Rightarrow> Inr (RETURNerror, s)
      | Some p \<Rightarrow> rbind (upd_ctx p accept_caps s) (\<lambda>s0.
          rbind (accept_guti env p s0) (\<lambda>(ok, s1).
          if \<not> ok then Inr (RETURNerror, s1)
          else rbind (get_ctx p s1) (\<lambda>c.
            let new_guti = (if \<not> guti_valid c \<and> guti_present c then Some (guti_of c) else None);
                s2 = delete_ue_radio_capabilities env (ue_id c) s1 in
            rbind (get_data data s2) (\<lambda>d.
              let (rc, s3) = sap_send env
                    (EMMAS_ESTABLISH_CNF (ue_id c) (guti_of c) new_guti (tai_list c) (selected_algorithms c) (d_esm_msg d)) s2 in
              if rc \<noteq> RETURNerror then
                rbind (get_ctx p s3) (\<lambda>c3.
                  let (tid, s4) = (if T3450 c3 \<noteq> T_INACTIVE env then nas_timer_restart env (T3450 c3) s3
                                   else (case data of Some dp \<Rightarrow> nas_timer_start env dp s3 | None \<Rightarrow> (T3450 c3, s3))) in
                  rbind (upd_ctx p (\<lambda>c. c\<lparr>T3450 := tid\<rparr>) s4) (\<lambda>s5. Inr (rc, s5)))
              else Inr (rc, s3))))))"

definition emm_cn_wrapper_attach_accept :: "'w emm_env \<Rightarrow> aptr option \<Rightarrow> aptr option \<Rightarrow> 'w mme \<Rightarrow> 'w res" where
  "emm_cn_wrapper_attach_accept = emm_attach_accept"

definition emm_attach_t3450_handler :: "'w emm_env \<Rightarrow> aptr \<Rightarrow> 'w mme \<Rightarrow> 'w res" where
  "emm_attach_t3450_handler env args s =
     rbind (get_data (Some args) s) (\<lambda>d0.
       let d = d0\<lparr>retransmission_count := retransmission_count d0 + 1\<rparr>;
           s1 = s\<lparr>datas := (datas s)(args \<mapsto> d)\<rparr> in
       if retransmission_count d < ATTACH_COUNTER_MAX
       then emm_attach_accept_retx env (emm_data_context_get env (d_ue_id d) s1) (Some args) s1
       else emm_attach_abort env (Some args) s1)"

section \<open>Attach, security, identification\<close>

definition new_data :: "'w mme \<Rightarrow> aptr \<times> 'w mme" where
  "new_data s = (brk s, s\<lparr>datas := (datas s)(brk s \<mapsto> \<lparr>d_ue_id = 0, retransmission_count = 0, d_esm_msg = None\<rparr>),
                          brk := Suc (brk s)\<rparr>)"

text \<open>The last part of \<^verbatim>\<open>_emm_attach\<close>.\<close>

definition attach_failed :: "'w emm_env \<Rightarrow> aptr \<Rightarrow> int \<times> 'w mme \<Rightarrow> 'w res" where
  "attach_failed env p r = (case r of (rc, s) \<Rightarrow>
     if rc \<noteq> RETURNok then
       rbind (upd_ctx p (\<lambda>c. c\<lparr>emm_cause_of := EMM_CAUSE_PROTOCOL_ERROR\<rparr>) s) (emm_attach_reject env (Some p))
     else Inr (rc, s))"

definition emm_attach :: "'w emm_env \<Rightarrow> aptr \<Rightarrow> 'w mme \<Rightarrow> 'w res" where
  "emm_attach env p s =
     rbind (get_ctx p s) (\<lambda>c.
       case esm_sap_send env ESM_PDN_CONNECTIVITY_REQ (ue_id c) p (esm_msg c) s of (rc, err, snd_msg, s1) \<Rightarrow>
       if rc \<noteq> RETURNerror \<and> err = ESM_SAP_SUCCESS then
         (let (d, s2) = new_data s1 in
          rbind (get_ctx p s2) (\<lambda>c2.
            let (rc2, s3) = emm_proc_common_initialize env (ue_id c2) d s2 in
            if rc2 \<noteq> RETURNok then Inr (RETURNerror, s3\<lparr>datas := (datas s3)(d := None)\<rparr>)
            else rbind (get_ctx p s3) (\<lambda>c3.
              Inr (RETURNok, s3\<lparr>datas := (datas s3)(d \<mapsto> \<lparr>d_ue_id = ue_id c3, retransmission_count = 0,
                                                        d_esm_msg = None\<rparr>)\<rparr>))))
       else if err \<noteq> ESM_SAP_DISCARDED then
         rbind (upd_ctx p (\<lambda>c. c\<lparr>emm_cause_of := EMM_CAUSE_ESM_FAILURE, esm_msg := snd_msg\<rparr>) s1) (\<lambda>s2.
           rbind (emm_attach_reject env (Some p) s2) (attach_failed env p))
       else Inr (RETURNok, s1))"

definition emm_attach_security :: "'w emm_env \<Rightarrow> aptr \<Rightarrow> 'w mme \<Rightarrow> 'w res" where
  "emm_attach_security env p s =
     rbind (upd_ctx p (\<lambda>c. c\<lparr>security_valid := False, eksi := None\<rparr>) s) (\<lambda>s1.
       rbind (get_ctx p s1) (\<lambda>c.
         let (rc, s2) = emm_proc_security_mode_control env (ue_id c) p s1 in
         if rc \<noteq> RETURNok then
           rbind (upd_ctx p (\<lambda>c. c\<lparr>emm_cause_of := EMM_CAUSE_ILLEGAL_UE\<rparr>) s2) (emm_attach_reject env (Some p))
         else Inr (rc, s2)))"

text \<open>The index of the first vector that is present, or the number of vectors.\<close>

definition vector_search :: "'w emm_env \<Rightarrow> emm_context \<Rightarrow> nat" where
  "vector_search env c = length (takeWhile Not (take (MAX_EPS_AUTH_VECTORS env) (auth_vectors c)))"

definition start_identification :: "'w emm_env \<Rightarrow> aptr \<Rightarrow> ue \<Rightarrow> 'w mme \<Rightarrow> 'w res" where
  "start_identification env p u s =
     (let (rc, s1) = emm_proc_identification env u p s in
      if rc \<noteq> RETURNok then
        rbind (upd_ctx p (\<lambda>c. c\<lparr>emm_cause_of := EMM_CAUSE_ILLEGAL_UE\<rparr>) s1) (emm_attach_reject env (Some p))
      else Inr (rc, s1))"

text \<open>The part of \<^verbatim>\<open>_emm_attach_identify\<close> after the branches that return.\<close>

definition identify_rest :: "'w emm_env \<Rightarrow> aptr \<Rightarrow> int \<Rightarrow> 'w mme \<Rightarrow> 'w res" where
  "identify_rest env p rc s =
     rbind (if rc \<noteq> RETURNerror then
              rbind (get_ctx p s) (\<lambda>c.
                if security_valid c then emm_attach env p s
                else if is_emergency c \<and> conf_unauthenticated_imsi env then emm_attach_security env p s
                else Inr (rc, s))
            else Inr (rc, s)) (\<lambda>(rc1, s1).
       if rc1 \<noteq> RETURNok then emm_attach_reject env (Some p) s1 else Inr (rc1, s1))"

definition emm_attach_identify :: "'w emm_env \<Rightarrow> aptr \<Rightarrow> 'w mme \<Rightarrow> 'w res" where
  "emm_attach_identify env p s =
     rbind (get_ctx p s) (\<lambda>c.
       if imsi_present c then
         (if \<not> auth_present c then
            identify_rest env p RETURNok (nas_itti_auth_info_req env (ue_id c) (imsi64 c) (originating_tai c) s)
          else
            let ek = (case eksi c of Some k \<Rightarrow> (k + 1) mod (EKSI_MAX_VALUE env + 1) | None \<Rightarrow> 0); v = vector_search env c in
            rbind (upd_ctx p (\<lambda>c. c\<lparr>vector_index := v\<rparr>) s) (\<lambda>s1.
              Inr (emm_proc_authentication env p (ue_id c) ek v s1)))
       else if guti_present c then
         rbind (upd_ctx p (\<lambda>c. c\<lparr>auth_valid := False\<rparr>) s) (start_identification env p (ue_id c))
       else if is_guti_based_attach c then start_identification env p (ue_id c) s
       else if imei_valid c \<and> is_emergency c then Inl Assert_Failed
       else rbind (upd_ctx p (\<lambda>c. c\<lparr>emm_cause_of := EMM_CAUSE_ILLEGAL_UE\<rparr>) s) (identify_rest env p RETURNerror))"

section \<open>Comparing and storing the parameters of a request\<close>

text \<open>A context that has a GUTI while the request has none: the log message prints the missing GUTI.\<close>

definition emm_attach_have_changed :: "emm_context \<Rightarrow> attach_request \<Rightarrow> attach_error + bool" where
  "emm_attach_have_changed ctx r =
     (if (r_type r = EMM_ATTACH_TYPE_EMERGENCY) \<noteq> is_emergency ctx then Inr True
      else if r_ksi r \<noteq> ue_ksi ctx then Inr True
      else if r_eea r \<noteq> eea ctx then Inr True
      else if r_eia r \<noteq> eia ctx then Inr True
      else if r_umts_present r \<noteq> umts_present ctx then Inr True
      else if umts_present ctx \<and> r_umts_present r \<and>
              (r_ucs2 r \<noteq> ucs2 ctx \<or> r_uea r \<noteq> uea ctx \<or> r_uia r \<noteq> uia ctx) then Inr True
      else if r_gprs_present r \<noteq> gprs_present ctx then Inr True
      else if gprs_present ctx \<and> r_gprs_present r \<and> r_gea r \<noteq> gea ctx then Inr True
      else if r_guti r \<noteq> None \<and> \<not> old_guti_present ctx then Inr True
      else if r_guti r = None \<and> guti_present ctx then Inl Null_Pointer
      else if guti_present ctx \<and> (case r_guti r of None \<Rightarrow> False | Some g \<Rightarrow>
                m_tmsi g \<noteq> m_tmsi (guti_of ctx) \<or> mme_code g \<noteq> mme_code (guti_of ctx) \<or>
                mme_gid g \<noteq> mme_gid (guti_of ctx) \<or> plmn_digits g \<noteq> plmn_digits (guti_of ctx)) then Inr True
      else if (r_imsi r \<noteq> None) \<noteq> imsi_valid ctx then Inr True
      else if imsi_valid ctx \<and> r_imsi r \<noteq> Some (imsi_of ctx) then Inr True
      else if (r_imei r \<noteq> None) \<noteq> imei_valid ctx then Inr True
      else if imei_valid ctx \<and> r_imei r \<noteq> Some (imei_of ctx) then Inr True
      else Inr False)"

text \<open>The update of the context itself.\<close>

definition update_fields :: "ue \<Rightarrow> attach_request \<Rightarrow> emm_context \<Rightarrow> emm_context" where
  "update_fields u r c = c\<lparr>ue_id := u, is_emergency := (r_type r = EMM_ATTACH_TYPE_EMERGENCY), ue_ksi := r_ksi r,
     eea := r_eea r, eia := r_eia r, ucs2 := r_ucs2 r, uea := r_uea r, uia := r_uia r, gea := r_gea r,
     umts_present := r_umts_present r, gprs_present := r_gprs_present r, originating_tai := r_tai r,
     is_guti_based_attach := (r_guti r \<noteq> None)\<rparr>"

definition emm_attach_update :: "'w emm_env \<Rightarrow> aptr \<Rightarrow> ue \<Rightarrow> attach_request \<Rightarrow> 'w mme \<Rightarrow> 'w res" where
  "emm_attach_update env p u r s =
     rbind (upd_ctx p (update_fields u r) s) (\<lambda>s1.
     rbind (get_ctx p s1) (\<lambda>c.
     rbind (case r_imsi r of
              Some i \<Rightarrow> if imsi_to_imsi64 env i \<noteq> imsi64 c
                then rbind (upd_ctx p (\<lambda>c. c\<lparr>imsi_of := i, imsi_present := True, imsi_valid := True,
                                           imsi64 := imsi_to_imsi64 env i\<rparr>) s1)
                       (\<lambda>s2. Inr (emm_data_context_add_imsi env p s2))
                else Inr s1
            | None \<Rightarrow> Inr s1) (\<lambda>s3.
     rbind (case r_imei r of
              Some i \<Rightarrow> upd_ctx p (\<lambda>c. c\<lparr>imei_of := i, imei_valid := True\<rparr>) s3
            | None \<Rightarrow> Inr s3) (\<lambda>s4.
     case r_esm_msg r of
       Some m \<Rightarrow> if bstrcpy_ok env
         then rbind (upd_ctx p (\<lambda>c. c\<lparr>esm_msg := Some m, is_attached := False\<rparr>) s4) (\<lambda>s5. Inr (RETURNok, s5))
         else rbind (upd_ctx p (\<lambda>c. c\<lparr>esm_msg := None\<rparr>) s4) (\<lambda>s5. Inr (RETURNerror, s5))
     | None \<Rightarrow> rbind (upd_ctx p (\<lambda>c. c\<lparr>is_attached := False\<rparr>) s4) (\<lambda>s5. Inr (RETURNok, s5))))))"

section \<open>Attach request\<close>

text \<open>A context with all bytes zero, as \<^verbatim>\<open>memset\<close> and \<^verbatim>\<open>calloc\<close> leave it.\<close>

definition zero_guti :: guti where
  "zero_guti = \<lparr>m_tmsi = 0, mme_code = 0, mme_gid = 0, plmn_digits = [0, 0, 0, 0, 0, 0]\<rparr>"

definition zero_context :: emm_context where
  "zero_context = \<lparr>ue_id = 0, is_dynamic = False, is_emergency = False, attach_type_of = EMM_ATTACH_TYPE_EPS,
     additional_update_type = 0, emm_cause_of = EMM_CAUSE_OTHER 0, num_attach_request = 0, fsm_status = EMM_INVALID,
     T3450 = 0, ue_ksi = 0, eea = 0, eia = 0, ucs2 = 0, uea = 0, uia = 0, gea = 0, umts_present = False,
     gprs_present = False, originating_tai = 0, tai_list = [], is_guti_based_attach = False, guti_of = zero_guti,
     guti_present = False, guti_valid = False, old_guti_of = zero_guti, old_guti_present = False, imsi_of = [], imsi_present = False,
     imsi_valid = False, imsi64 = 0, imei_of = [], imei_valid = False, lvr_tai = None, auth_vectors = [],
     auth_present = False, auth_valid = False, vector_index = 0, security_valid = False, eksi = None, esm_msg = None,
     is_attached = False, is_has_been_attached = False, smc_running = False, ident_running = False,
     spec_attach = False, accept_sent = False, reject_sent = False, selected_algorithms = (0, 0), tai_list_valid = False,
     ue_nw_cap_valid = False, ms_nw_cap_valid = False, drx_current = 0, drx_current_valid = False, drx_pending = 0,
     drx_pending_present = False\<rparr>"

definition new_context :: "'w emm_env \<Rightarrow> ue \<Rightarrow> attach_request \<Rightarrow> emm_context" where
  "new_context env u r = zero_context\<lparr>num_attach_request := 1, ue_id := u, is_dynamic := True,
     attach_type_of := r_type r, additional_update_type := r_additional_update_type r,
     emm_cause_of := EMM_CAUSE_SUCCESS, T3450 := T_INACTIVE env, imsi64 := invalid_imsi64 env\<rparr>"

definition create_context :: "'w emm_env \<Rightarrow> ue \<Rightarrow> attach_request \<Rightarrow> 'w mme \<Rightarrow> 'w res" where
  "create_context env u r s =
     (let p = brk s;
          s1 = emm_fsm_set_status env u p EMM_DEREGISTERED
                 (s\<lparr>ctxs := (ctxs s)(p \<mapsto> new_context env u r), brk := Suc p\<rparr>);
          (rc, s2) = emm_data_context_add env p s1
      in if rc \<noteq> RETURNok then Inr (RETURNerror, s2)
         else rbind (upd_ctx p (\<lambda>c. c\<lparr>lvr_tai := r_lvr_tai r\<rparr>) s2) (\<lambda>s3.
           rbind (emm_attach_update env p u r s3) (\<lambda>(rc2, s4).
             if rc2 \<noteq> RETURNok then
               rbind (upd_ctx p (\<lambda>c. c\<lparr>emm_cause_of := EMM_CAUSE_ILLEGAL_UE\<rparr>) s4) (emm_attach_reject env (Some p))
             else emm_attach_identify env p s4)))"

definition implicit_detach :: "'w emm_env \<Rightarrow> ue \<Rightarrow> 'w mme \<Rightarrow> 'w mme" where
  "implicit_detach env u s = snd (sap_send env (EMMCN_IMPLICIT_DETACH_UE u) s)"

definition abort_detach :: "'w emm_env \<Rightarrow> ue \<Rightarrow> ue \<Rightarrow> 'w mme \<Rightarrow> 'w mme" where
  "abort_detach env u old s = implicit_detach env old (snd (sap_send env (EMMREG_PROC_ABORT u) s))"

text \<open>What happens to the context that is known under the IMSI of the request: the state to go on with,
  or the result of an early return.\<close>

datatype 'w old_ctx = Go_On "'w mme" | Return "int \<times> 'w mme"

text \<open>The security mode and the identification procedure may be running.\<close>

definition stop_common :: "'w emm_env \<Rightarrow> aptr \<Rightarrow> ue \<Rightarrow> 'w mme \<Rightarrow> attach_error + 'w mme" where
  "stop_common env p old s =
     rbind (get_ctx p s) (\<lambda>c.
     let s1 = (if smc_running c then abort_detach env (ue_id c) old s else s) in
     rbind (get_ctx p s1) (\<lambda>c1.
       if ident_running c1 \<and> spec_attach c1 \<and> \<not> (accept_sent c1 \<or> reject_sent c1)
       then Inr (abort_detach env (ue_id c1) old s1) else Inr s1))"

text \<open>The request repeats an earlier one, or changes its parameters.\<close>

definition repeated_request ::
  "'w emm_env \<Rightarrow> aptr \<Rightarrow> ue \<Rightarrow> emm_fsm_state \<Rightarrow> ue \<Rightarrow> attach_request \<Rightarrow> 'w mme \<Rightarrow> attach_error + 'w old_ctx" where
  "repeated_request env p old st u r s =
     rbind (get_ctx p s) (\<lambda>c.
       if st = EMM_REGISTERED then
         Inr (Go_On (if is_has_been_attached c then implicit_detach env (ue_id c) s else s))
       else if accept_sent c then
         rbind (upd_ctx p (\<lambda>c. c\<lparr>num_attach_request := num_attach_request c + 1\<rparr>) s) (\<lambda>s1.
         rbind (get_ctx p s1) (\<lambda>c1.
         rbind (emm_attach_have_changed c1 r) (\<lambda>ch.
           if ch then Inr (Go_On (abort_detach env old old s1))
           else
             rbind (upd_ctx p (\<lambda>c. c\<lparr>num_attach_request := num_attach_request c + 1\<rparr>) s1) (\<lambda>s2.
             rbind (emm_attach_accept_retx env (Some p) (emm_proc_common_get_args env u s2) s2) (\<lambda>(rc, s3).
               Inr (Return (RETURNok, nas_itti_detach_req env u s3)))))))
       else if 0 < num_attach_request c \<and> \<not> reject_sent c then
         rbind (emm_attach_have_changed c r) (\<lambda>ch.
           if ch then Inr (Go_On (abort_detach env old old s))
           else Inr (Return (RETURNok, nas_itti_detach_req env u s)))
       else Inr (Go_On s))"

definition old_context :: "'w emm_env \<Rightarrow> ue \<Rightarrow> attach_request \<Rightarrow> aptr \<Rightarrow> 'w mme \<Rightarrow> attach_error + 'w old_ctx" where
  "old_context env u r p s =
     rbind (get_ctx p s) (\<lambda>c.
       let old = ue_id c; st = emm_fsm_get_status env old p s in
       rbind (stop_common env p old s) (repeated_request env p old st u r))"

definition guti_cleanup :: "'w emm_env \<Rightarrow> attach_request \<Rightarrow> 'w mme \<Rightarrow> attach_error + 'w mme" where
  "guti_cleanup env r s =
     (case r_guti r of
        None \<Rightarrow> Inr s
      | Some g \<Rightarrow> (case emm_data_context_get_by_guti env g s of
          None \<Rightarrow> Inr s
        | Some p \<Rightarrow> rbind (get_ctx p s) (\<lambda>c. Inr (implicit_detach env (ue_id c) s))))"

definition emm_proc_attach_request :: "'w emm_env \<Rightarrow> ue \<Rightarrow> attach_request \<Rightarrow> 'w mme \<Rightarrow> 'w res" where
  "emm_proc_attach_request env u r s =
     (if \<not> conf_emergency env \<and> r_type r = EMM_ATTACH_TYPE_EMERGENCY then
        emm_attach_reject_tmp env (zero_context\<lparr>ue_id := u, emm_cause_of :=
          (if r_imei r \<noteq> None then EMM_CAUSE_IMEI_NOT_ACCEPTED else EMM_CAUSE_NOT_AUTHORIZED_IN_PLMN)\<rparr>) s
      else
        (case emm_data_context_get env u s of
           Some p \<Rightarrow> emm_attach_reject env (Some p) s
         | None \<Rightarrow>
             rbind (guti_cleanup env r s) (\<lambda>s1.
             case r_imsi r of
               None \<Rightarrow> if r_guti r \<noteq> None then create_context env u r s1 else Inr (RETURNerror, s1)
             | Some i \<Rightarrow>
                 (case emm_data_context_get_by_imsi env (imsi_to_imsi64 env i) s1 of
                    None \<Rightarrow> create_context env u r s1
                  | Some p \<Rightarrow>
                      rbind (old_context env u r p s1) (\<lambda>oc. case oc of
                        Return x \<Rightarrow> Inr x
                      | Go_On s2 \<Rightarrow> create_context env u r s2)))))"

section \<open>Reject and complete\<close>

definition emm_proc_attach_reject :: "'w emm_env \<Rightarrow> ue \<Rightarrow> emm_cause \<Rightarrow> 'w mme \<Rightarrow> 'w res" where
  "emm_proc_attach_reject env u cause s =
     (if u = INVALID_MME_UE_S1AP_ID then
        emm_attach_reject_tmp env (zero_context\<lparr>ue_id := u, emm_cause_of := EMM_CAUSE_ILLEGAL_UE\<rparr>) s
      else (case emm_data_context_get env u s of
          None \<Rightarrow> Inl Null_Pointer
        | Some p \<Rightarrow> rbind (upd_ctx p (\<lambda>c. c\<lparr>emm_cause_of := cause\<rparr>) s) (emm_attach_reject env (Some p))))"

text \<open>The confirmation to ESM; without a context the error of the zero-initialised structure remains.\<close>

definition complete_esm ::
  "'w emm_env \<Rightarrow> ue \<Rightarrow> bytes option \<Rightarrow> 'w mme \<Rightarrow> attach_error + int \<times> esm_sap_error \<times> aptr option \<times> 'w mme" where
  "complete_esm env u m s =
     (case emm_data_context_get env u s of
        None \<Rightarrow> Inr (RETURNerror, esm_err_zero env, None, s)
      | Some p \<Rightarrow> rbind (get_ctx p s) (\<lambda>c.
          let (tid, s1) = nas_timer_stop env (T3450 c) s in
          rbind (upd_ctx p (\<lambda>c. c\<lparr>T3450 := tid, guti_valid := True\<rparr>) s1) (\<lambda>s2.
          rbind (upd_ctx p (\<lambda>c. c\<lparr>old_guti_present := False\<rparr>) (emm_data_context_add_guti env p s2)) (\<lambda>s3.
          case esm_sap_send env ESM_DEFAULT_EPS_BEARER_CONTEXT_ACTIVATE_CNF u p m s3 of
            (rc, err, _, s4) \<Rightarrow> Inr (rc, err, Some p, s4)))))"

definition emm_proc_attach_complete :: "'w emm_env \<Rightarrow> ue \<Rightarrow> bytes option \<Rightarrow> 'w mme \<Rightarrow> 'w res" where
  "emm_proc_attach_complete env u m s0 =
     rbind (complete_esm env u m (emm_proc_common_clear_args env u s0)) (\<lambda>(rc, err, ctx, s).
       if rc \<noteq> RETURNerror \<and> err = ESM_SAP_SUCCESS then
         (case ctx of
            None \<Rightarrow> Inl Null_Pointer
          | Some p \<Rightarrow> rbind (upd_ctx p (\<lambda>c. c\<lparr>is_attached := True, is_has_been_attached := True\<rparr>) s) (\<lambda>s1.
              let (rc1, s2) = sap_send env (EMMREG_ATTACH_CNF u) s1
              in Inr (rc1, s2\<lparr>drb_forward := drb_forward s2 @ [p]\<rparr>)))
       else if err \<noteq> ESM_SAP_DISCARDED then Inr (sap_send env (EMMREG_ATTACH_REJ u) s)
       else Inr (RETURNok, s))"

section \<open>Sample data\<close>

definition demo_env :: "unit emm_env" where
  "demo_env = \<lparr>conf_emergency = False, conf_unauthenticated_imsi = False, T_INACTIVE = -1, MAX_EPS_AUTH_VECTORS = 1,
     EKSI_MAX_VALUE = 6, esm_err_zero = ESM_SAP_UNSET, imsi_to_imsi64 = (\<lambda>i. Suc (length i)), invalid_imsi64 = 0,
     bstrcpy_ok = True, emm_sap_send = (\<lambda>x s. (0, s)),
     esm_sap_send = (\<lambda>x u p m s. (0, ESM_SAP_SUCCESS, None, s)),
     emm_data_context_get = (\<lambda>u s. if u = 2 then Some 1 else None), emm_data_context_get_by_guti = (\<lambda>g s. None),
     emm_data_context_get_by_imsi = (\<lambda>i s. if i = 4 then Some 1 else None), emm_data_context_add = (\<lambda>p s. (0, s)),
     emm_data_context_add_imsi = (\<lambda>p s. s), emm_data_context_add_guti = (\<lambda>p s. s),
     clear_emm_ctxt = (\<lambda>p s. s\<lparr>ctxs := (ctxs s)(p := None)\<rparr>), emm_fsm_get_status = (\<lambda>u p s. EMM_DEREGISTERED),
     emm_fsm_set_status = (\<lambda>u p st s. s), emm_proc_common_get_args = (\<lambda>u s. None),
     emm_proc_common_clear_args = (\<lambda>u s. s), emm_proc_common_initialize = (\<lambda>u d s. (0, s)),
     emm_proc_identification = (\<lambda>u p s. (0, s)), emm_proc_authentication = (\<lambda>p u e v s. (0, s)),
     emm_proc_security_mode_control = (\<lambda>u p s. (0, s)), nas_itti_auth_info_req = (\<lambda>u i t s. s),
     nas_itti_detach_req = (\<lambda>u s. s), nas_timer_start = (\<lambda>d s. (5, s)), nas_timer_stop = (\<lambda>t s. (-1, s)),
     nas_timer_restart = (\<lambda>t s. (t, s)), mme_api_new_guti = (\<lambda>i h t s. (0, zero_guti, [1], s)),
     delete_ue_radio_capabilities = (\<lambda>u s. s)\<rparr>"

definition demo_request :: attach_request where
  "demo_request = \<lparr>r_type = EMM_ATTACH_TYPE_EPS, r_additional_update_type = 0, r_ksi = 7, r_guti = None,
     r_imsi = Some [1, 2, 3], r_imei = None, r_lvr_tai = None, r_tai = 1, r_eea = 240, r_eia = 112, r_ucs2 = 0, r_uea = 0,
     r_uia = 0, r_gea = 0, r_umts_present = False, r_gprs_present = False, r_esm_msg = None\<rparr>"

definition demo_mme :: "(emm_context \<Rightarrow> emm_context) \<Rightarrow> unit mme" where
  "demo_mme f = \<lparr>ctxs = [1 \<mapsto> f (zero_context\<lparr>ue_id := 2, is_dynamic := True\<rparr>)],
     datas = [9 \<mapsto> \<lparr>d_ue_id = 2, retransmission_count = 0, d_esm_msg = None\<rparr>], brk = 10, sap_log = [],
     drb_forward = [], world = ()\<rparr>"

text \<open>The context holds the parameters of a request.\<close>

definition stored :: "attach_request \<Rightarrow> emm_context \<Rightarrow> bool" where
  "stored r c \<longleftrightarrow> is_emergency c = (r_type r = EMM_ATTACH_TYPE_EMERGENCY) \<and> ue_ksi c = r_ksi r \<and> eea c = r_eea r \<and>
     eia c = r_eia r \<and> umts_present c = r_umts_present r \<and> ucs2 c = r_ucs2 r \<and> uea c = r_uea r \<and> uia c = r_uia r \<and>
     gprs_present c = r_gprs_present r \<and> gea c = r_gea r \<and>
     imsi_valid c = (r_imsi r \<noteq> None) \<and> (\<forall>i. r_imsi r = Some i \<longrightarrow> imsi_of c = i) \<and>
     imei_valid c = (r_imei r \<noteq> None) \<and> (\<forall>i. r_imei r = Some i \<longrightarrow> imei_of c = i)"

section \<open>Lemmas\<close>

lemma get_ctx_Inr [simp]: "get_ctx p s = Inr c \<longleftrightarrow> ctxs s p = Some c"
  by (simp add: get_ctx_def split: option.splits)

lemma upd_ctx_Some [simp]: "ctxs s p = Some c \<Longrightarrow> upd_ctx p f s = Inr (s\<lparr>ctxs := (ctxs s)(p \<mapsto> f c)\<rparr>)"
  by (simp add: upd_ctx_def)

lemma get_ctx_Some [simp]: "ctxs s p = Some c \<Longrightarrow> get_ctx p s = Inr c"
  by simp

lemma get_ctx_None [simp]: "ctxs s p = None \<Longrightarrow> get_ctx p s = Inl Dangling_Pointer"
  by (simp add: get_ctx_def)

lemma get_data_Some [simp]: "datas s d = Some x \<Longrightarrow> get_data (Some d) s = Inr x"
  by (simp add: get_data_def)

text \<open>With the parameters stored, the outcome of the comparison depends on the GUTI alone.\<close>

lemma stored_have_changed:
  assumes "stored r c"
  shows "emm_attach_have_changed c r =
    (if r_guti r \<noteq> None \<and> \<not> old_guti_present c then Inr True
     else if r_guti r = None \<and> guti_present c then Inl Null_Pointer
     else Inr (guti_present c \<and> r_guti r \<noteq> Some (guti_of c)))"
proof (cases "r_guti r")
  case None
  with assms show ?thesis by (auto simp: emm_attach_have_changed_def stored_def)
next
  case (Some g)
  have "(m_tmsi g \<noteq> m_tmsi h \<or> mme_code g \<noteq> mme_code h \<or> mme_gid g \<noteq> mme_gid h \<or> plmn_digits g \<noteq> plmn_digits h) \<longleftrightarrow>
      g \<noteq> h" for h by (cases g; cases h) auto
  with assms Some show ?thesis by (auto simp: emm_attach_have_changed_def stored_def)
qed

section \<open>Repeated requests\<close>

text \<open>C27. Storing a request and comparing it with a repetition: after a fresh context was updated with a
  request, the same request is recognised as unchanged exactly if it carries no GUTI. A request with a
  GUTI always counts as changed, because the update does not store the GUTI.\<close>

theorem update_then_compare:
  assumes "ctxs s p = Some (new_context env u r)"
    and "\<And>i. r_imsi r = Some i \<Longrightarrow> imsi_to_imsi64 env i \<noteq> invalid_imsi64 env"
    and "\<And>q t. ctxs (emm_data_context_add_imsi env q t) = ctxs t"
    and "emm_attach_update env p u r s = Inr (RETURNok, s')"
  shows "\<exists>c. ctxs s' p = Some c \<and> emm_attach_have_changed c r = Inr (r_guti r \<noteq> None)"
proof -
  have "\<exists>c. ctxs s' p = Some c \<and> stored r c \<and> \<not> guti_present c \<and> \<not> old_guti_present c"
    using assms
    by (auto simp: emm_attach_update_def update_fields_def new_context_def zero_context_def stored_def RETURNok_def
        RETURNerror_def split: option.splits if_splits)
  then show ?thesis by (auto simp: stored_have_changed)
qed

lemma update_then_compare_witness:
  "\<exists>s' c. emm_attach_update demo_env 1 2 demo_request (demo_mme (\<lambda>_. new_context demo_env 2 demo_request)) =
       Inr (RETURNok, s') \<and>
     ctxs s' 1 = Some c \<and> emm_attach_have_changed c demo_request = Inr False"
proof -
  let ?s = "demo_mme (\<lambda>_. new_context demo_env 2 demo_request)"
  have c: "ctxs ?s 1 = Some (new_context demo_env 2 demo_request)" by (simp add: demo_mme_def)
  have r: "r_imsi demo_request = Some [1, 2, 3]" "r_imei demo_request = None" "r_esm_msg demo_request = None"
    "r_guti demo_request = None" by (simp_all add: demo_request_def)
  have e: "imsi_to_imsi64 demo_env [1, 2, 3] \<noteq> invalid_imsi64 demo_env" "\<And>q t. emm_data_context_add_imsi demo_env q t = t"
    by (simp_all add: demo_env_def)
  have i: "imsi64 (update_fields 2 demo_request (new_context demo_env 2 demo_request)) = invalid_imsi64 demo_env"
    by (simp add: update_fields_def new_context_def)
  have "\<exists>s'. emm_attach_update demo_env 1 2 demo_request ?s = Inr (RETURNok, s')"
    using c by (simp add: emm_attach_update_def r e i)
  then obtain s' where s': "emm_attach_update demo_env 1 2 demo_request ?s = Inr (RETURNok, s')" by blast
  have "\<exists>c. ctxs s' 1 = Some c \<and> emm_attach_have_changed c demo_request = Inr (r_guti demo_request \<noteq> None)"
    by (rule update_then_compare [OF c _ _ s']) (auto simp: r e)
  then show ?thesis using s' r(4) by auto
qed

text \<open>A UE whose attach accept got lost repeats its request. If it identified itself by IMSI, the code
  finds the context, in which a GUTI was assigned meanwhile, compares the parameters, and follows the
  null pointer of the missing GUTI when it logs the difference; the accept is not sent again.\<close>

theorem repeat_after_accept_faults:
  assumes "conf_emergency env \<or> r_type r \<noteq> EMM_ATTACH_TYPE_EMERGENCY"
    and "emm_data_context_get env u s = None" and "r_guti r = None" and "r_imsi r = Some i"
    and "emm_data_context_get_by_imsi env (imsi_to_imsi64 env i) s = Some p" and "ctxs s p = Some c"
    and "\<not> smc_running c" and "\<not> ident_running c" and "emm_fsm_get_status env (ue_id c) p s \<noteq> EMM_REGISTERED"
    and "accept_sent c" and "guti_present c" and "stored r c"
  shows "emm_proc_attach_request env u r s = Inl Null_Pointer"
proof -
  let ?c = "c\<lparr>num_attach_request := num_attach_request c + 1\<rparr>"
  have "stored r ?c" using assms(12) by (simp add: stored_def)
  then have "emm_attach_have_changed ?c r = Inl Null_Pointer"
    using assms(3,11) by (simp add: stored_have_changed)
  then have rep: "repeated_request env p (ue_id c) (emm_fsm_get_status env (ue_id c) p s) u r s = Inl Null_Pointer"
    using assms(6,9,10) by (simp add: repeated_request_def)
  have "stop_common env p (ue_id c) s = Inr s" using assms(6,7,8) by (simp add: stop_common_def)
  with rep have "old_context env u r p s = Inl Null_Pointer" using assms(6) by (simp add: old_context_def Let_def)
  then show ?thesis using assms(1-5) by (auto simp: emm_proc_attach_request_def guti_cleanup_def)
qed

lemma repeat_after_accept_faults_witness:
  "emm_proc_attach_request demo_env 3 demo_request (demo_mme (\<lambda>c. update_fields 2 demo_request (c\<lparr>imsi_of := [1, 2, 3],
      imsi_valid := True, guti_present := True, accept_sent := True\<rparr>))) = Inl Null_Pointer"
  by (rule repeat_after_accept_faults [where i = "[1, 2, 3]" and p = 1 and c = "update_fields 2 demo_request
        (zero_context\<lparr>ue_id := 2, is_dynamic := True, imsi_of := [1, 2, 3], imsi_valid := True, guti_present := True,
          accept_sent := True\<rparr>)"])
    (simp_all add: demo_env_def demo_request_def demo_mme_def update_fields_def zero_context_def stored_def)

text \<open>A new request of a UE for which the security mode procedure is still running: the old context is
  cleaned up by an implicit detach, and then read again. If the detach frees the context, as a clean-up
  does, the request ends in a dangling pointer instead of a fresh attach.\<close>

theorem request_during_smc_faults:
  assumes "conf_emergency env \<or> r_type r \<noteq> EMM_ATTACH_TYPE_EMERGENCY"
    and "emm_data_context_get env u s = None" and "r_guti r = None" and "r_imsi r = Some i"
    and "emm_data_context_get_by_imsi env (imsi_to_imsi64 env i) s = Some p" and "ctxs s p = Some c"
    and "smc_running c" and "\<And>t. ctxs (snd (emm_sap_send env (EMMCN_IMPLICIT_DETACH_UE (ue_id c)) t)) p = None"
  shows "emm_proc_attach_request env u r s = Inl Dangling_Pointer"
proof -
  have "ctxs (abort_detach env (ue_id c) (ue_id c) s) p = None"
    using assms(8) by (simp add: abort_detach_def implicit_detach_def sap_send_def)
  then have "stop_common env p (ue_id c) s = Inl Dangling_Pointer" using assms(6,7) by (simp add: stop_common_def Let_def)
  then have "old_context env u r p s = Inl Dangling_Pointer" using assms(6) by (simp add: old_context_def Let_def)
  then show ?thesis using assms(1-5) by (auto simp: emm_proc_attach_request_def guti_cleanup_def)
qed

lemma request_during_smc_faults_witness:
  "emm_proc_attach_request (demo_env\<lparr>emm_sap_send := (\<lambda>x s. (0, case x of EMMCN_IMPLICIT_DETACH_UE u \<Rightarrow>
        s\<lparr>ctxs := Map.empty\<rparr> | _ \<Rightarrow> s))\<rparr>) 3 demo_request (demo_mme (\<lambda>c. c\<lparr>smc_running := True\<rparr>)) = Inl Dangling_Pointer"
  by (rule request_during_smc_faults [where i = "[1, 2, 3]" and p = 1 and
        c = "zero_context\<lparr>ue_id := 2, is_dynamic := True, smc_running := True\<rparr>"])
    (simp_all add: demo_env_def demo_request_def demo_mme_def zero_context_def)

end
