(* ===== verification/Attach_Rely.thy ===== *)
theory Attach_Rely
  imports Attach
begin

text \<open>
  The attach procedure in an environment that does its work. The functions that \<^verbatim>\<open>Attach.c\<close> calls, and the other tasks that run between two of
  its calls, change the state of the MME: other contexts, the state of the EMM state machine, the results of authentication and security mode,
  their own tables. \<open>quiet\<close> says what one UE can rely on meanwhile, in the manner of a rely condition: its entry in the tables, the saved data of
  its procedure, and those fields of its context that only \<^verbatim>\<open>Attach.c\<close> writes (\<open>core\<close>). \<open>ue_state\<close> is what is known of the UE, and is stable under
  \<open>quiet\<close> steps. The theory ends with the timer T3450.

  \<open>returns\<close> says that a computation ends without an error in a result with a property, and has a rule for each way to build computations.
\<close>

section \<open>What a UE relies on\<close>

text \<open>Where the table of contexts and the saved data of the running procedures are found in the part of the state that belongs to the environment.\<close>

record 'w lookup =
  ctx_of :: "'w \<Rightarrow> ue \<rightharpoonup> aptr"
  args_of :: "'w \<Rightarrow> ue \<rightharpoonup> aptr"

text \<open>The fields of a context that only the attach procedure writes: the parameters of the request, the GUTI with its tracking areas, and whether the UE
  has attached. Not among them are the state of EMM, the cause, the results of authentication and security mode (vectors, algorithms, keys), the
  flags of running procedures, the ESM message, and the id of the timer.\<close>

definition core :: "emm_context \<Rightarrow>
  (ue \<times> bool \<times> nat \<times> nat \<times> nat \<times> nat \<times> nat \<times> nat \<times> nat \<times> bool \<times> bool) \<times> (bytes \<times> bool \<times> bytes \<times> bool) \<times> (guti \<times> bool \<times> bool \<times> nat list) \<times> bool \<times> bool" where
  "core c = ((ue_id c, is_emergency c, ue_ksi c, eea c, eia c, ucs2 c, uea c, uia c, gea c, umts_present c, gprs_present c),
     (imsi_of c, imsi_valid c, imei_of c, imei_valid c), (guti_of c, guti_present c, guti_valid c, tai_list c), is_attached c, is_has_been_attached c)"

fun sap_ue :: "emm_sap \<Rightarrow> ue" where
  "sap_ue (EMMCN_IMPLICIT_DETACH_UE u) = u"
| "sap_ue (EMMREG_PROC_ABORT u) = u"
| "sap_ue (EMMREG_ATTACH_CNF u) = u"
| "sap_ue (EMMREG_ATTACH_REJ u) = u"
| "sap_ue (EMMAS_ESTABLISH_REJ u _ _) = u"
| "sap_ue (EMMAS_ESTABLISH_CNF u _ _ _ _ _) = u"
| "sap_ue (EMMAS_DATA_REQ u _ _ _ _) = u"

definition ue_log :: "ue \<Rightarrow> 'w mme \<Rightarrow> emm_sap list" where
  "ue_log u t = filter (\<lambda>x. sap_ue x = u) (sap_log t)"

text \<open>\<open>K\<close> is the part of the context that is kept, \<open>sel\<close> selects the contexts whose forwarding to the DRB task is of interest.\<close>

definition quiet_ctx :: "(emm_context \<Rightarrow> 'v) \<Rightarrow> (aptr \<Rightarrow> bool) \<Rightarrow> ue \<Rightarrow> aptr \<Rightarrow> 'w mme \<Rightarrow> 'w mme \<Rightarrow> bool" where
  "quiet_ctx K sel u p t t' \<longleftrightarrow> (\<forall>c. ctxs t p = Some c \<longrightarrow> (\<exists>c'. ctxs t' p = Some c' \<and> K c' = K c)) \<and>
     ue_log u t' = ue_log u t \<and> filter sel (drb_forward t') = filter sel (drb_forward t)"

definition quiet_args :: "'w lookup \<Rightarrow> ue \<Rightarrow> 'w mme \<Rightarrow> 'w mme \<Rightarrow> bool" where
  "quiet_args lk u t t' \<longleftrightarrow> args_of lk (world t') u = args_of lk (world t) u \<and>
     (\<forall>d. args_of lk (world t) u = Some d \<longrightarrow> datas t' d = datas t d)"

definition quiet :: "'w lookup \<Rightarrow> (emm_context \<Rightarrow> 'v) \<Rightarrow> (aptr \<Rightarrow> bool) \<Rightarrow> ue \<Rightarrow> aptr \<Rightarrow> 'w mme \<Rightarrow> 'w mme \<Rightarrow> bool" where
  "quiet lk K sel u p t t' \<longleftrightarrow> ctx_of lk (world t') u = ctx_of lk (world t) u \<and> quiet_args lk u t t' \<and> quiet_ctx K sel u p t t'"

text \<open>What is known of a UE: its context agrees with \<open>c\<close>, its data with \<open>D\<close> if there is any, its messages are \<open>L\<close> and what was forwarded \<open>F\<close>.\<close>

definition ue_state ::
  "'w lookup \<Rightarrow> (emm_context \<Rightarrow> 'v) \<Rightarrow> (aptr \<Rightarrow> bool) \<Rightarrow> ue \<Rightarrow> aptr \<Rightarrow> emm_context \<Rightarrow> (aptr \<times> attach_data) option \<Rightarrow> emm_sap list \<Rightarrow> aptr list \<Rightarrow> 'w mme \<Rightarrow> bool" where
  "ue_state lk K sel u p c D L F t \<longleftrightarrow> ctx_of lk (world t) u = Some p \<and> (\<exists>c'. ctxs t p = Some c' \<and> K c' = K c) \<and>
     (\<forall>d x. D = Some (d, x) \<longrightarrow> args_of lk (world t) u = Some d \<and> datas t d = Some x) \<and> ue_log u t = L \<and> filter sel (drb_forward t) = F"

definition returns :: "('a \<Rightarrow> bool) \<Rightarrow> 'e + 'a \<Rightarrow> bool" where
  "returns Q x \<longleftrightarrow> (\<exists>y. x = Inr y \<and> Q y)"

section \<open>The timer T3450\<close>

text \<open>The timer expires a number of times; before each expiry the rest of the MME takes a step \<open>gap\<close>.\<close>

fun expiries :: "'w emm_env \<Rightarrow> (nat \<Rightarrow> 'w mme \<Rightarrow> 'w mme) \<Rightarrow> aptr \<Rightarrow> nat \<Rightarrow> 'w mme \<Rightarrow> attach_error + 'w mme" where
  "expiries env gap d 0 s = Inr s"
| "expiries env gap d (Suc n) s = rbind (emm_attach_t3450_handler env d (gap n s)) (\<lambda>(rc, s'). expiries env gap d n s')"

text \<open>The functions that the timer handler calls: the lookup finds the context in the table; sending the accept and handling the timer leaves the UE alone.
  Nothing is said of the implicit detach.\<close>

definition timer_calls :: "'w lookup \<Rightarrow> 'w emm_env \<Rightarrow> ue \<Rightarrow> aptr \<Rightarrow> bool" where
  "timer_calls lk env u p \<longleftrightarrow> (\<forall>t. emm_data_context_get env u t = ctx_of lk (world t) u) \<and>
     (\<forall>g tais a m t. quiet lk core (\<lambda>_. False) u p t (snd (emm_sap_send env (EMMAS_DATA_REQ u g tais a m) t))) \<and>
     (\<forall>k t. quiet lk core (\<lambda>_. False) u p t (snd (nas_timer_restart env k t))) \<and>
     (\<forall>k t. quiet lk core (\<lambda>_. False) u p t (snd (nas_timer_stop env k t)))"

section \<open>An environment at work\<close>

text \<open>The world consists of the two tables. Lower layers mark what was sent, the state machine records its state, the security mode chooses algorithms, the
  implicit detach removes the UE from both tables and frees its context.\<close>

definition set_ctx :: "(emm_context \<Rightarrow> emm_context) \<Rightarrow> aptr \<Rightarrow> 'w mme \<Rightarrow> 'w mme" where
  "set_ctx f p s = s\<lparr>ctxs := (ctxs s)(p := map_option f (ctxs s p))\<rparr>"

type_synonym tables = "(nat \<rightharpoonup> aptr) \<times> (nat \<rightharpoonup> aptr)"

definition free_ctx :: "aptr \<Rightarrow> tables mme \<Rightarrow> tables mme" where
  "free_ctx p s = s\<lparr>ctxs := (ctxs s)(p := None),
     world := (\<lambda>u. if fst (world s) u = Some p then None else fst (world s) u, snd (world s))\<rparr>"

definition work_sap :: "emm_sap \<Rightarrow> tables mme \<Rightarrow> int \<times> tables mme" where
  "work_sap x s = (case fst (world s) (sap_ue x) of
     None \<Rightarrow> (RETURNok, s)
   | Some p \<Rightarrow> (RETURNok, case x of
        EMMCN_IMPLICIT_DETACH_UE u \<Rightarrow> free_ctx p s
      | EMMREG_ATTACH_CNF u \<Rightarrow> set_ctx (\<lambda>c. c\<lparr>fsm_status := EMM_REGISTERED\<rparr>) p s
      | EMMREG_ATTACH_REJ u \<Rightarrow> free_ctx p s
      | EMMREG_PROC_ABORT u \<Rightarrow> set_ctx (\<lambda>c. c\<lparr>fsm_status := EMM_DEREGISTERED, smc_running := False\<rparr>) p s
      | EMMAS_ESTABLISH_REJ u k m \<Rightarrow> set_ctx (\<lambda>c. c\<lparr>reject_sent := True\<rparr>) p s
      | _ \<Rightarrow> set_ctx (\<lambda>c. c\<lparr>accept_sent := True\<rparr>) p s))"

definition work_env :: "tables emm_env" where
  "work_env = \<lparr>conf_emergency = False, conf_unauthenticated_imsi = False, T_INACTIVE = -1, MAX_EPS_AUTH_VECTORS = 1,
     EKSI_MAX_VALUE = 6, esm_err_zero = ESM_SAP_UNSET, imsi_to_imsi64 = (\<lambda>i. Suc (length i)), invalid_imsi64 = 0,
     bstrcpy_ok = True, emm_sap_send = work_sap,
     esm_sap_send = (\<lambda>x u p m s. (RETURNok, ESM_SAP_SUCCESS, None, set_ctx (\<lambda>c. c\<lparr>esm_msg := None\<rparr>) p s)),
     emm_data_context_get = (\<lambda>u s. fst (world s) u), emm_data_context_get_by_guti = (\<lambda>g s. None), emm_data_context_get_by_imsi = (\<lambda>i s. None),
     emm_data_context_add = (\<lambda>p s. (RETURNok, s\<lparr>world := (case ctxs s p of None \<Rightarrow> fst (world s) | Some c \<Rightarrow> (fst (world s))(ue_id c \<mapsto> p), snd (world s))\<rparr>)),
     emm_data_context_add_imsi = (\<lambda>p s. s), emm_data_context_add_guti = (\<lambda>p s. s), clear_emm_ctxt = free_ctx,
     emm_fsm_get_status = (\<lambda>u p s. case ctxs s p of None \<Rightarrow> EMM_INVALID | Some c \<Rightarrow> fsm_status c),
     emm_fsm_set_status = (\<lambda>u p st. set_ctx (\<lambda>c. c\<lparr>fsm_status := st\<rparr>) p),
     emm_proc_common_get_args = (\<lambda>u s. snd (world s) u),
     emm_proc_common_clear_args = (\<lambda>u s. s\<lparr>world := (fst (world s), (snd (world s))(u := None))\<rparr>),
     emm_proc_common_initialize = (\<lambda>u d s. (RETURNok, s\<lparr>world := (fst (world s), (snd (world s))(u \<mapsto> d))\<rparr>)),
     emm_proc_identification = (\<lambda>u p s. (RETURNok, set_ctx (\<lambda>c. c\<lparr>ident_running := True\<rparr>) p s)),
     emm_proc_authentication = (\<lambda>p u e v s. (RETURNok, s)),
     emm_proc_security_mode_control = (\<lambda>u p s. (RETURNok, set_ctx (\<lambda>c. c\<lparr>smc_running := True, selected_algorithms := (1, 2)\<rparr>) p s)),
     nas_itti_auth_info_req = (\<lambda>u i t s. s), nas_itti_detach_req = (\<lambda>u s. s),
     nas_timer_start = (\<lambda>d s. (5, s)), nas_timer_stop = (\<lambda>t s. (-1, s)), nas_timer_restart = (\<lambda>t s. (t + 1, s)),
     mme_api_new_guti = (\<lambda>i h t s. (RETURNok, h\<lparr>m_tmsi := m_tmsi h + 1\<rparr>, [t], s)), delete_ue_radio_capabilities = (\<lambda>u s. s)\<rparr>"

definition work_lookup :: "tables lookup" where
  "work_lookup = \<lparr>ctx_of = fst, args_of = snd\<rparr>"

text \<open>UE 2 with a GUTI and its saved data, and a second UE whose context changes all the time.\<close>

definition work_mme :: "tables mme" where
  "work_mme = \<lparr>ctxs = [1 \<mapsto> zero_context\<lparr>ue_id := 2, is_dynamic := True, guti_present := True\<rparr>, 3 \<mapsto> zero_context\<lparr>ue_id := 4\<rparr>],
     datas = [9 \<mapsto> \<lparr>d_ue_id = 2, retransmission_count = 0, d_esm_msg = None\<rparr>], brk = 10, sap_log = [], drb_forward = [],
     world = ([2 \<mapsto> 1, 4 \<mapsto> 3], [2 \<mapsto> 9])\<rparr>"

definition work_gap :: "nat \<Rightarrow> tables mme \<Rightarrow> tables mme" where
  "work_gap n s = set_ctx (\<lambda>c. c\<lparr>selected_algorithms := (n, n)\<rparr>) 1 (s\<lparr>ctxs := (ctxs s)(3 \<mapsto> zero_context\<lparr>num_attach_request := n\<rparr>)\<rparr>)"

section \<open>Rules\<close>

lemma returns_Inr [simp]: "returns Q (Inr y) = Q y"
  by (simp add: returns_def)

lemma returns_Inl [simp]: "\<not> returns Q (Inl e)"
  by (simp add: returns_def)

lemma returns_rbind: "returns R x \<Longrightarrow> (\<And>y. R y \<Longrightarrow> returns Q (f y)) \<Longrightarrow> returns Q (rbind x f)"
  by (auto simp: returns_def)

lemma returns_mono: "returns R x \<Longrightarrow> (\<And>y. R y \<Longrightarrow> Q y) \<Longrightarrow> returns Q x"
  by (auto simp: returns_def)

lemma returns_if: "(b \<Longrightarrow> returns Q x) \<Longrightarrow> (\<not> b \<Longrightarrow> returns Q y) \<Longrightarrow> returns Q (if b then x else y)"
  by simp

text \<open>A UE does not see quiet steps.\<close>

lemma ue_state_quiet:
  "ue_state lk K sel u p c D L F t \<Longrightarrow> quiet lk K sel u p t t' \<Longrightarrow> ue_state lk K sel u p c D L F t'"
  unfolding ue_state_def quiet_def quiet_args_def quiet_ctx_def by fastforce

lemma ue_state_get:
  "ue_state lk K sel u p c D L F t \<Longrightarrow> (\<And>c'. ctxs t p = Some c' \<Longrightarrow> K c' = K c \<Longrightarrow> returns Q (f c')) \<Longrightarrow> returns Q (rbind (get_ctx p t) f)"
  unfolding ue_state_def by auto

lemma ue_state_upd:
  assumes "ue_state lk K sel u p c D L F t" and "\<And>c'. K c' = K c \<Longrightarrow> K' (h c') = K' e"
    and "\<And>t'. ue_state lk K' sel u p e D L F t' \<Longrightarrow> returns Q (f t')"
  shows "returns Q (rbind (upd_ctx p h t) f)"
proof -
  obtain c' where c': "ctxs t p = Some c'" "K c' = K c" using assms(1) by (auto simp: ue_state_def)
  have "ue_state lk K' sel u p e D L F (t\<lparr>ctxs := (ctxs t)(p \<mapsto> h c')\<rparr>)"
    using assms(1) assms(2) [OF c'(2)] by (auto simp: ue_state_def ue_log_def)
  then show ?thesis using c'(1) assms(3) by simp
qed

lemma ue_state_log:
  "ue_state lk K sel u p c D L F t \<Longrightarrow> sap_ue x = u \<Longrightarrow> ue_state lk K sel u p c D (L @ [x]) F (t\<lparr>sap_log := sap_log t @ [x]\<rparr>)"
  by (auto simp: ue_state_def ue_log_def)

lemma ue_state_put:
  "ue_state lk K sel u p c (Some (d, x)) L F t \<Longrightarrow> ue_state lk K sel u p c (Some (d, y)) L F (t\<lparr>datas := (datas t)(d \<mapsto> y)\<rparr>)"
  by (auto simp: ue_state_def ue_log_def)

lemma core_T3450 [simp]: "core (c\<lparr>T3450 := k\<rparr>) = core c"
  by (simp add: core_def)

lemma core_facts:
  assumes "core c' = core c"
  shows "ue_id c' = ue_id c" "guti_of c' = guti_of c" "guti_present c' = guti_present c" "guti_valid c' = guti_valid c" "tai_list c' = tai_list c"
    "stored r c' = stored r c" "is_attached c' = is_attached c" "is_has_been_attached c' = is_has_been_attached c"
  using assms by (auto simp: core_def stored_def)

section \<open>Properties\<close>

lemma timer_callsD:
  assumes "timer_calls lk env u p"
  shows "emm_data_context_get env u t = ctx_of lk (world t) u"
    "emm_sap_send env (EMMAS_DATA_REQ u g tais a m) t = (rc, t') \<Longrightarrow> quiet lk core (\<lambda>_. False) u p t t'"
    "nas_timer_restart env k t = (j, t') \<Longrightarrow> quiet lk core (\<lambda>_. False) u p t t'"
    "nas_timer_stop env k t = (j, t') \<Longrightarrow> quiet lk core (\<lambda>_. False) u p t t'"
  using assms unfolding timer_calls_def by (simp, metis snd_conv, metis snd_conv, metis snd_conv)

lemma retx_sends:
  assumes calls: "timer_calls lk env u p" and st: "ue_state lk core (\<lambda>_. False) u p c (Some (d, y)) L F s1"
    and "ue_id c = u" and "guti_present c"
  shows "returns (\<lambda>(rc, t). \<exists>a. ue_state lk core (\<lambda>_. False) u p c (Some (d, y))
      (L @ [EMMAS_DATA_REQ u (guti_of c) (tai_list c) a (d_esm_msg y)]) F t) (emm_attach_accept_retx env (Some p) (Some d) s1)"
proof -
  let ?R = "\<lambda>(rc :: int, t). \<exists>a. ue_state lk core (\<lambda>_. False) u p c (Some (d, y)) (L @ [EMMAS_DATA_REQ u (guti_of c) (tai_list c) a (d_esm_msg y)]) F t"
  obtain c' where c': "ctxs s1 p = Some c'" "core c' = core c" using st by (auto simp: ue_state_def)
  note same = core_facts [OF c'(2)]
  define m where "m = EMMAS_DATA_REQ u (guti_of c) (tai_list c) (selected_algorithms c') (d_esm_msg y)"
  obtain rc t where t: "sap_send env m s1 = (rc, t)" by fastforce
  have "ue_state lk core (\<lambda>_. False) u p c (Some (d, y)) (L @ [m]) F (s1\<lparr>sap_log := sap_log s1 @ [m]\<rparr>)"
    by (rule ue_state_log [OF st]) (simp add: m_def)
  moreover have "quiet lk core (\<lambda>_. False) u p (s1\<lparr>sap_log := sap_log s1 @ [m]\<rparr>) t"
    using t unfolding sap_send_def m_def by (rule timer_callsD(2) [OF calls])
  ultimately have sent: "ue_state lk core (\<lambda>_. False) u p c (Some (d, y)) (L @ [m]) F t" by (rule ue_state_quiet)
  then have R: "?R (rc, t)" unfolding m_def by blast
  obtain c1 where c1: "ctxs t p = Some c1" using sent by (auto simp: ue_state_def)
  obtain k t2 where k: "nas_timer_restart env (T3450 c1) t = (k, t2)" by fastforce
  have "ue_state lk core (\<lambda>_. False) u p c (Some (d, y)) (L @ [m]) F t2" by (rule ue_state_quiet [OF sent timer_callsD(3) [OF calls k]])
  then have upd: "returns ?R (rbind (upd_ctx p (\<lambda>c. c\<lparr>T3450 := k\<rparr>) t2) (\<lambda>s3. Inr (rc, s3)))"
    by (rule ue_state_upd [where K' = core and e = c]) (auto simp: m_def simp del: split_paired_Ex)
  have y: "datas s1 d = Some y" using st by (simp add: ue_state_def)
  have "emm_attach_accept_retx env (Some p) (Some d) s1 =
      (if rc \<noteq> RETURNerror then rbind (upd_ctx p (\<lambda>c. c\<lparr>T3450 := k\<rparr>) t2) (\<lambda>s3. Inr (rc, s3)) else Inr (rc, t))"
    using c' same assms(3,4) y t c1 k by (simp add: emm_attach_accept_retx_def m_def)
  then show ?thesis using upd R by simp
qed

lemma expiry_retransmits:
  assumes calls: "timer_calls lk env u p" and st: "ue_state lk core (\<lambda>_. False) u p c (Some (d, x)) L F s"
    and "d_ue_id x = u" and "ue_id c = u" and "guti_present c" and "retransmission_count x + 1 < ATTACH_COUNTER_MAX"
  shows "returns (\<lambda>(rc, t). \<exists>a. ue_state lk core (\<lambda>_. False) u p c (Some (d, x\<lparr>retransmission_count := retransmission_count x + 1\<rparr>))
      (L @ [EMMAS_DATA_REQ u (guti_of c) (tai_list c) a (d_esm_msg x)]) F t) (emm_attach_t3450_handler env d s)"
proof -
  define y where "y = x\<lparr>retransmission_count := retransmission_count x + 1\<rparr>"
  define s1 where "s1 = s\<lparr>datas := (datas s)(d \<mapsto> y)\<rparr>"
  have st1: "ue_state lk core (\<lambda>_. False) u p c (Some (d, y)) L F s1" unfolding s1_def by (rule ue_state_put [OF st])
  have get: "emm_data_context_get env u s1 = Some p" using timer_callsD(1) [OF calls] st1 by (simp add: ue_state_def)
  have x: "datas s d = Some x" using st by (simp add: ue_state_def)
  have y: "d_ue_id y = u" "retransmission_count y < ATTACH_COUNTER_MAX" "d_esm_msg y = d_esm_msg x" using assms(3,6) by (simp_all add: y_def)
  have "emm_attach_t3450_handler env d s = emm_attach_accept_retx env (Some p) (Some d) s1"
    using x y get assms(6) unfolding emm_attach_t3450_handler_def by (simp add: Let_def y_def [symmetric] s1_def [symmetric] del: One_nat_def add_Suc_right)
  then show ?thesis using retx_sends [OF calls st1 assms(4,5)] y(3) unfolding y_def by simp
qed

lemma expiries_retransmit:
  assumes calls: "timer_calls lk env u p" and gap: "\<And>n t. quiet lk core (\<lambda>_. False) u p t (gap n t)"
    and st: "ue_state lk core (\<lambda>_. False) u p c (Some (d, x)) L F s" and "d_ue_id x = u" and "ue_id c = u" and "guti_present c"
    and "retransmission_count x + n < ATTACH_COUNTER_MAX"
  shows "\<exists>t as. expiries env gap d (n + m) s = expiries env gap d m t \<and> length as = n \<and>
    ue_state lk core (\<lambda>_. False) u p c (Some (d, x\<lparr>retransmission_count := retransmission_count x + n\<rparr>))
      (L @ map (\<lambda>a. EMMAS_DATA_REQ u (guti_of c) (tai_list c) a (d_esm_msg x)) as) F t"
  using assms(3,4,7)
proof (induction n arbitrary: s x L)
  case 0
  then show ?case by (intro exI [of _ s] exI [of _ "[]"]) simp
next
  case (Suc n)
  let ?x = "x\<lparr>retransmission_count := retransmission_count x + 1\<rparr>"
  have "ue_state lk core (\<lambda>_. False) u p c (Some (d, x)) L F (gap (n + m) s)" by (rule ue_state_quiet [OF Suc.prems(1) gap])
  from expiry_retransmits [OF calls this Suc.prems(2) assms(5,6)] Suc.prems(3) obtain rc t a where
    t: "emm_attach_t3450_handler env d (gap (n + m) s) = Inr (rc, t)"
      "ue_state lk core (\<lambda>_. False) u p c (Some (d, ?x)) (L @ [EMMAS_DATA_REQ u (guti_of c) (tai_list c) a (d_esm_msg x)]) F t"
    by (auto simp: returns_def)
  have "d_ue_id ?x = u" "retransmission_count ?x + n < ATTACH_COUNTER_MAX" using Suc.prems(2,3) by simp_all
  from Suc.IH [OF t(2) this] obtain t' as where t': "expiries env gap d (n + m) t = expiries env gap d m t'" "length as = n"
      "ue_state lk core (\<lambda>_. False) u p c (Some (d, x\<lparr>retransmission_count := retransmission_count x + Suc n\<rparr>))
         (L @ map (\<lambda>a. EMMAS_DATA_REQ u (guti_of c) (tai_list c) a (d_esm_msg x)) (a # as)) F t'" by auto
  then show ?case using t(1) by (intro exI [of _ t'] exI [of _ "a # as"]) simp
qed

lemma expiry_aborts:
  assumes calls: "timer_calls lk env u p" and st: "ue_state lk core (\<lambda>_. False) u p c (Some (d, x)) L F s"
    and "d_ue_id x = u" and "ue_id c = u" and "\<not> retransmission_count x + 1 < ATTACH_COUNTER_MAX"
  shows "\<exists>rc t. emm_attach_t3450_handler env d s = Inr (rc, snd (emm_sap_send env (EMMCN_IMPLICIT_DETACH_UE u) t)) \<and>
    datas t d = None \<and> ue_log u t = L @ [EMMCN_IMPLICIT_DETACH_UE u]"
proof -
  define y where "y = x\<lparr>retransmission_count := retransmission_count x + 1\<rparr>"
  define s1 where "s1 = s\<lparr>datas := (datas s)(d \<mapsto> y)\<rparr>"
  have st1: "ue_state lk core (\<lambda>_. False) u p c (Some (d, y)) L F s1" unfolding s1_def by (rule ue_state_put [OF st])
  have get: "emm_data_context_get env u s1 = Some p" using timer_callsD(1) [OF calls] st1 by (simp add: ue_state_def)
  have x: "datas s d = Some x" using st by (simp add: ue_state_def)
  have y: "d_ue_id y = u" "\<not> retransmission_count y < ATTACH_COUNTER_MAX" "datas s1 d = Some y" using assms(3,5) by (simp_all add: y_def s1_def)
  obtain c' where c': "ctxs s1 p = Some c'" using st1 by (auto simp: ue_state_def)
  obtain k t2 where k: "(if T3450 c' \<noteq> T_INACTIVE env then nas_timer_stop env (T3450 c') s1 else (T3450 c', s1)) = (k, t2)" by fastforce
  have "ue_state lk core (\<lambda>_. False) u p c (Some (d, y)) L F t2"
  proof (cases "T3450 c' \<noteq> T_INACTIVE env")
    case True
    then have "quiet lk core (\<lambda>_. False) u p s1 t2" using k timer_callsD(4) [OF calls] by simp
    then show ?thesis by (rule ue_state_quiet [OF st1])
  next
    case False
    then show ?thesis using k st1 by simp
  qed
  then obtain c2 where c2: "ctxs t2 p = Some c2" "core c2 = core c" "ue_log u t2 = L" by (auto simp: ue_state_def)
  let ?t = "t2\<lparr>ctxs := (ctxs t2)(p \<mapsto> c2\<lparr>T3450 := k\<rparr>), datas := (datas t2)(d := None)\<rparr>"
  let ?m = "EMMCN_IMPLICIT_DETACH_UE u"
  have "emm_attach_t3450_handler env d s = emm_attach_abort env (Some d) s1"
    using x y(1,2) assms(5) unfolding emm_attach_t3450_handler_def by (simp add: Let_def y_def [symmetric] s1_def [symmetric] del: One_nat_def add_Suc_right)
  also have "\<dots> = Inr (sap_send env ?m ?t)"
    unfolding emm_attach_abort_def using y get c' c2 core_facts(1) [OF c2(2)] assms(4) by (simp add: k)
  finally show ?thesis using c2(3)
    by (intro exI [of _ "fst (sap_send env ?m ?t)"] exI [of _ "?t\<lparr>sap_log := sap_log ?t @ [?m]\<rparr>"]) (simp add: sap_send_def ue_log_def)
qed

text \<open>C14. The timer T3450: the attach accept is sent again on each of the first four expiries, with the GUTI, the tracking areas and the ESM message it had,
  and the fifth frees the saved data and then, once, asks for the implicit detach of the UE, as TS 24.301 demands; the UE is sent nothing else.
  Between the expiries and during the calls the rest of the MME may do anything that leaves the table entry, the saved data and the
  core of the context of this UE alone; the calls may fail; and what the implicit detach does, after which the handler touches nothing, is free.\<close>

theorem t3450_five_expiries:
  assumes "timer_calls lk env u p" and "\<And>n t. quiet lk core (\<lambda>_. False) u p t (gap n t)"
    and "ctx_of lk (world s) u = Some p" and "ctxs s p = Some c" and "ue_id c = u" and "guti_present c"
    and "args_of lk (world s) u = Some d" and "datas s d = Some x" and "d_ue_id x = u" and "retransmission_count x = 0"
  shows "\<exists>t as. expiries env gap d 5 s = Inr (snd (emm_sap_send env (EMMCN_IMPLICIT_DETACH_UE u) t)) \<and> datas t d = None \<and> length as = 4 \<and>
    ue_log u t = ue_log u s @ map (\<lambda>a. EMMAS_DATA_REQ u (guti_of c) (tai_list c) a (d_esm_msg x)) as @ [EMMCN_IMPLICIT_DETACH_UE u]"
proof -
  have st: "ue_state lk core (\<lambda>_. False) u p c (Some (d, x)) (ue_log u s) [] s" using assms(3,4,7,8) by (simp add: ue_state_def)
  have "retransmission_count x + 4 < ATTACH_COUNTER_MAX" using assms(10) by (simp add: ATTACH_COUNTER_MAX_def)
  from expiries_retransmit [where gap = gap and m = 1, OF assms(1,2) st assms(9,5,6) this] obtain t as where t: "expiries env gap d 5 s = expiries env gap d 1 t" "length as = 4"
      "ue_state lk core (\<lambda>_. False) u p c (Some (d, x\<lparr>retransmission_count := 4\<rparr>))
         (ue_log u s @ map (\<lambda>a. EMMAS_DATA_REQ u (guti_of c) (tai_list c) a (d_esm_msg x)) as) [] t"
    using assms(10) by (auto simp del: expiries.simps)
  have "ue_state lk core (\<lambda>_. False) u p c (Some (d, x\<lparr>retransmission_count := 4\<rparr>))
         (ue_log u s @ map (\<lambda>a. EMMAS_DATA_REQ u (guti_of c) (tai_list c) a (d_esm_msg x)) as) [] (gap 0 t)"
    by (rule ue_state_quiet [OF t(3) assms(2)])
  from expiry_aborts [OF assms(1) this _ assms(5)] assms(9) obtain rc t' where
    "emm_attach_t3450_handler env d (gap 0 t) = Inr (rc, snd (emm_sap_send env (EMMCN_IMPLICIT_DETACH_UE u) t'))" "datas t' d = None"
    "ue_log u t' = ue_log u s @ map (\<lambda>a. EMMAS_DATA_REQ u (guti_of c) (tai_list c) a (d_esm_msg x)) as @ [EMMCN_IMPLICIT_DETACH_UE u]"
    by (auto simp: ATTACH_COUNTER_MAX_def)
  then show ?thesis using t(1,2) by (intro exI [of _ t'] exI [of _ as]) simp
qed

lemma work_quiet:
  "quiet work_lookup core sel u p t (snd (work_sap (EMMAS_DATA_REQ v g tais a m) t))" "quiet work_lookup core sel u 1 t (work_gap n t)"
  by (auto simp: quiet_def quiet_args_def quiet_ctx_def work_sap_def set_ctx_def work_lookup_def ue_log_def core_def work_gap_def split: option.splits)

lemma t3450_five_expiries_witness:
  "\<exists>t as. expiries work_env work_gap 9 5 work_mme = Inr (snd (emm_sap_send work_env (EMMCN_IMPLICIT_DETACH_UE 2) t)) \<and> datas t 9 = None \<and> length as = 4 \<and>
    ue_log 2 t = map (\<lambda>a. EMMAS_DATA_REQ 2 zero_guti [] a None) as @ [EMMCN_IMPLICIT_DETACH_UE 2]"
proof -
  have "timer_calls work_lookup work_env 2 1"
    using work_quiet(1) by (auto simp: timer_calls_def work_env_def work_lookup_def quiet_def quiet_args_def quiet_ctx_def)
  moreover have "ctx_of work_lookup (world work_mme) 2 = Some 1" "args_of work_lookup (world work_mme) 2 = Some 9" "ue_log 2 work_mme = []"
      "ctxs work_mme 1 = Some (zero_context\<lparr>ue_id := 2, is_dynamic := True, guti_present := True\<rparr>)"
      "datas work_mme 9 = Some \<lparr>d_ue_id = 2, retransmission_count = 0, d_esm_msg = None\<rparr>"
    by (simp_all add: work_lookup_def work_mme_def ue_log_def)
  ultimately show ?thesis
    using t3450_five_expiries [of work_lookup work_env 2 1 work_gap work_mme _ 9, OF _ work_quiet(2)] by (force simp: zero_context_def)
qed

end
