(* ===== verification/Attach_Types.thy ===== *)
theory Attach_Types
  imports Attach_Rely
begin

text \<open>
  No step of the attach procedure that is taken after the request follows a bad pointer. The argument is that of a type system: a state is
  well-formed (\<open>good\<close>) if the table of contexts has only pointers to live contexts, some pointers at hand are live too, and no context waits to be
  rejected with the cause ESM failure; \<open>tame\<close> says what each function of the environment keeps of that; then every step returns (progress) in a
  well-formed state (preservation).

  \<^item> The implicit detach and the notifications at the end of the procedure may free any context and any data, as long as the table is kept in order.
    The same holds of the start of an authentication, and of an identification or security mode procedure that could be started.
  \<^item> The functions after which the code goes on reading the context keep the pointers at hand: messages to the UE, timers, a common procedure that
    could not be started, ESM, and the notification of the abort before the context is released.
  \<^item> Two things that the code relies on are assumed, and are faults if they fail: ESM that rejects a PDN connection gives no message to be sent (otherwise the saved
    data is read, which does not exist yet), and the notification of the abort succeeds (otherwise a rejected context is rejected again after it was freed).
\<close>

section \<open>Well-formed states\<close>

text \<open>\<open>tab\<close> finds the table of contexts in the part of the state that belongs to the environment.\<close>

definition good :: "('w \<Rightarrow> ue \<rightharpoonup> aptr) \<Rightarrow> aptr set \<Rightarrow> aptr set \<Rightarrow> 'w mme \<Rightarrow> bool" where
  "good tab ps ds s \<longleftrightarrow> ran (tab (world s)) \<subseteq> dom (ctxs s) \<and> ps \<subseteq> dom (ctxs s) \<and> ds \<subseteq> dom (datas s) \<and>
     (\<forall>c\<in>ran (ctxs s). emm_cause_of c \<noteq> EMM_CAUSE_ESM_FAILURE)"









section \<open>Rules\<close>



lemma good_log [simp]:
  "good tab ps ds (s\<lparr>sap_log := l\<rparr>) = good tab ps ds s" "good tab ps ds (s\<lparr>drb_forward := f\<rparr>) = good tab ps ds s"
  by (simp_all add: good_def)













section \<open>The steps\<close>




















section \<open>Properties\<close>






end
