(* ===== verification/Drb.thy ===== *)
theory Drb
  imports Prelude
begin

text \<open>
  The DRB starter of the MME (\<^verbatim>\<open>src/openair-cn/src/drb_starter/drb.c\<close> and \<^verbatim>\<open>drb.h\<close>). When a UE has
  attached it sets up three dedicated bearers: it writes three S1AP E-RAB setup requests byte by
  byte, with an encrypted NAS message in each, and sends them over SCTP. When the eNB answers it
  marks the bearers active. Three threads then send test traffic from the ports 6001 to 6003.

  \<^item> The NAS library and the ESM procedures are not part of the repository: they are the record
    \<open>nas_env\<close> of functions that the operations take as an argument. The state they work on is the
    EMM context, of type \<open>'c\<close>.
  \<^item> Writes outside the 256 byte payload, copies from outside the 50 byte arrays of encrypted
    messages and null pointers are errors.
  \<^item> The lengths of the nested S1AP fields are \<^verbatim>\<open>uint8_t\<close>; they are bytes of the model.
  \<^item> The sleeps between the messages have no effect on the state and are left out; those of the
    test traffic are kept as times.
\<close>

section \<open>Data\<close>

definition PORT0 :: u16 where "PORT0 = 7007"
definition PORT1 :: u16 where "PORT1 = 6001"
definition PORT2 :: u16 where "PORT2 = 6002"
definition PORT3 :: u16 where "PORT3 = 6003"
definition PORT_UE :: u16 where "PORT_UE = 6000"
definition ADDR_EPC :: u32 where "ADDR_EPC = ipv4 192 168 178 42"
definition T_GCL :: nat where "T_GCL = 4850"
definition BUFSIZE :: nat where "BUFSIZE = 1000"
definition NUM_PACKETS :: nat where "NUM_PACKETS = 400"
definition PAYLOAD_SIZE :: nat where "PAYLOAD_SIZE = 256"
definition ENCRYPTED_SIZE :: nat where "ENCRYPTED_SIZE = 50"

datatype drb_error = Null_Deref | Buffer_Overrun

datatype esm_ebr_state = ESM_EBR_ACTIVE_PENDING | ESM_EBR_ACTIVE

record esm_proc_qos =
  qci :: nat
  gbrDL :: nat
  gbrUL :: nat
  mbrDL :: nat
  mbrUL :: nat

text \<open>The fields of the NAS message that the code sets.\<close>

record nas_request =
  epsbeareridentity :: nat
  bitRatesPresent :: bool
  bitRatesExtPresent :: bool
  nas_qci :: nat
  linkedepsbeareridentity :: nat
  presencemask :: nat
  proceduretransactionidentity :: nat
  protocoldiscriminator :: nat
  transactionidentifier :: nat
  numberofpacketfilters :: nat
  ebit :: bool
  eval_precedence :: nat
  filter_identifier :: nat
  singleremoteport :: u16

record nas_header =
  security_header_type :: nat
  protocol_discriminator :: nat
  sequence_number :: nat

text \<open>What the code calls outside the repository: encoding and encrypting a NAS message (the return
  value, the contents of the output array and the security context), creating a bearer context (the return value, the new
  bearer identity and the context), and setting the state of a bearer.\<close>

record 'c nas_env =
  nas_message_encode :: "nas_request \<Rightarrow> 'c \<Rightarrow> int \<times> byte list \<times> 'c"
  nas_message_encrypt :: "byte list \<Rightarrow> nas_header \<Rightarrow> int \<Rightarrow> 'c \<Rightarrow> int \<times> byte list \<times> 'c"
  esm_proc_dedicated_eps_bearer_context :: "'c \<Rightarrow> esm_proc_qos \<Rightarrow> u32 \<Rightarrow> int \<times> u32 \<times> 'c"
  esm_ebr_set_status :: "'c \<Rightarrow> u32 \<Rightarrow> esm_ebr_state \<Rightarrow> 'c"

record 'c ue_context_data =
  enb_id :: u32
  ebi :: "u32 list option"   \<comment> \<open>the three pointers, set together\<close>
  emm_data :: "'c option"
  counter_UE :: int

text \<open>\<open>sctp_sent\<close>: the messages sent on the association, \<open>setup_threads\<close>: the number of socket threads
  started.\<close>

record 'c drb =
  ue_ctx :: "'c ue_context_data"
  exit_drb :: bool
  sctp_sent :: "byte list list"
  setup_threads :: nat

datatype 'c drb_msg =
    Attach_Forward_Drb 'c
  | S1ap_Nas_Dl_Data_Req
  | Mme_App_Initial_Ue_Message u32
  | Terminate_Message
  | Other_Message

section \<open>The E-RAB setup requests\<close>

definition buf_head :: "byte list" where "buf_head = [0x00, 0x05, 0x00]"

definition buf_pdu :: "byte list" where
  "buf_pdu = [0x00, 0x00, 0x03,
     0x00, 0x00, 0x00, 0x02, 0x00, 0x02,
     0x00, 0x08, 0x00, 0x04, 0x80, 0x06, 0x69, 0x2d,
     0x00, 0x10, 0x00]"

definition buf_list :: "byte list" where "buf_list = [0x00, 0x00, 0x11, 0x00]"

text \<open>\<open>buf_item0\<close>, \<open>buf_item1\<close> and \<open>buf_item2\<close>.\<close>

definition buf_item :: "nat \<Rightarrow> byte list" where
  "buf_item k = [[0x0c, 0x0e, 0x10] ! k, 0x00, 0x04, 0x04, 0x0f, 0x80,
     0xac, 0x10, 0x02, 0x8d,
     0x00, 0x00, 0x00, [0x03, 0x04, 0x05] ! k]"

definition esm_request :: "nat \<Rightarrow> nas_request" where
  "esm_request k =
     \<lparr>epsbeareridentity = [6, 7, 8] ! k, bitRatesPresent = False, bitRatesExtPresent = False, nas_qci = 4,
      linkedepsbeareridentity = 5, presencemask = 0, proceduretransactionidentity = 0,
      protocoldiscriminator = 2, transactionidentifier = 0, numberofpacketfilters = 1, ebit = False,
      eval_precedence = 0, filter_identifier = 1, singleremoteport = [6001, 6002, 6003] ! k\<rparr>"

definition nas_security_header :: nas_header where
  "nas_security_header = \<lparr>security_header_type = 2, protocol_discriminator = 7, sequence_number = 1\<rparr>"

text \<open>The messages are encoded one after the other with the security context of the UE, and then
  encrypted with a copy of it. Each result is a return value and an array.\<close>

fun encode_all :: "'c nas_env \<Rightarrow> nas_request list \<Rightarrow> 'c \<Rightarrow> (int \<times> byte list) list \<times> 'c" where
  "encode_all env [] c = ([], c)"
| "encode_all env (r # rs) c =
     (let (n, plain, c') = nas_message_encode env r c; (xs, c'') = encode_all env rs c' in ((n, plain) # xs, c''))"

fun encrypt_all :: "'c nas_env \<Rightarrow> (int \<times> byte list) list \<Rightarrow> 'c \<Rightarrow> (int \<times> byte list) list" where
  "encrypt_all env [] c = []"
| "encrypt_all env ((n, plain) # xs) c =
     (let (m, enc, c') = nas_message_encrypt env plain nas_security_header (n + 6) c
      in (m, enc) # encrypt_all env xs c')"

definition put_at :: "nat \<Rightarrow> byte list \<Rightarrow> byte list \<Rightarrow> drb_error + byte list" where
  "put_at off src buf =
     (if off + length src \<le> length buf then Inr (put_bytes off src buf) else Inl Buffer_Overrun)"

text \<open>\<^verbatim>\<open>memcpy\<close> of \<open>n\<close> bytes out of an array of \<open>ENCRYPTED_SIZE\<close> bytes.\<close>

definition copy_nas :: "nat \<Rightarrow> int \<times> byte list \<Rightarrow> byte list \<Rightarrow> drb_error + byte list" where
  "copy_nas off e buf = (case e of (n, enc) \<Rightarrow>
     if 0 \<le> n \<and> nat n \<le> ENCRYPTED_SIZE \<and> nat n \<le> length enc then put_at off (take (nat n) enc) buf
     else Inl Buffer_Overrun)"

definition size_item :: "int \<Rightarrow> byte" where
  "size_item n = word_of_int n + 1 + of_nat (length (buf_item 0))"

definition size_list :: "int \<Rightarrow> byte" where
  "size_list n = size_item n + 1 + of_nat (length buf_list)"

definition size_pdu :: "int \<Rightarrow> byte" where
  "size_pdu n = size_list n + 1 + of_nat (length buf_pdu)"

definition enb_id_bytes :: "u32 \<Rightarrow> byte list" where
  "enb_id_bytes w = (let cp = le32 w in [0x80, cp ! 2, cp ! 1, cp ! 0])"

text \<open>The part up to the list, whose lengths are those of the first message. \<open>loaded_list\<close> is the offset
  behind it.\<close>

definition loaded_list :: nat where
  "loaded_list = length buf_head + 1 + length buf_pdu + 1"

definition write_head :: "u32 \<Rightarrow> int \<Rightarrow> byte list \<Rightarrow> drb_error + byte list" where
  "write_head eid n payload =
     rbind (put_at 0 buf_head payload) (\<lambda>p1.
     rbind (put_at (length buf_head) [size_pdu n] p1) (\<lambda>p2.
     rbind (put_at (length buf_head + 1) buf_pdu p2) (\<lambda>p3.
     rbind (put_at (length buf_head + 1 + 13) (enb_id_bytes eid) p3) (\<lambda>p4.
     put_at (length buf_head + 1 + length buf_pdu) [size_list n] p4))))"

text \<open>The list with its only item, and the number of bytes loaded.\<close>

definition write_item :: "nat \<Rightarrow> int \<times> byte list \<Rightarrow> byte list \<Rightarrow> drb_error + byte list \<times> nat" where
  "write_item k e payload =
     (let l1 = loaded_list + length buf_list; l2 = l1 + 1; l3 = l2 + length (buf_item k); l4 = l3 + 1 in
      rbind (put_at loaded_list buf_list payload) (\<lambda>p1.
      rbind (put_at l1 [size_item (fst e)] p1) (\<lambda>p2.
      rbind (put_at l2 (buf_item k) p2) (\<lambda>p3.
      rbind (put_at l3 [word_of_int (fst e)] p3) (\<lambda>p4.
      rbind (copy_nas l4 e p4) (\<lambda>p5. Inr (p5, l4 + nat (fst e))))))))"

text \<open>The three messages share the payload array and the part before the list.\<close>

definition setup_requests :: "u32 \<Rightarrow> (int \<times> byte list) list \<Rightarrow> drb_error + byte list list" where
  "setup_requests eid es =
     rbind (write_head eid (fst (es ! 0)) (replicate PAYLOAD_SIZE 0)) (\<lambda>p.
     rbind (write_item 0 (es ! 0) p) (\<lambda>(p0, n0).
     rbind (write_item 1 (es ! 1) p0) (\<lambda>(p1, n1).
     rbind (write_item 2 (es ! 2) p1) (\<lambda>(p2, n2).
     Inr [take n0 p0, take n1 p1, take n2 p2]))))"

section \<open>The task\<close>

definition drb_qos :: esm_proc_qos where
  "drb_qos = \<lparr>qci = 8, gbrDL = 120, gbrUL = 64, mbrDL = 135, mbrUL = 72\<rparr>"

text \<open>Three new bearer contexts; the identities start as 0.\<close>

definition create_bearers :: "'c nas_env \<Rightarrow> 'c \<Rightarrow> u32 list \<times> 'c" where
  "create_bearers env c =
     (let (_, e0, c0) = esm_proc_dedicated_eps_bearer_context env c drb_qos 0;
          (_, e1, c1) = esm_proc_dedicated_eps_bearer_context env c0 drb_qos 0;
          (_, e2, c2) = esm_proc_dedicated_eps_bearer_context env c1 drb_qos 0
      in ([e0, e1, e2], c2))"

definition set_all :: "'c nas_env \<Rightarrow> esm_ebr_state \<Rightarrow> u32 list \<Rightarrow> 'c \<Rightarrow> 'c" where
  "set_all env st es c = fold (\<lambda>e c. esm_ebr_set_status env c e st) es c"

definition encode_requests :: "'c nas_env \<Rightarrow> 'c \<Rightarrow> (int \<times> byte list) list \<times> 'c" where
  "encode_requests env c = encode_all env (map esm_request [0, 1, 2]) c"

text \<open>The state after the requests were sent: the bearers pending, one more UE and one more thread.\<close>

definition attached :: "'c nas_env \<Rightarrow> u32 list \<Rightarrow> 'c \<Rightarrow> byte list list \<Rightarrow> 'c drb \<Rightarrow> 'c drb" where
  "attached env es c ms d = d\<lparr>ue_ctx := (ue_ctx d)
       \<lparr>ebi := Some es, emm_data := Some (set_all env ESM_EBR_ACTIVE_PENDING es c),
        counter_UE := counter_UE (ue_ctx d) + 1\<rparr>,
     sctp_sent := sctp_sent d @ ms, setup_threads := setup_threads d + 1\<rparr>"

definition attach_forward_drb :: "'c nas_env \<Rightarrow> 'c \<Rightarrow> 'c drb \<Rightarrow> drb_error + 'c drb" where
  "attach_forward_drb env c d =
     (let (es, c1) = create_bearers env c;
          (plains, c2) = encode_requests env c1
      in rbind (setup_requests (enb_id (ue_ctx d)) (encrypt_all env plains c2)) (\<lambda>ms.
           Inr (attached env es c2 ms d)))"

definition activate_bearers :: "'c nas_env \<Rightarrow> 'c drb \<Rightarrow> drb_error + 'c drb" where
  "activate_bearers env d =
     (case (ebi (ue_ctx d), emm_data (ue_ctx d)) of
        (Some es, Some c) \<Rightarrow> Inr (d\<lparr>ue_ctx := (ue_ctx d)\<lparr>emm_data := Some (set_all env ESM_EBR_ACTIVE es c)\<rparr>\<rparr>)
      | _ \<Rightarrow> Inl Null_Deref)"

definition drb_process_itti_msg :: "'c nas_env \<Rightarrow> 'c drb_msg \<Rightarrow> 'c drb \<Rightarrow> drb_error + 'c drb" where
  "drb_process_itti_msg env m d =
     (case m of
        Attach_Forward_Drb c \<Rightarrow> attach_forward_drb env c d
      | S1ap_Nas_Dl_Data_Req \<Rightarrow> activate_bearers env d
      | Mme_App_Initial_Ue_Message i \<Rightarrow> Inr (d\<lparr>ue_ctx := (ue_ctx d)\<lparr>enb_id := i\<rparr>\<rparr>)
      | Terminate_Message \<Rightarrow> Inr (d\<lparr>exit_drb := True\<rparr>)
      | Other_Message \<Rightarrow> Inr d)"

definition drb_init :: "'c drb" where
  "drb_init = \<lparr>ue_ctx = \<lparr>enb_id = 0, ebi = None, emm_data = None, counter_UE = 0\<rparr>,
     exit_drb = False, sctp_sent = [], setup_threads = 0\<rparr>"

definition drb_iter :: "'c nas_env \<Rightarrow> 'c drb_msg \<Rightarrow> 'c drb \<Rightarrow> drb_error + 'c drb" where
  "drb_iter env m d = (if exit_drb d then Inr d else drb_process_itti_msg env m d)"

definition drb_task :: "'c nas_env \<Rightarrow> 'c drb_msg list \<Rightarrow> drb_error + 'c drb" where
  "drb_task env ms = rfold (drb_iter env) ms drb_init"

section \<open>The test traffic\<close>

fun flush_size :: "nat \<Rightarrow> nat" where
  "flush_size n = (case map_of
     [(1, 44), (2, 121), (3, 197), (4, 273), (5, 350), (6, 426), (7, 502), (8, 578), (9, 655), (10, 731),
      (11, 197), (12, 426), (13, 655), (14, 884), (15, 1113), (16, 1341)] n of
     Some k \<Rightarrow> k | None \<Rightarrow> 0)"

text \<open>One period: a random delay before the packet and the rest of the period after it. \<open>now\<close> is the time
  in microseconds at which it starts; a packet is recorded with the time of the call. \<^verbatim>\<open>usleep\<close> takes at
  least the time it is given: \<open>rnd k\<close> is the \<open>k\<close>-th random number and \<open>late j\<close> the time by which the \<open>j\<close>-th
  call of \<^verbatim>\<open>usleep\<close>, with the code up to the next one, exceeds its argument.\<close>

definition flush_period ::
  "nat \<Rightarrow> nat \<Rightarrow> (nat \<Rightarrow> nat) \<Rightarrow> (nat \<Rightarrow> nat) \<Rightarrow> nat \<Rightarrow> byte list \<Rightarrow> nat \<Rightarrow> drb_error + (nat \<times> byte list) \<times> byte list \<times> nat" where
  "flush_period size_send jump rnd late index buffer now =
     (let buf = put_bytes 0 (le32 (of_nat (index + 1))) buffer;
          t1 = rnd index mod (T_GCL + jump);
          t2 = (T_GCL + jump) - t1;
          now1 = now + t1 + late (2 * index);
          now2 = now1 + t2 + late (2 * index + 1)
      in if size_send \<le> BUFSIZE then Inr ((now1, take size_send buf), buf, now2)
         else Inl Buffer_Overrun)"

text \<open>The loop; the first argument is the number of packets that are left.\<close>

fun flush_loop ::
  "nat \<Rightarrow> nat \<Rightarrow> nat \<Rightarrow> (nat \<Rightarrow> nat) \<Rightarrow> (nat \<Rightarrow> nat) \<Rightarrow> nat \<Rightarrow> byte list \<Rightarrow> nat \<Rightarrow> drb_error + (nat \<times> byte list) list" where
  "flush_loop 0 size_send jump rnd late index buffer now = Inr []"
| "flush_loop (Suc n) size_send jump rnd late index buffer now =
     rbind (flush_period size_send jump rnd late index buffer now) (\<lambda>(pkt, buffer', now').
       rbind (flush_loop n size_send jump rnd late (Suc index) buffer' now') (\<lambda>pkts. Inr (pkt # pkts)))"

text \<open>\<open>junk\<close> is what the array holds at first, \<open>sd\<close> the descriptor, which is written behind the counter.\<close>

definition udp_flush_enb ::
  "nat \<Rightarrow> nat \<Rightarrow> u32 \<Rightarrow> (nat \<Rightarrow> nat) \<Rightarrow> (nat \<Rightarrow> nat) \<Rightarrow> byte list \<Rightarrow> nat \<Rightarrow> drb_error + (nat \<times> byte list) list" where
  "udp_flush_enb exp jump sd rnd late junk now =
     flush_loop NUM_PACKETS (flush_size exp) jump rnd late 0 (put_bytes 4 (le32 sd) junk) now"

text \<open>How \<^verbatim>\<open>sockets_setup\<close> ends: with which sockets open, and why.\<close>

datatype setup_end =
    Socket_Failed | Counter_Changed | Bind_Failed | Experiment_Zero | Exited | Still_Waiting

text \<open>The three flows of a trigger: source port, experiment number and jump, to the peer of the
  trigger.\<close>

definition flows :: "sockaddr \<Rightarrow> (u16 \<times> nat \<times> nat \<times> sockaddr) list" where
  "flows peer = [(PORT1, 11, 0, peer), (PORT2, 11, 5000, peer), (PORT3, 11, 15000, peer)]"

text \<open>The main loop. For each round: the value of \<^verbatim>\<open>exit_drb\<close> at its start, and the datagrams that
  arrive at the first socket, with the integer they carry.\<close>

fun trigger_loop :: "(bool \<times> (sockaddr \<times> int) list) list \<Rightarrow> (u16 \<times> nat \<times> nat \<times> sockaddr) list \<times> setup_end" where
  "trigger_loop [] = ([], Still_Waiting)"
| "trigger_loop ((ex, dgs) # rs) =
     (if ex then ([], Exited)
      else case dropWhile (\<lambda>(a, v). sin_port a \<noteq> PORT_UE) dgs of
          [] \<Rightarrow> ([], Still_Waiting)
        | (peer, exp_l) # _ \<Rightarrow>
            if exp_l = 0 then ([], Experiment_Zero)
            else let (fs, e) = trigger_loop rs in (flows peer @ fs, e))"

text \<open>\<open>socks\<close>: the results of the four calls of \<^verbatim>\<open>socket\<close>; \<open>samples\<close>: the counter as read in the 15
  iterations of the waiting loop; \<open>binds\<close>: the results of the four calls of \<^verbatim>\<open>bind\<close>. The result lists
  the sockets that are left open when the thread ends.\<close>

definition opened :: "int list \<Rightarrow> int list" where
  "opened socks = takeWhile (\<lambda>s. 0 \<le> s) (take 4 socks)"

definition sockets_setup ::
  "int \<Rightarrow> int list \<Rightarrow> int list \<Rightarrow> bool list \<Rightarrow> (bool \<times> (sockaddr \<times> int) list) list \<Rightarrow>
   (u16 \<times> nat \<times> nat \<times> sockaddr) list \<times> setup_end \<times> int list" where
  "sockets_setup counter socks samples binds rounds =
     (if list_ex (\<lambda>s. s < 0) (take 4 socks) then ([], Socket_Failed, opened socks)
      else if list_ex (\<lambda>c. c \<noteq> counter) (take 15 samples) then ([], Counter_Changed, [])
      else if list_ex (\<lambda>b. \<not> b) (take 4 binds) then ([], Bind_Failed, [])
      else let (fs, e) = trigger_loop rounds in
        (fs, e, if e = Still_Waiting then take 4 socks else []))"

section \<open>Specification of the requests\<close>

text \<open>A request taken apart: a byte string with a one-byte length in front, four times nested. The
  result is the eNB id field, the item and the NAS message.\<close>

definition len_prefixed :: "byte list \<Rightarrow> byte list option" where
  "len_prefixed bs = (case bs of n # rest \<Rightarrow> if unat n = length rest then Some rest else None | [] \<Rightarrow> None)"

record request =
  req_enb :: "byte list"
  req_item :: "byte list"
  req_nas :: "byte list"

definition parse_request :: "byte list \<Rightarrow> request option" where
  "parse_request bs =
     (if take 3 bs \<noteq> buf_head then None else
      case len_prefixed (drop 3 bs) of None \<Rightarrow> None | Some pdu \<Rightarrow>
      if take 13 pdu \<noteq> take 13 buf_pdu \<or> take 3 (drop 17 pdu) \<noteq> drop 17 buf_pdu then None else
      case len_prefixed (drop 20 pdu) of None \<Rightarrow> None | Some lst \<Rightarrow>
      if take 4 lst \<noteq> buf_list then None else
      case len_prefixed (drop 4 lst) of None \<Rightarrow> None | Some item \<Rightarrow>
      case len_prefixed (drop 14 item) of None \<Rightarrow> None | Some nas \<Rightarrow>
      Some \<lparr>req_enb = take 4 (drop 13 pdu), req_item = take 14 item, req_nas = nas\<rparr>)"

text \<open>The part before the list.\<close>

definition head_bytes :: "u32 \<Rightarrow> int \<Rightarrow> byte list" where
  "head_bytes eid n = buf_head @ [size_pdu n] @ take 13 buf_pdu @ enb_id_bytes eid @ drop 17 buf_pdu @ [size_list n]"

text \<open>The bytes of request \<open>k\<close>, given the NAS message and the length of the first one.\<close>

definition request_bytes :: "u32 \<Rightarrow> int \<Rightarrow> nat \<Rightarrow> byte list \<Rightarrow> byte list" where
  "request_bytes eid n k nas =
     buf_head @ [size_pdu n] @ take 13 buf_pdu @ enb_id_bytes eid @ drop 17 buf_pdu @ [size_list n] @
     buf_list @ [size_item (int (length nas))] @ buf_item k @ [of_nat (length nas)] @ nas"

text \<open>Three encrypted messages that fit their arrays.\<close>

definition enc_ok :: "(int \<times> byte list) list \<Rightarrow> bool" where
  "enc_ok es \<longleftrightarrow> length es = 3 \<and> list_all (\<lambda>(n, e). 0 \<le> n \<and> nat n \<le> ENCRYPTED_SIZE \<and> length e = ENCRYPTED_SIZE) es"

definition enc_bytes :: "int \<times> byte list \<Rightarrow> byte list" where
  "enc_bytes e = take (nat (fst e)) (snd e)"

text \<open>The encrypted messages that are sent for a context.\<close>

definition drb_encrypted :: "'c nas_env \<Rightarrow> 'c \<Rightarrow> (int \<times> byte list) list" where
  "drb_encrypted env c =
     (let (plains, c') = encode_requests env (snd (create_bearers env c))
      in encrypt_all env plains c')"

definition drb_ok :: "'c drb \<Rightarrow> bool" where
  "drb_ok d \<longleftrightarrow> (case (ebi (ue_ctx d), emm_data (ue_ctx d)) of
       (None, None) \<Rightarrow> setup_threads d = 0 | (Some es, Some _) \<Rightarrow> length es = 3 \<and> 0 < setup_threads d | _ \<Rightarrow> False) \<and>
     counter_UE (ue_ctx d) = int (setup_threads d) \<and> length (sctp_sent d) = 3 * setup_threads d"

definition is_attach :: "'c drb_msg \<Rightarrow> bool" where
  "is_attach m = (case m of Attach_Forward_Drb _ \<Rightarrow> True | _ \<Rightarrow> False)"

text \<open>Sample functions in place of the NAS library and the ESM procedures: the context counts the bearers
  and keeps their states.\<close>

definition demo_env :: "(u32 \<times> (u32 \<rightharpoonup> esm_ebr_state)) nas_env" where
  "demo_env = \<lparr>nas_message_encode = (\<lambda>r c. (14, replicate 1000 0, c)),
     nas_message_encrypt = (\<lambda>p h n c. (n, replicate 50 1, c)),
     esm_proc_dedicated_eps_bearer_context = (\<lambda>c q e. (0, fst c + 1, (fst c + 1, snd c))),
     esm_ebr_set_status = (\<lambda>c e st. (fst c, (snd c)(e \<mapsto> st)))\<rparr>"

section \<open>Lemmas\<close>

lemma put_at_Inr [simp]: "off + length src \<le> length buf \<Longrightarrow> put_at off src buf = Inr (put_bytes off src buf)"
  by (simp add: put_at_def)

lemmas buf_defs = buf_head_def buf_pdu_def buf_list_def buf_item_def enb_id_bytes_def

lemma buf_lengths [simp]:
  "length buf_head = 3" "length buf_pdu = 20" "length buf_list = 4" "length (buf_item k) = 14"
  "length (enb_id_bytes w) = 4" "loaded_list = 25"
  by (simp_all add: buf_defs loaded_list_def Let_def)

text \<open>Writing right behind what is already there.\<close>

lemma put_bytes_next:
  assumes "take off buf = pre" and "off + length src \<le> length buf"
  shows "take (off + length src) (put_bytes off src buf) = pre @ src"
proof -
  have "length pre = off" using assms by auto
  then show ?thesis using assms(1) by (auto simp: put_bytes_def)
qed

lemma length_head_bytes [simp]: "length (head_bytes eid n) = 25"
  by (simp add: head_bytes_def)

lemma write_head_ok:
  assumes "length p = PAYLOAD_SIZE"
  shows "\<exists>p'. write_head eid n p = Inr p' \<and> length p' = PAYLOAD_SIZE \<and> take 25 p' = head_bytes eid n"
proof -
  let ?p1 = "put_bytes 0 buf_head p"
  let ?p2 = "put_bytes 3 [size_pdu n] ?p1"
  let ?p3 = "put_bytes 4 buf_pdu ?p2"
  let ?p4 = "put_bytes 17 (enb_id_bytes eid) ?p3"
  let ?p5 = "put_bytes 24 [size_list n] ?p4"
  have l: "length p = 256" using assms by (simp add: PAYLOAD_SIZE_def)
  have "take 3 ?p1 = buf_head" using put_bytes_next [of 0 p "[]" buf_head] l by simp
  then have "take 4 ?p2 = buf_head @ [size_pdu n]"
    using put_bytes_next [of 3 ?p1 buf_head "[size_pdu n]"] l by simp
  then have p3: "take 24 ?p3 = (buf_head @ [size_pdu n]) @ buf_pdu"
    using put_bytes_next [of 4 ?p2 "buf_head @ [size_pdu n]" buf_pdu] l by simp
  have "take 24 ?p4 = take 17 (take 24 ?p3) @ enb_id_bytes eid @ drop 21 (take 24 ?p3)"
    using l by (simp add: put_bytes_def)
  also have "\<dots> = buf_head @ [size_pdu n] @ take 13 buf_pdu @ enb_id_bytes eid @ drop 17 buf_pdu"
    unfolding p3 by simp
  finally have "take 25 ?p5 = head_bytes eid n"
    using put_bytes_next [of 24 ?p4 _ "[size_list n]"] l by (simp add: head_bytes_def)
  moreover have "write_head eid n p = Inr ?p5" using l by (simp add: write_head_def)
  ultimately show ?thesis using l by (simp add: PAYLOAD_SIZE_def)
qed

text \<open>The list, its item and the NAS message behind it.\<close>

lemma write_item_ok:
  assumes "length p = PAYLOAD_SIZE" and "take 25 p = h"
    and "0 \<le> n" and "nat n \<le> ENCRYPTED_SIZE" and "length e = ENCRYPTED_SIZE"
  shows "\<exists>p'. write_item k (n, e) p = Inr (p', 45 + nat n) \<and> length p' = PAYLOAD_SIZE \<and> take 25 p' = h \<and>
    take (45 + nat n) p' = h @ buf_list @ [size_item n] @ buf_item k @ [word_of_int n] @ take (nat n) e"
proof -
  let ?p1 = "put_bytes 25 buf_list p"
  let ?p2 = "put_bytes 29 [size_item n] ?p1"
  let ?p3 = "put_bytes 30 (buf_item k) ?p2"
  let ?p4 = "put_bytes 44 [word_of_int n] ?p3"
  let ?p5 = "put_bytes 45 (take (nat n) e) ?p4"
  have l: "length p = 256" using assms(1) by (simp add: PAYLOAD_SIZE_def)
  have n: "nat n \<le> 50" "length e = 50" using assms(4,5) by (simp_all add: ENCRYPTED_SIZE_def)
  have "take 29 ?p1 = h @ buf_list" using put_bytes_next [of 25 p h buf_list] l assms(2) by simp
  then have "take 30 ?p2 = h @ buf_list @ [size_item n]"
    using put_bytes_next [of 29 ?p1 _ "[size_item n]"] l by simp
  then have "take 44 ?p3 = h @ buf_list @ [size_item n] @ buf_item k"
    using put_bytes_next [of 30 ?p2 _ "buf_item k"] l by simp
  then have "take 45 ?p4 = h @ buf_list @ [size_item n] @ buf_item k @ [word_of_int n]"
    using put_bytes_next [of 44 ?p3 _ "[word_of_int n]"] l by simp
  then have t: "take (45 + nat n) ?p5 =
      h @ buf_list @ [size_item n] @ buf_item k @ [word_of_int n] @ take (nat n) e"
    using put_bytes_next [of 45 ?p4 _ "take (nat n) e"] l n by simp
  have len: "length ?p5 = 256" using l n by simp
  have "take 25 ?p5 = take 25 (take (45 + nat n) ?p5)" by simp
  also have "\<dots> = h" unfolding t using assms(2) l by auto
  finally have h: "take 25 ?p5 = h" .
  have "write_item k (n, e) p = Inr (?p5, 45 + nat n)"
    using l n assms(3) by (simp add: write_item_def copy_nas_def ENCRYPTED_SIZE_def)
  with t h len show ?thesis by (simp add: PAYLOAD_SIZE_def)
qed

lemma setup_requests_ok:
  assumes "enc_ok es"
  shows "setup_requests eid es =
    Inr (map (\<lambda>k. request_bytes eid (fst (es ! 0)) k (enc_bytes (es ! k))) [0..<3])"
proof -
  obtain n0 e0 n1 e1 n2 e2 where es: "es = [(n0, e0), (n1, e1), (n2, e2)]"
    using assms by (auto simp: enc_ok_def length_Suc_conv numeral_3_eq_3)
  have ok: "0 \<le> n0" "nat n0 \<le> ENCRYPTED_SIZE" "length e0 = ENCRYPTED_SIZE"
    "0 \<le> n1" "nat n1 \<le> ENCRYPTED_SIZE" "length e1 = ENCRYPTED_SIZE"
    "0 \<le> n2" "nat n2 \<le> ENCRYPTED_SIZE" "length e2 = ENCRYPTED_SIZE"
    using assms by (simp_all add: es enc_ok_def)
  obtain p where p: "write_head eid n0 (replicate PAYLOAD_SIZE 0) = Inr p" "length p = PAYLOAD_SIZE"
    "take 25 p = head_bytes eid n0"
    using write_head_ok [of "replicate PAYLOAD_SIZE 0"] by auto
  let ?h = "head_bytes eid n0"
  obtain p0 where p0: "write_item 0 (n0, e0) p = Inr (p0, 45 + nat n0)" "length p0 = PAYLOAD_SIZE"
    "take 25 p0 = ?h"
    "take (45 + nat n0) p0 = ?h @ buf_list @ [size_item n0] @ buf_item 0 @ [word_of_int n0] @ take (nat n0) e0"
    using write_item_ok [OF p(2,3) ok(1,2,3)] by blast
  obtain p1 where p1: "write_item 1 (n1, e1) p0 = Inr (p1, 45 + nat n1)" "length p1 = PAYLOAD_SIZE"
    "take 25 p1 = ?h"
    "take (45 + nat n1) p1 = ?h @ buf_list @ [size_item n1] @ buf_item 1 @ [word_of_int n1] @ take (nat n1) e1"
    using write_item_ok [OF p0(2,3) ok(4,5,6)] by blast
  obtain p2 where p2: "write_item 2 (n2, e2) p1 = Inr (p2, 45 + nat n2)"
    "take (45 + nat n2) p2 = ?h @ buf_list @ [size_item n2] @ buf_item 2 @ [word_of_int n2] @ take (nat n2) e2"
    using write_item_ok [OF p1(2,3) ok(7,8,9)] by blast
  have len: "int (length (take (nat n) e)) = n" "of_nat (length (take (nat n) e)) = (word_of_int n :: byte)"
    if "0 \<le> n" "nat n \<le> ENCRYPTED_SIZE" "length e = ENCRYPTED_SIZE" for n and e :: "byte list"
    using that by (simp_all add: min_absorb2)
  have u: "[0..<3] = [0, 1, 2 :: nat]" by (simp add: upt_rec)
  show ?thesis
    using p(1) p0(1,4) p1(1,4) p2 ok len
    by (simp add: setup_requests_def es request_bytes_def enc_bytes_def head_bytes_def u)
qed

lemma size_values:
  assumes "0 \<le> n" and "n \<le> 50"
  shows "unat (size_item n) = nat n + 15" "unat (size_list n) = nat n + 20" "unat (size_pdu n) = nat n + 41"
proof -
  have w: "unat (word_of_int n + of_nat j :: byte) = nat n + j" if "j \<le> 41" for j
  proof -
    have "(word_of_int n + of_nat j :: byte) = of_nat (nat n + j)" using assms(1) by simp
    moreover have "nat n + j < 256" using assms that by linarith
    ultimately show ?thesis by (simp only: unat_byte)
  qed
  have "size_item n = word_of_int n + of_nat 15" "size_list n = word_of_int n + of_nat 20"
    "size_pdu n = word_of_int n + of_nat 41"
    by (simp_all add: size_item_def size_list_def size_pdu_def)
  then show "unat (size_item n) = nat n + 15" "unat (size_list n) = nat n + 20" "unat (size_pdu n) = nat n + 41"
    using w [of 15] w [of 20] w [of 41] by simp_all
qed

lemma parse_request_bytes:
  assumes "0 \<le> n" and "n \<le> 50" and "length nas \<le> 50"
  shows "parse_request (request_bytes eid n k nas) =
    (if n = int (length nas)
     then Some \<lparr>req_enb = enb_id_bytes eid, req_item = buf_item k, req_nas = nas\<rparr> else None)"
proof -
  let ?rest = "take 13 buf_pdu @ enb_id_bytes eid @ drop 17 buf_pdu @ [size_list n] @
     buf_list @ [size_item (int (length nas))] @ buf_item k @ [of_nat (length nas)] @ nas"
  have r: "request_bytes eid n k nas = buf_head @ [size_pdu n] @ ?rest" by (simp add: request_bytes_def)
  have h: "take 3 (request_bytes eid n k nas) = buf_head" by (simp add: r)
  have "unat (size_pdu n) = nat n + 41" using size_values assms by simp
  moreover have "length ?rest = 41 + length nas" by simp
  ultimately have pdu: "len_prefixed (drop 3 (request_bytes eid n k nas)) =
      (if n = int (length nas) then Some ?rest else None)"
    using assms(1) by (auto simp: len_prefixed_def r)
  have sz: "unat (size_list (int (length nas))) = length nas + 20"
    "unat (size_item (int (length nas))) = length nas + 15" "unat (of_nat (length nas) :: byte) = length nas"
    using size_values [of "int (length nas)"] assms(3) by (simp_all add: unat_byte)
  show ?thesis
    unfolding parse_request_def h pdu using sz
    by (simp add: len_prefixed_def)
qed

lemma enc_ok_nth:
  assumes "enc_ok es" and "k < 3"
  shows "0 \<le> fst (es ! k)" "fst (es ! k) \<le> 50" "length (enc_bytes (es ! k)) = nat (fst (es ! k))"
proof -
  obtain n e where e: "es ! k = (n, e)" by (cases "es ! k")
  have "0 \<le> n \<and> nat n \<le> 50 \<and> length e = 50"
    using assms e by (auto simp: enc_ok_def list_all_length ENCRYPTED_SIZE_def)
  then show "0 \<le> fst (es ! k)" "fst (es ! k) \<le> 50" "length (enc_bytes (es ! k)) = nat (fst (es ! k))"
    by (auto simp: e enc_bytes_def)
qed

section \<open>Properties of the requests\<close>

text \<open>C11. The three E-RAB setup requests are well formed: if the three encrypted NAS messages fit their
  arrays and have the same length, the code writes three messages in which all nested lengths
  agree with the bytes that follow, and taking message \<open>k\<close> apart yields the eNB id of the UE, the
  item of bearer \<open>6 + k\<close> with tunnel id \<open>3 + k\<close>, and the encrypted NAS message \<open>k\<close>. No write leaves
  the payload array.\<close>

theorem setup_requests_parse:
  assumes "enc_ok es" and "\<forall>k<3. fst (es ! k) = fst (es ! 0)"
  shows "\<exists>ms. setup_requests eid es = Inr ms \<and> length ms = 3 \<and>
    (\<forall>k<3. parse_request (ms ! k) =
       Some \<lparr>req_enb = [0x80, le32 eid ! 2, le32 eid ! 1, le32 eid ! 0], req_item = buf_item k,
             req_nas = enc_bytes (es ! k)\<rparr> \<and>
       hd (buf_item k) = of_nat (2 * (6 + k)) \<and> of_be32 (drop 10 (buf_item k)) = of_nat (3 + k))"
proof -
  let ?m = "\<lambda>k. request_bytes eid (fst (es ! 0)) k (enc_bytes (es ! k))"
  note ok = enc_ok_nth [OF assms(1)]
  have p: "parse_request (?m k) = Some \<lparr>req_enb = enb_id_bytes eid, req_item = buf_item k,
             req_nas = enc_bytes (es ! k)\<rparr>" if "k < 3" for k
  proof -
    have "fst (es ! k) = fst (es ! 0)" using assms(2) that by blast
    with ok [OF that] show ?thesis by (simp add: parse_request_bytes)
  qed
  have b: "hd (buf_item k) = of_nat (2 * (6 + k)) \<and> of_be32 (drop 10 (buf_item k)) = of_nat (3 + k)" if "k < 3" for k
  proof -
    from that consider "k = 0" | "k = 1" | "k = 2" by linarith
    then show ?thesis by cases (simp_all add: buf_item_def of_be32_def)
  qed
  show ?thesis using setup_requests_ok [OF assms(1)] p b
    by (intro exI [of _ "map ?m [0..<3]"]) (simp add: enb_id_bytes_def Let_def)
qed

lemma setup_requests_parse_witness:
  "\<exists>ms. setup_requests 0x06692d (replicate 3 (20, replicate 50 7)) = Inr ms \<and> length ms = 3 \<and>
    (\<forall>k<3. parse_request (ms ! k) =
       Some \<lparr>req_enb = [0x80, le32 0x06692d ! 2, le32 0x06692d ! 1, le32 0x06692d ! 0], req_item = buf_item k,
             req_nas = enc_bytes (replicate 3 (20, replicate 50 7) ! k)\<rparr> \<and>
       hd (buf_item k) = of_nat (2 * (6 + k)) \<and> of_be32 (drop 10 (buf_item k)) = of_nat (3 + k))"
  by (rule setup_requests_parse) (simp_all add: enc_ok_def ENCRYPTED_SIZE_def list_all_length)

text \<open>The outer lengths of the second and third request are those of the first: the code computes
  them once. A request whose encrypted NAS message has another length than the first one is
  therefore malformed; the outer length does not agree with the bytes that follow.\<close>

theorem setup_request_malformed:
  assumes "enc_ok es" and "k < 3" and "fst (es ! k) \<noteq> fst (es ! 0)"
  shows "\<exists>ms. setup_requests eid es = Inr ms \<and> parse_request (ms ! k) = None"
proof -
  note ok = enc_ok_nth [OF assms(1)]
  have "parse_request (request_bytes eid (fst (es ! 0)) k (enc_bytes (es ! k))) = None"
    using ok [OF assms(2)] ok [of 0] assms(3) by (subst parse_request_bytes) auto
  then show ?thesis using setup_requests_ok [OF assms(1)] assms(2) by simp
qed

lemma setup_request_malformed_witness:
  "\<exists>ms. setup_requests 7 [(20, replicate 50 7), (21, replicate 50 7), (20, replicate 50 7)] = Inr ms \<and>
     parse_request (ms ! 1) = None"
  by (rule setup_request_malformed) (simp_all add: enc_ok_def ENCRYPTED_SIZE_def)

section \<open>Properties of the task\<close>

lemma attach_forward_Inr:
  assumes "enc_ok (drb_encrypted env c)"
  shows "\<exists>es c2 ms. length es = 3 \<and> setup_requests (enb_id (ue_ctx d)) (drb_encrypted env c) = Inr ms \<and>
    attach_forward_drb env c d = Inr (attached env es c2 ms d)"
proof -
  obtain es c1 where b: "create_bearers env c = (es, c1)" by (cases "create_bearers env c")
  obtain plains c2 where e: "encode_requests env c1 = (plains, c2)" by (cases "encode_requests env c1")
  have x: "drb_encrypted env c = encrypt_all env plains c2" using e by (simp add: drb_encrypted_def b)
  have l: "length es = 3" using b by (auto simp: create_bearers_def split: prod.splits)
  obtain ms where "setup_requests (enb_id (ue_ctx d)) (drb_encrypted env c) = Inr ms"
    using setup_requests_ok [OF assms] by blast
  moreover from this have "attach_forward_drb env c d = Inr (attached env es c2 ms d)"
    by (simp add: attach_forward_drb_def b e x)
  ultimately show ?thesis using l by blast
qed

lemma attached_sel [simp]:
  "ebi (ue_ctx (attached env es c ms d)) = Some es"
  "emm_data (ue_ctx (attached env es c ms d)) = Some (set_all env ESM_EBR_ACTIVE_PENDING es c)"
  "counter_UE (ue_ctx (attached env es c ms d)) = counter_UE (ue_ctx d) + 1"
  "enb_id (ue_ctx (attached env es c ms d)) = enb_id (ue_ctx d)"
  "sctp_sent (attached env es c ms d) = sctp_sent d @ ms"
  "setup_threads (attached env es c ms d) = Suc (setup_threads d)"
  "exit_drb (attached env es c ms d) = exit_drb d"
  by (simp_all add: attached_def)

lemma setup_requests_length: "setup_requests eid es = Inr ms \<Longrightarrow> length ms = 3"
  by (auto simp: setup_requests_def rbind_Inr_conv split: prod.splits)

lemma drb_iter_simps [simp]:
  "\<not> exit_drb d \<Longrightarrow> drb_iter env m d = drb_process_itti_msg env m d"
  "exit_drb d \<Longrightarrow> drb_iter env m d = Inr d"
  by (simp_all add: drb_iter_def)

lemma drb_init_sel [simp]: "exit_drb drb_init = False" "sctp_sent drb_init = []" "ebi (ue_ctx drb_init) = None"
  by (simp_all add: drb_init_def)

lemma drb_iter_ok: "drb_ok d \<Longrightarrow> drb_iter env m d = Inr d' \<Longrightarrow> drb_ok d'"
proof (cases "exit_drb d")
  case True
  then show "drb_ok d \<Longrightarrow> drb_iter env m d = Inr d' \<Longrightarrow> drb_ok d'" by (simp add: drb_iter_def)
next
  case False
  assume ok: "drb_ok d" and "drb_iter env m d = Inr d'"
  then have r: "drb_process_itti_msg env m d = Inr d'" using False by (simp add: drb_iter_def)
  show "drb_ok d'"
  proof (cases m)
    case (Attach_Forward_Drb c)
    then obtain es c1 plains c2 ms where d': "d' = attached env es c2 ms d"
      and b: "create_bearers env c = (es, c1)"
      and ms: "setup_requests (enb_id (ue_ctx d)) (encrypt_all env plains c2) = Inr ms"
      using r by (auto simp: drb_process_itti_msg_def attach_forward_drb_def rbind_Inr_conv split: prod.splits)
    have "length es = 3" using b by (auto simp: create_bearers_def split: prod.splits)
    then show ?thesis using ok setup_requests_length [OF ms] by (simp add: d' drb_ok_def)
  qed (use r ok in \<open>auto simp: drb_process_itti_msg_def activate_bearers_def drb_ok_def split: option.splits\<close>)
qed

interpretation drb_loop: keeps_err "drb_iter env" drb_ok for env
  by unfold_locales (rule drb_iter_ok)

lemma drb_init_ok: "drb_ok drb_init"
  by (simp add: drb_ok_def drb_init_def)

text \<open>C24. Whatever messages the task handles, the bearers, the context, the counter and the requests stay
  consistent: the three bearer identities are known exactly when a context is, the counter of UEs
  is the number of socket threads that were started, and three requests were sent for each.\<close>

theorem drb_task_invariant:
  assumes "drb_task env ms = Inr d"
  shows "(ebi (ue_ctx d) = None \<longleftrightarrow> emm_data (ue_ctx d) = None) \<and>
    (\<forall>es. ebi (ue_ctx d) = Some es \<longrightarrow> length es = 3) \<and>
    counter_UE (ue_ctx d) = int (setup_threads d) \<and> length (sctp_sent d) = 3 * setup_threads d"
  using drb_loop.run_err_inv [OF drb_init_ok assms [unfolded drb_task_def]]
  by (auto simp: drb_ok_def split: option.splits)

lemma demo_env_enc: "enc_ok (drb_encrypted demo_env c)"
  by (simp add: drb_encrypted_def encode_requests_def demo_env_def create_bearers_def enc_ok_def ENCRYPTED_SIZE_def)

lemma demo_attach: "\<exists>d. drb_task demo_env [Mme_App_Initial_Ue_Message 7, Attach_Forward_Drb (5, Map.empty)] = Inr d"
proof -
  let ?d = "drb_init\<lparr>ue_ctx := (ue_ctx drb_init)\<lparr>enb_id := 7\<rparr>\<rparr>"
  obtain d where "attach_forward_drb demo_env (5, Map.empty) ?d = Inr d"
    using attach_forward_Inr [OF demo_env_enc] by blast
  then show ?thesis by (simp add: drb_task_def drb_process_itti_msg_def)
qed

lemma drb_task_invariant_witness:
  "\<exists>d. drb_task demo_env [Mme_App_Initial_Ue_Message 7, Attach_Forward_Drb (5, Map.empty)] = Inr d \<and>
     (ebi (ue_ctx d) = None \<longleftrightarrow> emm_data (ue_ctx d) = None) \<and>
     counter_UE (ue_ctx d) = int (setup_threads d) \<and> length (sctp_sent d) = 3 * setup_threads d"
  using demo_attach drb_task_invariant by blast

lemma set_all_status:
  assumes "\<And>c e st e'. status (esm_ebr_set_status env c e st) e' = (if e' = e then Some st else status c e')"
  shows "status (set_all env st es c) e' = (if e' \<in> set es then Some st else status c e')"
  unfolding set_all_def by (induction es arbitrary: c) (auto simp: assms)

text \<open>The life of the dedicated bearers: the initial message of a UE, its attach and the answer of the
  eNB. The attach sends the three requests with the eNB id of the initial message and leaves all
  three bearers pending; the answer makes exactly these bearers active and sends nothing. The
  function that sets the state of a bearer is assumed to change the state of that bearer only.\<close>

theorem drb_lifecycle:
  assumes "\<And>c e st e'. status (esm_ebr_set_status env c e st) e' = (if e' = e then Some st else status c e')"
    and "enc_ok (drb_encrypted env c)"
  shows "\<exists>d1 d2 es c1 c2. drb_task env [Mme_App_Initial_Ue_Message i, Attach_Forward_Drb c] = Inr d1 \<and>
    drb_task env [Mme_App_Initial_Ue_Message i, Attach_Forward_Drb c, S1ap_Nas_Dl_Data_Req] = Inr d2 \<and>
    setup_requests i (drb_encrypted env c) = Inr (sctp_sent d1) \<and> sctp_sent d2 = sctp_sent d1 \<and>
    ebi (ue_ctx d1) = Some es \<and> ebi (ue_ctx d2) = Some es \<and> length es = 3 \<and>
    emm_data (ue_ctx d1) = Some c1 \<and> emm_data (ue_ctx d2) = Some c2 \<and>
    (\<forall>e\<in>set es. status c1 e = Some ESM_EBR_ACTIVE_PENDING \<and> status c2 e = Some ESM_EBR_ACTIVE) \<and>
    (\<forall>e. e \<notin> set es \<longrightarrow> status c2 e = status c1 e)"
proof -
  let ?d = "drb_init\<lparr>ue_ctx := (ue_ctx drb_init)\<lparr>enb_id := i\<rparr>\<rparr>"
  obtain es c2 ms where l: "length es = 3"
    and ms: "setup_requests i (drb_encrypted env c) = Inr ms"
    and r: "attach_forward_drb env c ?d = Inr (attached env es c2 ms ?d)"
    using attach_forward_Inr [OF assms(2), where d = ?d] by auto
  let ?d1 = "attached env es c2 ms ?d"
  let ?d2 = "?d1\<lparr>ue_ctx := (ue_ctx ?d1)\<lparr>emm_data := Some (set_all env ESM_EBR_ACTIVE es
      (set_all env ESM_EBR_ACTIVE_PENDING es c2))\<rparr>\<rparr>"
  have t1: "drb_task env [Mme_App_Initial_Ue_Message i, Attach_Forward_Drb c] = Inr ?d1"
    using r by (simp add: drb_task_def drb_process_itti_msg_def)
  have t2: "drb_task env [Mme_App_Initial_Ue_Message i, Attach_Forward_Drb c, S1ap_Nas_Dl_Data_Req] = Inr ?d2"
    using r by (simp add: drb_task_def drb_process_itti_msg_def activate_bearers_def)
  note st = set_all_status [of status, OF assms(1)]
  show ?thesis
    using l ms t1 t2
    by (intro exI [of _ ?d1] exI [of _ ?d2] exI [of _ es]
        exI [of _ "set_all env ESM_EBR_ACTIVE_PENDING es c2"] exI [of _ "set_all env ESM_EBR_ACTIVE es (set_all env ESM_EBR_ACTIVE_PENDING es c2)"])
      (simp add: st)
qed

lemma drb_lifecycle_witness:
  "\<exists>d1 d2 es c1 c2. drb_task demo_env [Mme_App_Initial_Ue_Message 7, Attach_Forward_Drb (5, Map.empty)] = Inr d1 \<and>
    drb_task demo_env [Mme_App_Initial_Ue_Message 7, Attach_Forward_Drb (5, Map.empty), S1ap_Nas_Dl_Data_Req] = Inr d2 \<and>
    setup_requests 7 (drb_encrypted demo_env (5, Map.empty)) = Inr (sctp_sent d1) \<and> sctp_sent d2 = sctp_sent d1 \<and>
    ebi (ue_ctx d1) = Some es \<and> ebi (ue_ctx d2) = Some es \<and> length es = 3 \<and>
    emm_data (ue_ctx d1) = Some c1 \<and> emm_data (ue_ctx d2) = Some c2 \<and>
    (\<forall>e\<in>set es. snd c1 e = Some ESM_EBR_ACTIVE_PENDING \<and> snd c2 e = Some ESM_EBR_ACTIVE) \<and>
    (\<forall>e. e \<notin> set es \<longrightarrow> snd c2 e = snd c1 e)"
  by (rule drb_lifecycle) (simp_all add: demo_env_enc, simp add: demo_env_def)

text \<open>A first answer of the eNB, with neither an attach nor a termination before it.\<close>

lemma early_answer_Cons:
  "(\<exists>pre post. m # ms = pre @ S1ap_Nas_Dl_Data_Req # post \<and> (\<forall>m\<in>set pre. \<not> is_attach m \<and> m \<noteq> S1ap_Nas_Dl_Data_Req \<and> m \<noteq> Terminate_Message)) \<longleftrightarrow>
   m = S1ap_Nas_Dl_Data_Req \<or> (\<not> is_attach m \<and> m \<noteq> S1ap_Nas_Dl_Data_Req \<and> m \<noteq> Terminate_Message \<and>
     (\<exists>pre post. ms = pre @ S1ap_Nas_Dl_Data_Req # post \<and> (\<forall>m\<in>set pre. \<not> is_attach m \<and> m \<noteq> S1ap_Nas_Dl_Data_Req \<and> m \<noteq> Terminate_Message)))"
proof -
  let ?ok = "\<lambda>m. \<not> is_attach m \<and> m \<noteq> S1ap_Nas_Dl_Data_Req \<and> m \<noteq> Terminate_Message"
  let ?bad = "\<lambda>ms. \<exists>pre post. ms = pre @ S1ap_Nas_Dl_Data_Req # post \<and> (\<forall>m\<in>set pre. ?ok m)"
  have other: "?bad (m # ms)" if m: "?ok m" and "?bad ms"
  proof -
    from \<open>?bad ms\<close> obtain pre post where "ms = pre @ S1ap_Nas_Dl_Data_Req # post" "\<forall>m\<in>set pre. ?ok m" by blast
    with m show ?thesis by (intro exI [of _ "m # pre"] exI [of _ post]) simp
  qed
  have first: "?bad (S1ap_Nas_Dl_Data_Req # ms)" by (intro exI [of _ "[]"] exI [of _ ms]) simp
  have split: "m = S1ap_Nas_Dl_Data_Req \<or> (?ok m \<and> ?bad ms)" if "?bad (m # ms)"
  proof -
    from that obtain pre post where "m # ms = pre @ S1ap_Nas_Dl_Data_Req # post" "\<forall>m\<in>set pre. ?ok m" by blast
    then show ?thesis by (cases pre) auto
  qed
  have "?bad (m # ms) \<longleftrightarrow> m = S1ap_Nas_Dl_Data_Req \<or> (?ok m \<and> ?bad ms)"
  proof
    assume "m = S1ap_Nas_Dl_Data_Req \<or> (?ok m \<and> ?bad ms)"
    then show "?bad (m # ms)"
    proof
      assume "m = S1ap_Nas_Dl_Data_Req"
      then show ?thesis by (simp only: first)
    next
      assume "?ok m \<and> ?bad ms"
      then show ?thesis by (intro other) (rule conjunct1, assumption, rule conjunct2, assumption)
    qed
  qed (rule split)
  then show ?thesis by (simp only: conj_assoc)
qed

lemma drb_runs_on:
  assumes "\<And>c. enc_ok (drb_encrypted env c)" and "exit_drb d \<or> (\<exists>es c. ebi (ue_ctx d) = Some es \<and> emm_data (ue_ctx d) = Some c)"
  shows "\<exists>d'. rfold (drb_iter env) ms d = Inr d'"
  using assms(2)
proof (induction ms arbitrary: d)
  case (Cons m ms)
  have "\<exists>d'. drb_iter env m d = Inr d' \<and> (exit_drb d' \<or> (\<exists>es c. ebi (ue_ctx d') = Some es \<and> emm_data (ue_ctx d') = Some c))"
    using Cons.prems attach_forward_Inr [OF assms(1)]
    by (cases "exit_drb d"; cases m) (fastforce simp: drb_process_itti_msg_def activate_bearers_def)+
  then show ?case using Cons.IH by auto
qed simp

text \<open>The answer of the eNB is handled without a check that a UE has attached: the task follows a null
  pointer exactly when such an answer is handled before the first attach. Nothing else fails, if the
  encrypted messages fit their arrays.\<close>

theorem drb_null_deref:
  assumes "\<And>c. enc_ok (drb_encrypted env c)"
  shows "(drb_task env ms = Inl e) \<longleftrightarrow> e = Null_Deref \<and> (\<exists>pre post. ms = pre @ S1ap_Nas_Dl_Data_Req # post \<and>
     (\<forall>m\<in>set pre. \<not> is_attach m \<and> m \<noteq> S1ap_Nas_Dl_Data_Req \<and> m \<noteq> Terminate_Message))"
proof -
  let ?bad = "\<lambda>ms. \<exists>pre post. ms = pre @ S1ap_Nas_Dl_Data_Req # post \<and>
     (\<forall>m\<in>set pre. \<not> is_attach m \<and> m \<noteq> S1ap_Nas_Dl_Data_Req \<and> m \<noteq> Terminate_Message)"
  note safe = drb_runs_on [OF assms]
  have "(rfold (drb_iter env) ms d = Inl e) \<longleftrightarrow> e = Null_Deref \<and> ?bad ms"
    if "\<not> exit_drb d" "ebi (ue_ctx d) = None" for d
    using that
  proof (induction ms arbitrary: d)
    case (Cons m ms)
    show ?case
    proof (cases m)
      case (Attach_Forward_Drb c)
      obtain d' where d': "attach_forward_drb env c d = Inr d'"
        "\<exists>es c. ebi (ue_ctx d') = Some es \<and> emm_data (ue_ctx d') = Some c"
        using attach_forward_Inr [OF assms, where c = c and d = d] by auto
      with safe [of d' ms] Cons.prems show ?thesis unfolding early_answer_Cons
        by (auto simp: Attach_Forward_Drb drb_process_itti_msg_def is_attach_def)
    next
      case Terminate_Message
      with safe [of "d\<lparr>exit_drb := True\<rparr>" ms] Cons.prems show ?thesis unfolding early_answer_Cons
        by (auto simp: drb_process_itti_msg_def is_attach_def)
    qed (use Cons in \<open>unfold early_answer_Cons, auto simp: drb_process_itti_msg_def
            activate_bearers_def is_attach_def\<close>)
  qed simp
  from this [of drb_init] show ?thesis by (simp add: drb_task_def drb_init_def)
qed

lemma drb_null_deref_witness:
  "drb_task demo_env [Mme_App_Initial_Ue_Message 7, S1ap_Nas_Dl_Data_Req] = Inl Null_Deref"
proof -
  have "\<exists>pre post. [Mme_App_Initial_Ue_Message 7, S1ap_Nas_Dl_Data_Req] =
        pre @ (S1ap_Nas_Dl_Data_Req :: (u32 \<times> (u32 \<rightharpoonup> esm_ebr_state)) drb_msg) # post \<and>
     (\<forall>m\<in>set pre. \<not> is_attach m \<and> m \<noteq> S1ap_Nas_Dl_Data_Req \<and> m \<noteq> Terminate_Message)"
    by (rule exI [of _ "[Mme_App_Initial_Ue_Message 7]"], rule exI [of _ "[]"]) (simp add: is_attach_def)
  then show ?thesis by (simp add: drb_null_deref [OF demo_env_enc])
qed

section \<open>Properties of the test traffic\<close>

lemma flush_loop_ok:
  assumes "8 \<le> sz" and "sz \<le> BUFSIZE" and "length buf = BUFSIZE" and "take 4 (drop 4 buf) = le32 sd"
  shows "\<exists>pkts. flush_loop n sz jump rnd late i buf now = Inr pkts \<and> length pkts = n \<and>
    (\<forall>k<n. fst (pkts ! k) = now + k * (T_GCL + jump) + rnd (i + k) mod (T_GCL + jump) + sum late {2 * i..2 * (i + k)} \<and>
       snd (pkts ! k) = le32 (of_nat (i + k + 1)) @ le32 sd @ take (sz - 8) (drop 8 buf))"
  using assms(3,4)
proof (induction n arbitrary: i buf now)
  case 0
  then show ?case by simp
next
  case (Suc n)
  let ?T = "T_GCL + jump"
  let ?b = "put_bytes 0 (le32 (of_nat (i + 1))) buf"
  let ?l = "late (2 * i)" and ?l' = "late (2 * i + 1)"
  have len: "8 \<le> length buf" using Suc.prems(1) assms(1,2) by simp
  have b: "length ?b = BUFSIZE" "take 4 (drop 4 ?b) = le32 sd" "drop 8 ?b = drop 8 buf" "take 4 ?b = le32 (of_nat (i + 1))"
    using Suc.prems len by (simp_all add: put_bytes_def)
  have "?b = take 4 ?b @ take 4 (drop 4 ?b) @ drop 8 ?b"
    by (metis append_take_drop_id drop_drop add_2_eq_Suc' add_numeral_left numeral_Bit0)
  then have "take sz ?b = take sz (le32 (of_nat (i + 1)) @ le32 sd @ drop 8 buf)" using b by metis
  then have t: "take sz ?b = le32 (of_nat (i + 1)) @ le32 sd @ take (sz - 8) (drop 8 buf)"
    using assms(1) by simp
  have m: "rnd i mod ?T < ?T" by (simp add: T_GCL_def)
  let ?now = "now + ?T + ?l + ?l'"
  have p: "flush_period sz jump rnd late i buf now = Inr ((now + rnd i mod ?T + ?l, take sz ?b), ?b, ?now)"
    using assms(2) m by (simp add: flush_period_def Let_def)
  obtain pkts where q: "flush_loop n sz jump rnd late (Suc i) ?b ?now = Inr pkts" "length pkts = n"
    and k: "\<And>k. k < n \<Longrightarrow> fst (pkts ! k) = ?now + k * ?T + rnd (Suc i + k) mod ?T + sum late {2 * Suc i..2 * (Suc i + k)} \<and>
       snd (pkts ! k) = le32 (of_nat (Suc i + k + 1)) @ le32 sd @ take (sz - 8) (drop 8 buf)"
    using Suc.IH [OF b(1,2), of "Suc i" ?now] b(3) by auto
  let ?pkts = "(now + rnd i mod ?T + ?l, take sz ?b) # pkts"
  have "fst (?pkts ! k) = now + k * ?T + rnd (i + k) mod ?T + sum late {2 * i..2 * (i + k)} \<and>
       snd (?pkts ! k) = le32 (of_nat (i + k + 1)) @ le32 sd @ take (sz - 8) (drop 8 buf)"
    if "k < Suc n" for k
  proof (cases k)
    case 0
    then show ?thesis using t by simp
  next
    case (Suc j)
    have "sum late {2 * i..2 * (i + k)} = ?l + (?l' + sum late {2 * Suc i..2 * (i + k)})"
      using Suc sum.atLeast_Suc_atMost [of "2 * i" "2 * (i + k)" late]
        sum.atLeast_Suc_atMost [of "Suc (2 * i)" "2 * (i + k)" late] by simp
    moreover have "j < n" using that Suc by simp
    ultimately show ?thesis using k [of j] by (simp add: Suc)
  qed
  moreover have "flush_loop (Suc n) sz jump rnd late i buf now = Inr ?pkts" using p q(1) by simp
  ultimately show ?case using q(2) by (intro exI [of _ ?pkts]) simp
qed

text \<open>C22. The test traffic of a socket: for each of the experiments 1 to 14 exactly 400 packets are sent,
  numbered from 1, each with the descriptor of its socket and of the size of the experiment.
  Whatever the random delays are, packet \<open>k\<close> is sent within the \<open>k\<close>-th period of \<open>4850 + jump\<close>
  microseconds, moved back by the time by which the calls of \<^verbatim>\<open>usleep\<close> before it took longer than
  they were asked to: the delays add up, and never less than the period lies between the windows of
  two packets. The periods of the three flows of a trigger are 4850, 9850 and 19850 microseconds.\<close>

theorem udp_flush_schedule:
  assumes "1 \<le> exp" and "exp \<le> 14" and "length junk = 1000"
  shows "\<exists>pkts. udp_flush_enb exp jump sd rnd late junk now = Inr pkts \<and> length pkts = 400 \<and>
    (\<forall>k<400. now + k * (4850 + jump) + (\<Sum>j\<le>2 * k. late j) \<le> fst (pkts ! k) \<and>
       fst (pkts ! k) < now + Suc k * (4850 + jump) + (\<Sum>j\<le>2 * k. late j) \<and>
       length (snd (pkts ! k)) = flush_size exp \<and> take 8 (snd (pkts ! k)) = le32 (of_nat (k + 1)) @ le32 sd) \<and>
    map (\<lambda>(_, _, j, _). T_GCL + j) (flows peer_addr) = [4850, 9850, 19850]"
proof -
  have "list_all (\<lambda>e. 8 \<le> flush_size e \<and> flush_size e \<le> BUFSIZE) [1..<15]"
    by (simp add: upt_rec BUFSIZE_def)
  then have sz: "8 \<le> flush_size exp" "flush_size exp \<le> BUFSIZE" using assms(1,2) by (auto simp: list_all_iff simp del: flush_size.simps)
  let ?b = "put_bytes 4 (le32 sd) junk"
  have b: "length ?b = BUFSIZE" "take 4 (drop 4 ?b) = le32 sd"
    using assms(3) by (simp_all add: BUFSIZE_def put_bytes_def)
  obtain pkts where "udp_flush_enb exp jump sd rnd late junk now = Inr pkts" "length pkts = 400"
    and k: "\<And>k. k < 400 \<Longrightarrow> fst (pkts ! k) = now + k * (T_GCL + jump) + rnd k mod (T_GCL + jump) + sum late {..2 * k} \<and>
       snd (pkts ! k) = le32 (of_nat (k + 1)) @ le32 sd @ take (flush_size exp - 8) (drop 8 ?b)"
    using flush_loop_ok [OF sz b, of NUM_PACKETS jump rnd late 0 now]
    by (auto simp: udp_flush_enb_def NUM_PACKETS_def atMost_atLeast0)
  moreover have "length (drop 8 ?b) = 992" using b(1) by (simp add: BUFSIZE_def)
  moreover have "rnd k mod (T_GCL + jump) < T_GCL + jump" for k by (simp add: T_GCL_def)
  ultimately show ?thesis using sz
    by (intro exI [of _ pkts]) (simp add: T_GCL_def BUFSIZE_def flows_def del: flush_size.simps)
qed

lemma udp_flush_schedule_witness:
  "\<exists>pkts. udp_flush_enb 11 5000 9 (\<lambda>_. 123456) (\<lambda>_. 60) (replicate 1000 0) 0 = Inr pkts \<and> length pkts = 400 \<and>
    (\<forall>k<400. 0 + k * (4850 + 5000) + (\<Sum>j\<le>2 * k. 60) \<le> fst (pkts ! k) \<and>
       fst (pkts ! k) < 0 + Suc k * (4850 + 5000) + (\<Sum>j\<le>2 * k. 60) \<and>
       length (snd (pkts ! k)) = flush_size 11 \<and> take 8 (snd (pkts ! k)) = le32 (of_nat (k + 1)) @ le32 9) \<and>
    map (\<lambda>(_, _, j, _). T_GCL + j) (flows \<lparr>sin_addr = ipv4 10 0 0 2, sin_port = PORT_UE\<rparr>) = [4850, 9850, 19850]"
  by (rule udp_flush_schedule) simp_all

text \<open>How the socket thread ends: if the counter of UEs changed during the 15 seconds it waits, it sends
  no traffic; once all four sockets exist it closes them all however it ends; if one cannot be
  created the ones created before stay open. Traffic flows only to peers whose trigger came from
  port 6000, always in the three flows with the source ports 6001, 6002 and 6003.\<close>

theorem sockets_setup_outcome:
  assumes "sockets_setup counter socks samples binds rounds = (fs, e, op)"
  shows "(list_ex (\<lambda>c. c \<noteq> counter) (take 15 samples) \<longrightarrow> fs = []) \<and>
    (e \<noteq> Socket_Failed \<and> e \<noteq> Still_Waiting \<longrightarrow> op = []) \<and>
    (e = Socket_Failed \<longrightarrow> op = opened socks) \<and>
    (\<exists>peers. fs = concat (map flows peers) \<and> (\<forall>p\<in>set peers. sin_port p = PORT_UE))"
proof -
  have loop: "\<exists>peers. fst (trigger_loop rs) = concat (map flows peers) \<and> (\<forall>p\<in>set peers. sin_port p = PORT_UE) \<and>
      snd (trigger_loop rs) \<noteq> Socket_Failed" for rs
  proof (induction rs)
    case Nil
    then show ?case by (intro exI [of _ "[]"]) simp
  next
    case (Cons round rs)
    note IH = Cons.IH
    obtain ex dgs where round: "round = (ex, dgs)" by (cases round)
    show ?case
    proof (cases "dropWhile (\<lambda>(a, v). sin_port a \<noteq> PORT_UE) dgs")
      case Nil
      show ?thesis by (intro exI [of _ "[]"]) (simp add: Nil round del: dropWhile_eq_Nil_conv)
    next
      case (Cons x xs)
      obtain peer v where x: "x = (peer, v)" by (cases x)
      have p: "sin_port peer = PORT_UE"
        using hd_dropWhile [of "\<lambda>(a, v). sin_port a \<noteq> PORT_UE" dgs] Cons x by simp
      show ?thesis
      proof (cases "ex \<or> v = 0")
        case True
        then show ?thesis using Cons x by (intro exI [of _ "[]"]) (auto simp: round)
      next
        case False
        obtain peers where "fst (trigger_loop rs) = concat (map flows peers)"
          "\<forall>p\<in>set peers. sin_port p = PORT_UE" "snd (trigger_loop rs) \<noteq> Socket_Failed" using IH by blast
        then show ?thesis using False Cons x p
          by (intro exI [of _ "peer # peers"]) (cases "trigger_loop rs", simp add: round)
      qed
    qed
  qed
  have nil: "\<exists>peers. [] = concat (map flows peers) \<and> (\<forall>p\<in>set peers. sin_port p = PORT_UE)"
    by (intro exI [of _ "[]"]) simp
  show ?thesis using assms loop [of rounds] nil
    by (auto simp: sockets_setup_def split: if_splits prod.splits)
qed

lemma sockets_setup_outcome_witness:
  "\<exists>fs e op. sockets_setup 1 [5, 6, 7, 8] (replicate 14 1 @ [2]) [True, True, True, True] [] = (fs, e, op) \<and>
    fs = [] \<and> (e \<noteq> Socket_Failed \<and> e \<noteq> Still_Waiting \<longrightarrow> op = [])"
proof -
  obtain fs e op where r: "sockets_setup 1 [5, 6, 7, 8] (replicate 14 1 @ [2]) [True, True, True, True] [] = (fs, e, op)"
    by (cases "sockets_setup 1 [5, 6, 7, 8] (replicate 14 1 @ [2]) [True, True, True, True] []")
  have "list_ex (\<lambda>c. c \<noteq> 1) (take 15 (replicate 14 1 @ [2 :: int]))" by simp
  with r sockets_setup_outcome [OF r] show ?thesis by blast
qed

end
