(* ===== verification/S1ap.thy ===== *)
theory S1ap
  imports Drb
begin

text \<open>
  The S1AP decoder of the MME (\<^verbatim>\<open>src/openair-cn/src/s1ap/s1ap_mme_decoder.c\<close>) and the messages S1AP
  sends to other tasks (\<^verbatim>\<open>src/openair-cn/src/s1ap/s1ap_mme_itti_messaging.h\<close>).

  \<^item> The ASN.1 library is outside: \<open>dec\<close> gives the result of decoding the information elements of a
    kind, \<open>frees\<close> that of freeing them, and \<open>xer\<close> the length of the printed text. The result of
    \<^verbatim>\<open>aper_decode\<close> is the argument of \<open>s1ap_mme_decode_pdu\<close>.
  \<^item> The state keeps the kinds of information elements that are decoded and not yet freed, the number
    of allocated text buffers, and the messages sent.
  \<^item> \<^verbatim>\<open>message_id\<close> is an output argument: the value the caller put there is an argument, and it is
    unchanged where the code does not write it.
\<close>

section \<open>Data\<close>

datatype ie_kind =
    UplinkNASTransportIEs | S1SetupRequestIEs | InitialUEMessageIEs | UEContextReleaseRequestIEs
  | UECapabilityInfoIndicationIEs | NASNonDeliveryIndication_IEs | ErrorIndicationIEs
  | InitialContextSetupResponseIEs | UEContextReleaseCompleteIEs | InitialContextSetupFailureIEs

datatype procedure_code =
    Id_uplinkNASTransport | Id_S1Setup | Id_initialUEMessage | Id_UEContextReleaseRequest
  | Id_UECapabilityInfoIndication | Id_NASNonDeliveryIndication | Id_ErrorIndication | Id_Reset
  | Id_ENBConfigurationUpdate | Id_InitialContextSetup | Id_UEContextRelease | Id_E_RABSetup
  | Id_Other nat

datatype log_id =
    S1AP_UPLINK_NAS_LOG | S1AP_S1_SETUP_LOG | S1AP_INITIAL_UE_MESSAGE_LOG
  | S1AP_UE_CONTEXT_RELEASE_REQ_LOG | S1AP_UE_CAPABILITY_IND_LOG | S1AP_NAS_NON_DELIVERY_IND_LOG
  | S1AP_UE_CONTEXT_RELEASE_LOG | S1AP_INITIAL_CONTEXT_SETUP_LOG | Other_Id nat

datatype direction = S1AP_PDU_PR_NOTHING | S1AP_PDU_PR_initiatingMessage | S1AP_PDU_PR_successfulOutcome
  | S1AP_PDU_PR_unsuccessfulOutcome

text \<open>A decoded PDU: its direction, procedure code and value.\<close>

record pdu =
  present :: direction
  procedureCode :: procedure_code
  pdu_value :: "byte list"

record s1ap_message =
  direction_of :: direction
  procedure_of :: procedure_code

datatype mme_task = Task_Unknown | Task_Drb | Task_Mme_App | Task_Nas_Mme

text \<open>The initial message of a UE. \<open>nas\<close> is the NAS message that both copies of the ITTI message
  share.\<close>

record initial_ue_message =
  sctp_assoc_id :: u32
  msg_enb_id :: u32
  enb_ue_s1ap_id :: u32
  mme_ue_s1ap_id :: u32
  nas :: "byte list"
  tai :: nat
  cgi :: nat
  as_cause :: int
  opt_s_tmsi :: "nat option"
  opt_csg_id :: "nat option"
  opt_gummei :: "nat option"
  transparent :: "u32 \<times> u32 \<times> nat"

datatype mme_msg =
    Log_Text log_id nat
  | Nas_Dl_Data_Req
  | Initial_Ue initial_ue_message
  | Nas_Downlink_Data_Rej u32 "byte list"

record s1ap_st =
  live :: "ie_kind list"
  strings :: nat
  outbox :: "(mme_task \<times> mme_msg) list"

datatype s1ap_error = Dev_Assert

type_synonym ie_env = "(ie_kind \<Rightarrow> byte list \<Rightarrow> int) \<times> (ie_kind \<Rightarrow> int) \<times> (ie_kind \<Rightarrow> nat)"

section \<open>Decoding\<close>

definition send_msg :: "mme_task \<Rightarrow> mme_msg \<Rightarrow> s1ap_st \<Rightarrow> s1ap_st" where
  "send_msg t m st = st\<lparr>outbox := outbox st @ [(t, m)]\<rparr>"

definition alloc_string :: "s1ap_st \<Rightarrow> s1ap_st" where
  "alloc_string st = st\<lparr>strings := strings st + 1\<rparr>"

definition free_string :: "s1ap_st \<Rightarrow> s1ap_st" where
  "free_string st = st\<lparr>strings := strings st - 1\<rparr>"

definition decode_ies :: "ie_env \<Rightarrow> ie_kind \<Rightarrow> byte list \<Rightarrow> s1ap_st \<Rightarrow> int \<times> s1ap_st" where
  "decode_ies env k v st = (let ret = fst env k v in
     (ret, if ret = -1 then st else st\<lparr>live := k # live st\<rparr>))"

definition free_ies :: "ie_env \<Rightarrow> ie_kind \<Rightarrow> s1ap_st \<Rightarrow> int \<times> s1ap_st" where
  "free_ies env k st = (fst (snd env) k, st\<lparr>live := remove1 k (live st)\<rparr>)"

text \<open>The end of the three functions: the printed text is sent and freed.\<close>

definition log_text :: "log_id \<Rightarrow> nat \<Rightarrow> s1ap_st \<Rightarrow> s1ap_st" where
  "log_text i n st = free_string (send_msg Task_Unknown (Log_Text i n) st)"

text \<open>A branch that decodes, prints, sets the id and logs.\<close>

definition decode_branch ::
  "ie_env \<Rightarrow> ie_kind \<Rightarrow> log_id \<Rightarrow> byte list \<Rightarrow> s1ap_st \<Rightarrow> int \<times> log_id \<times> s1ap_st" where
  "decode_branch env k i v st = (let (ret, st1) = decode_ies env k v st in
     (ret, i, log_text i (snd (snd env) k) st1))"

definition s1ap_mme_decode_initiating ::
  "ie_env \<Rightarrow> pdu \<Rightarrow> log_id \<Rightarrow> s1ap_st \<Rightarrow> int \<times> log_id \<times> s1ap_st" where
  "s1ap_mme_decode_initiating env p message_id st0 =
     (let st = alloc_string st0; v = pdu_value p in
      case procedureCode p of
        Id_uplinkNASTransport \<Rightarrow> decode_branch env UplinkNASTransportIEs S1AP_UPLINK_NAS_LOG v st
      | Id_S1Setup \<Rightarrow> decode_branch env S1SetupRequestIEs S1AP_S1_SETUP_LOG v st
      | Id_initialUEMessage \<Rightarrow> decode_branch env InitialUEMessageIEs S1AP_INITIAL_UE_MESSAGE_LOG v st
      | Id_UEContextReleaseRequest \<Rightarrow>
          decode_branch env UEContextReleaseRequestIEs S1AP_UE_CONTEXT_RELEASE_REQ_LOG v st
      | Id_UECapabilityInfoIndication \<Rightarrow>
          decode_branch env UECapabilityInfoIndicationIEs S1AP_UE_CAPABILITY_IND_LOG v st
      | Id_NASNonDeliveryIndication \<Rightarrow>
          decode_branch env NASNonDeliveryIndication_IEs S1AP_NAS_NON_DELIVERY_IND_LOG v st
      | Id_ErrorIndication \<Rightarrow>
          (let (ret, st1) = decode_ies env ErrorIndicationIEs v st in
           if ret \<noteq> -1 then let (ret', st2) = free_ies env ErrorIndicationIEs st1 in (ret', message_id, st2)
           else (ret, message_id, st1))
      | Id_Reset \<Rightarrow> (-1, message_id, st)
      | Id_ENBConfigurationUpdate \<Rightarrow> (-1, message_id, st)
      | _ \<Rightarrow> (-1, message_id, st))"

definition s1ap_mme_decode_successfull_outcome ::
  "ie_env \<Rightarrow> pdu \<Rightarrow> log_id \<Rightarrow> s1ap_st \<Rightarrow> int \<times> log_id \<times> s1ap_st" where
  "s1ap_mme_decode_successfull_outcome env p message_id st0 =
     (let st = alloc_string st0; v = pdu_value p in
      case procedureCode p of
        Id_InitialContextSetup \<Rightarrow>
          decode_branch env InitialContextSetupResponseIEs S1AP_INITIAL_CONTEXT_SETUP_LOG v st
      | Id_UEContextRelease \<Rightarrow> decode_branch env UEContextReleaseCompleteIEs S1AP_UE_CONTEXT_RELEASE_LOG v st
      | Id_E_RABSetup \<Rightarrow> (0, message_id, send_msg Task_Drb Nas_Dl_Data_Req (free_string st))
      | _ \<Rightarrow> (-1, message_id, log_text message_id 0 st))"

definition s1ap_mme_decode_unsuccessfull_outcome ::
  "ie_env \<Rightarrow> pdu \<Rightarrow> log_id \<Rightarrow> s1ap_st \<Rightarrow> int \<times> log_id \<times> s1ap_st" where
  "s1ap_mme_decode_unsuccessfull_outcome env p message_id st0 =
     (let st = alloc_string st0; v = pdu_value p in
      case procedureCode p of
        Id_InitialContextSetup \<Rightarrow>
          decode_branch env InitialContextSetupFailureIEs S1AP_INITIAL_CONTEXT_SETUP_LOG v st
      | _ \<Rightarrow> (-1, message_id, log_text message_id 0 st))"

text \<open>\<open>None\<close>: the PER decoder failed.\<close>

definition s1ap_mme_decode_pdu ::
  "ie_env \<Rightarrow> pdu option \<Rightarrow> s1ap_message \<Rightarrow> log_id \<Rightarrow> s1ap_st \<Rightarrow> int \<times> s1ap_message \<times> log_id \<times> s1ap_st" where
  "s1ap_mme_decode_pdu env raw m message_id st =
     (case raw of
        None \<Rightarrow> (-1, m, message_id, st)
      | Some p \<Rightarrow>
          let m1 = m\<lparr>direction_of := present p\<rparr>; m2 = m1\<lparr>procedure_of := procedureCode p\<rparr> in
          (case present p of
             S1AP_PDU_PR_initiatingMessage \<Rightarrow>
               (let (r, i, s) = s1ap_mme_decode_initiating env p message_id st in (r, m2, i, s))
           | S1AP_PDU_PR_successfulOutcome \<Rightarrow>
               (let (r, i, s) = s1ap_mme_decode_successfull_outcome env p message_id st in (r, m2, i, s))
           | S1AP_PDU_PR_unsuccessfulOutcome \<Rightarrow>
               (let (r, i, s) = s1ap_mme_decode_unsuccessfull_outcome env p message_id st in (r, m2, i, s))
           | S1AP_PDU_PR_NOTHING \<Rightarrow> (-1, m1, message_id, st)))"

text \<open>Which information elements an id stands for.\<close>

definition s1ap_free_mme_decode_pdu :: "ie_env \<Rightarrow> s1ap_message \<Rightarrow> log_id \<Rightarrow> s1ap_st \<Rightarrow> s1ap_error + int \<times> s1ap_st" where
  "s1ap_free_mme_decode_pdu env m message_id st =
     (case message_id of
        S1AP_UPLINK_NAS_LOG \<Rightarrow> Inr (free_ies env UplinkNASTransportIEs st)
      | S1AP_S1_SETUP_LOG \<Rightarrow> Inr (free_ies env S1SetupRequestIEs st)
      | S1AP_INITIAL_UE_MESSAGE_LOG \<Rightarrow> Inr (free_ies env InitialUEMessageIEs st)
      | S1AP_UE_CONTEXT_RELEASE_REQ_LOG \<Rightarrow> Inr (free_ies env UEContextReleaseRequestIEs st)
      | S1AP_UE_CAPABILITY_IND_LOG \<Rightarrow> Inr (free_ies env UECapabilityInfoIndicationIEs st)
      | S1AP_NAS_NON_DELIVERY_IND_LOG \<Rightarrow> Inr (free_ies env NASNonDeliveryIndication_IEs st)
      | S1AP_UE_CONTEXT_RELEASE_LOG \<Rightarrow> Inr (free_ies env UEContextReleaseCompleteIEs st)
      | S1AP_INITIAL_CONTEXT_SETUP_LOG \<Rightarrow>
          if direction_of m = S1AP_PDU_PR_successfulOutcome
          then Inr (free_ies env InitialContextSetupResponseIEs st)
          else Inr (free_ies env InitialContextSetupFailureIEs st)
      | Other_Id _ \<Rightarrow> Inl Dev_Assert)"

section \<open>Messages to other tasks\<close>

definition s1ap_mme_itti_mme_app_initial_ue_message ::
  "u32 \<Rightarrow> u32 \<Rightarrow> u32 \<Rightarrow> u32 \<Rightarrow> byte list \<Rightarrow> nat \<Rightarrow> nat \<Rightarrow> int \<Rightarrow> nat option \<Rightarrow> nat option \<Rightarrow> nat option \<Rightarrow>
   s1ap_st \<Rightarrow> s1ap_error + s1ap_st" where
  "s1ap_mme_itti_mme_app_initial_ue_message assoc enb enb_ue mme_ue nas_msg t c rrc_cause s_tmsi csg gummei st =
     (if \<not> length nas_msg < 1000 then Inl Dev_Assert
      else
        let m = \<lparr>sctp_assoc_id = assoc, msg_enb_id = enb, enb_ue_s1ap_id = enb_ue, mme_ue_s1ap_id = mme_ue,
                 nas = nas_msg, tai = t, cgi = c, as_cause = rrc_cause + 1, opt_s_tmsi = s_tmsi, opt_csg_id = csg,
                 opt_gummei = gummei, transparent = (mme_ue, enb_ue, c)\<rparr>
        in Inr (send_msg Task_Mme_App (Initial_Ue m) (send_msg Task_Drb (Initial_Ue m) st)))"

definition s1ap_mme_itti_nas_non_delivery_ind :: "u32 \<Rightarrow> byte list \<Rightarrow> s1ap_st \<Rightarrow> s1ap_st" where
  "s1ap_mme_itti_nas_non_delivery_ind ue_id nas_msg st = send_msg Task_Nas_Mme (Nas_Downlink_Data_Rej ue_id nas_msg) st"

section \<open>Specification\<close>

text \<open>The information elements of a procedure, per direction.\<close>

fun ies_of :: "direction \<Rightarrow> procedure_code \<Rightarrow> ie_kind option" where
  "ies_of S1AP_PDU_PR_initiatingMessage Id_uplinkNASTransport = Some UplinkNASTransportIEs"
| "ies_of S1AP_PDU_PR_initiatingMessage Id_S1Setup = Some S1SetupRequestIEs"
| "ies_of S1AP_PDU_PR_initiatingMessage Id_initialUEMessage = Some InitialUEMessageIEs"
| "ies_of S1AP_PDU_PR_initiatingMessage Id_UEContextReleaseRequest = Some UEContextReleaseRequestIEs"
| "ies_of S1AP_PDU_PR_initiatingMessage Id_UECapabilityInfoIndication = Some UECapabilityInfoIndicationIEs"
| "ies_of S1AP_PDU_PR_initiatingMessage Id_NASNonDeliveryIndication = Some NASNonDeliveryIndication_IEs"
| "ies_of S1AP_PDU_PR_successfulOutcome Id_InitialContextSetup = Some InitialContextSetupResponseIEs"
| "ies_of S1AP_PDU_PR_successfulOutcome Id_UEContextRelease = Some UEContextReleaseCompleteIEs"
| "ies_of S1AP_PDU_PR_unsuccessfulOutcome Id_InitialContextSetup = Some InitialContextSetupFailureIEs"
| "ies_of _ _ = None"

text \<open>What the DRB task sees of a message.\<close>

definition drb_view :: "mme_task \<times> mme_msg \<Rightarrow> 'c drb_msg list" where
  "drb_view x = (case x of
     (Task_Drb, Nas_Dl_Data_Req) \<Rightarrow> [S1ap_Nas_Dl_Data_Req]
   | (Task_Drb, Initial_Ue m) \<Rightarrow> [Mme_App_Initial_Ue_Message (enb_ue_s1ap_id m)]
   | (Task_Drb, _) \<Rightarrow> [Other_Message]
   | _ \<Rightarrow> [])"

definition demo_st :: s1ap_st where
  "demo_st = \<lparr>live = [], strings = 0, outbox = []\<rparr>"

definition demo_ies :: ie_env where
  "demo_ies = (\<lambda>_ _. 0, \<lambda>_. 0, \<lambda>_. 12)"

definition demo_pdu :: "direction \<Rightarrow> procedure_code \<Rightarrow> pdu" where
  "demo_pdu d c = \<lparr>present = d, procedureCode = c, pdu_value = [1]\<rparr>"

section \<open>Properties\<close>

lemmas s1ap_defs = s1ap_mme_decode_pdu_def s1ap_mme_decode_initiating_def s1ap_mme_decode_successfull_outcome_def
  s1ap_mme_decode_unsuccessfull_outcome_def decode_branch_def decode_ies_def free_ies_def log_text_def
  alloc_string_def free_string_def send_msg_def

text \<open>C23. Decoding and freeing match: a procedure with information elements that decode is reported with
  the result of the decoder, leaves exactly those elements allocated, and freeing the message with the
  id the decoder set releases exactly them. No text buffer stays allocated.\<close>

theorem decode_free_match:
  assumes "ies_of (present p) (procedureCode p) = Some k" and "fst env k (pdu_value p) \<noteq> -1"
    and "s1ap_mme_decode_pdu env (Some p) m mid st = (ret, m', mid', st')"
  shows "ret = fst env k (pdu_value p) \<and> live st' = k # live st \<and> strings st' = strings st \<and>
    (\<exists>st''. s1ap_free_mme_decode_pdu env m' mid' st' = Inr (fst (snd env) k, st'') \<and> live st'' = live st)"
  using assms
  by (cases "present p"; cases "procedureCode p")
    (auto simp: s1ap_defs s1ap_free_mme_decode_pdu_def Let_def)

lemma decode_free_match_witness:
  "\<exists>ret m' mid' st' st''. s1ap_mme_decode_pdu demo_ies
      (Some (demo_pdu S1AP_PDU_PR_initiatingMessage Id_S1Setup))
      \<lparr>direction_of = S1AP_PDU_PR_NOTHING, procedure_of = Id_Reset\<rparr> (Other_Id 0) demo_st = (ret, m', mid', st') \<and>
    live st' = [S1SetupRequestIEs] \<and> s1ap_free_mme_decode_pdu demo_ies m' mid' st' = Inr (0, st'') \<and> live st'' = []"
proof -
  let ?p = "demo_pdu S1AP_PDU_PR_initiatingMessage Id_S1Setup"
  obtain ret m' mid' st' where r: "s1ap_mme_decode_pdu demo_ies (Some ?p)
      \<lparr>direction_of = S1AP_PDU_PR_NOTHING, procedure_of = Id_Reset\<rparr> (Other_Id 0) demo_st = (ret, m', mid', st')"
    by (cases "s1ap_mme_decode_pdu demo_ies (Some ?p)
      \<lparr>direction_of = S1AP_PDU_PR_NOTHING, procedure_of = Id_Reset\<rparr> (Other_Id 0) demo_st")
  have k: "ies_of (present ?p) (procedureCode ?p) = Some S1SetupRequestIEs" by (simp add: demo_pdu_def)
  have d: "fst demo_ies S1SetupRequestIEs (pdu_value ?p) \<noteq> -1" by (simp add: demo_ies_def)
  from decode_free_match [OF k d r] r show ?thesis by (auto simp: demo_st_def demo_ies_def)
qed

text \<open>Text buffers: decoding a PDU gives back the buffer it allocates, except for initiating messages of
  the procedures error indication, reset, eNB configuration update and of unknown procedures. For
  these, one buffer of 10000 bytes stays allocated each time.\<close>

theorem decode_string_leak:
  "strings (snd (snd (snd (s1ap_mme_decode_pdu env (Some p) m mid st)))) = strings st +
     (if present p = S1AP_PDU_PR_initiatingMessage \<and> ies_of (present p) (procedureCode p) = None then 1 else 0)"
  by (cases "present p"; cases "procedureCode p") (simp_all add: s1ap_defs Let_def)

text \<open>C25. An answer to an E-RAB setup request is reported as success, and the DRB task is told; but nothing
  is decoded and the message id is not set. If the caller frees the message with the id it put there
  itself, it runs into an assertion for an id that is none of the decoder's, and otherwise releases
  information elements that were never decoded.\<close>

theorem erab_setup_response:
  assumes "present p = S1AP_PDU_PR_successfulOutcome" and "procedureCode p = Id_E_RABSetup"
  shows "\<exists>m' st'. s1ap_mme_decode_pdu env (Some p) m mid st = (0, m', mid, st') \<and>
    outbox st' = outbox st @ [(Task_Drb, Nas_Dl_Data_Req)] \<and> live st' = live st \<and> strings st' = strings st \<and>
    ((\<exists>n. mid = Other_Id n) \<longrightarrow> s1ap_free_mme_decode_pdu env m' mid st' = Inl Dev_Assert) \<and>
    ((\<forall>n. mid \<noteq> Other_Id n) \<longrightarrow>
       (\<exists>k st''. s1ap_free_mme_decode_pdu env m' mid st' = Inr (fst (snd env) k, st'') \<and> live st'' = remove1 k (live st)))"
  using assms
  by (cases mid) (simp_all add: s1ap_defs s1ap_free_mme_decode_pdu_def Let_def, blast+)

lemma erab_setup_response_witness:
  "\<exists>m' st'. s1ap_mme_decode_pdu demo_ies (Some (demo_pdu S1AP_PDU_PR_successfulOutcome Id_E_RABSetup))
      \<lparr>direction_of = S1AP_PDU_PR_NOTHING, procedure_of = Id_Reset\<rparr> (Other_Id 0) demo_st = (0, m', Other_Id 0, st') \<and>
    outbox st' = [(Task_Drb, Nas_Dl_Data_Req)] \<and> s1ap_free_mme_decode_pdu demo_ies m' (Other_Id 0) st' = Inl Dev_Assert"
  using erab_setup_response [of "demo_pdu S1AP_PDU_PR_successfulOutcome Id_E_RABSetup" demo_ies
      "\<lparr>direction_of = S1AP_PDU_PR_NOTHING, procedure_of = Id_Reset\<rparr>" "Other_Id 0" demo_st]
  by (auto simp: demo_pdu_def demo_st_def)

end
