(* ===== verification/Mme_Flow.thy ===== *)
theory Mme_Flow
  imports Attach_Rely S1ap
begin

text \<open>
  The way of an attach through the tasks of the MME: the functions of the attach procedure (\<open>Attach\<close>) in the order in which they follow each
  other, the messages of the S1AP task (\<open>S1ap\<close>), and the DRB task that gets both (\<open>Drb\<close>).

  \<^item> \<open>attach_dialogue\<close> is a successful attach of one UE. The order of the calls is that of the callbacks \<^verbatim>\<open>Attach.c\<close> hands out: the request starts the
    authentication, whose success calls \<^verbatim>\<open>emm_attach_security\<close>, whose success calls \<^verbatim>\<open>_emm_attach\<close>; then the core network calls the wrapper of the
    attach accept, and the UE answers with the attach complete. Contexts and saved data are looked up where they are needed.
  \<^item> Between two calls, and within the functions called, the rest of the MME runs: authentication and security mode, the state machine of EMM, other UEs. It
    may change the whole state apart from what this UE relies on (\<open>quiet\<close> of \<open>Attach_Rely\<close>).
  \<^item> \<open>calm\<close> says that the functions called for this UE succeed, do what their names say to the two tables, and are quiet otherwise.
\<close>

section \<open>The dialogue with a UE\<close>

definition attach_dialogue :: "'w emm_env \<Rightarrow> (nat \<Rightarrow> 'w mme \<Rightarrow> 'w mme) \<Rightarrow> ue \<Rightarrow> attach_request \<Rightarrow> bytes option \<Rightarrow> 'w mme \<Rightarrow> 'w res" where
  "attach_dialogue env gap u r m s =
     rbind (emm_proc_attach_request env u r s) (\<lambda>(_, s1).
     let t1 = gap 0 s1 in
     case emm_data_context_get env u t1 of
       None \<Rightarrow> Inl Null_Pointer
     | Some p \<Rightarrow>
         rbind (emm_attach_security env p t1) (\<lambda>(_, s2).
         rbind (emm_attach env p (gap 1 s2)) (\<lambda>(_, s3).
         let t3 = gap 2 s3 in
         rbind (emm_cn_wrapper_attach_accept env (emm_data_context_get env u t3) (emm_proc_common_get_args env u t3) t3) (\<lambda>(_, s4).
         emm_proc_attach_complete env u m (gap 3 s4)))))"

section \<open>Specification\<close>

text \<open>What the functions called keep of a context: the core and the id of the timer; during the request also what is known of the identity.\<close>

definition full_core where
  "full_core c = (core c, T3450 c)"

definition early_core where
  "early_core c = (full_core c, imsi64 c, imsi_present c, auth_present c, security_valid c)"

definition calm_table :: "'w lookup \<Rightarrow> (aptr \<Rightarrow> bool) \<Rightarrow> 'w emm_env \<Rightarrow> ue \<Rightarrow> aptr \<Rightarrow> bool" where
  "calm_table lk sel env u p \<longleftrightarrow> (\<forall>t. emm_data_context_get env u t = ctx_of lk (world t) u) \<and>
     (\<forall>t. emm_proc_common_get_args env u t = args_of lk (world t) u) \<and>
     (\<forall>t c. ctxs t p = Some c \<longrightarrow> ue_id c = u \<longrightarrow> (\<exists>t'. emm_data_context_add env p t = (RETURNok, t') \<and>
        ctx_of lk (world t') u = Some p \<and> quiet_ctx early_core sel u p t t')) \<and>
     (\<forall>x t. quiet lk early_core sel u p t (emm_fsm_set_status env u p x t)) \<and>
     (\<forall>t. quiet lk early_core sel u p t (emm_data_context_add_imsi env p t)) \<and>
     (\<forall>i n t. quiet lk early_core sel u p t (nas_itti_auth_info_req env u i n t)) \<and>
     (\<forall>t. quiet lk full_core sel u p t (emm_data_context_add_guti env p t)) \<and> (\<forall>t. quiet lk full_core sel u p t (delete_ue_radio_capabilities env u t)) \<and>
     (\<forall>t. ctx_of lk (world (emm_proc_common_clear_args env u t)) u = ctx_of lk (world t) u \<and> quiet_ctx full_core sel u p t (emm_proc_common_clear_args env u t))"

definition calm_calls :: "'w lookup \<Rightarrow> (aptr \<Rightarrow> bool) \<Rightarrow> 'w emm_env \<Rightarrow> ue \<Rightarrow> aptr \<Rightarrow> bool" where
  "calm_calls lk sel env u p \<longleftrightarrow>
     (\<forall>g h l a m t. \<exists>t'. emm_sap_send env (EMMAS_ESTABLISH_CNF u g h l a m) t = (RETURNok, t') \<and> quiet lk full_core sel u p t t') \<and>
     (\<forall>t. \<exists>t'. emm_sap_send env (EMMREG_ATTACH_CNF u) t = (RETURNok, t') \<and> quiet lk full_core sel u p t t') \<and>
     (\<forall>x y t. \<exists>b t'. esm_sap_send env x u p y t = (RETURNok, ESM_SAP_SUCCESS, b, t') \<and> quiet lk full_core sel u p t t') \<and>
     (\<forall>d t. \<exists>t'. emm_proc_common_initialize env u d t = (RETURNok, t') \<and> ctx_of lk (world t') u = ctx_of lk (world t) u \<and>
        args_of lk (world t') u = Some d \<and> quiet_ctx full_core sel u p t t') \<and>
     (\<forall>t. \<exists>t'. emm_proc_security_mode_control env u p t = (RETURNok, t') \<and> quiet lk full_core sel u p t t') \<and>
     (\<forall>d t. quiet lk full_core sel u p t (snd (nas_timer_start env d t))) \<and> (\<forall>k t. quiet lk full_core sel u p t (snd (nas_timer_restart env k t))) \<and>
     (\<forall>k t. \<exists>t'. nas_timer_stop env k t = (T_INACTIVE env, t') \<and> quiet lk full_core sel u p t t') \<and>
     (\<forall>i h n t. \<exists>g tais t'. mme_api_new_guti env i h n t = (RETURNok, g, tais, t') \<and> quiet lk full_core sel u p t t')"

definition calm :: "'w lookup \<Rightarrow> (aptr \<Rightarrow> bool) \<Rightarrow> 'w emm_env \<Rightarrow> ue \<Rightarrow> aptr \<Rightarrow> bool" where
  "calm lk sel env u p \<longleftrightarrow> calm_table lk sel env u p \<and> calm_calls lk sel env u p"

text \<open>A first attach with an IMSI.\<close>

definition first_attach :: "'w emm_env \<Rightarrow> attach_request \<Rightarrow> bool" where
  "first_attach env r \<longleftrightarrow> r_type r \<noteq> EMM_ATTACH_TYPE_EMERGENCY \<and> r_guti r = None \<and> bstrcpy_ok env \<and>
     (\<exists>i. r_imsi r = Some i \<and> imsi_to_imsi64 env i \<noteq> invalid_imsi64 env)"

text \<open>The context after the request.\<close>

definition requested :: "'w emm_env \<Rightarrow> ue \<Rightarrow> attach_request \<Rightarrow> emm_context" where
  "requested env u r =
     (let c = (update_fields u r ((new_context env u r)\<lparr>lvr_tai := r_lvr_tai r\<rparr>))\<lparr>imsi_of := the (r_imsi r), imsi_present := True, imsi_valid := True,
          imsi64 := imsi_to_imsi64 env (the (r_imsi r))\<rparr>;
          c1 = (case r_imei r of None \<Rightarrow> c | Some i \<Rightarrow> c\<lparr>imei_of := i, imei_valid := True\<rparr>)
      in (case r_esm_msg r of None \<Rightarrow> c1 | Some m \<Rightarrow> c1\<lparr>esm_msg := Some m\<rparr>)\<lparr>is_attached := False\<rparr>)"

text \<open>A context of a UE that has attached.\<close>

definition attached_ctx :: "'w emm_env \<Rightarrow> ue \<Rightarrow> attach_request \<Rightarrow> emm_context \<Rightarrow> bool" where
  "attached_ctx env u r c \<longleftrightarrow> ue_id c = u \<and> stored r c \<and> is_attached c \<and> is_has_been_attached c \<and> guti_present c \<and> guti_valid c \<and> T3450 c = T_INACTIVE env"

text \<open>The answers of the eNB, one after the other.\<close>

definition decode_all :: "ie_env \<Rightarrow> s1ap_message \<Rightarrow> log_id \<Rightarrow> pdu list \<Rightarrow> s1ap_st \<Rightarrow> s1ap_st" where
  "decode_all ies m mid ps st = fold (\<lambda>p st. snd (snd (snd (s1ap_mme_decode_pdu ies (Some p) m mid st)))) ps st"

text \<open>What the DRB task finds in its queue: what the S1AP task sent to it before, the contexts that the attach procedure forwarded, and what
  the S1AP task sent then. \<open>view\<close> is what the DRB task reads through the pointer to a context.\<close>

definition drb_queue :: "(aptr \<Rightarrow> 'c) \<Rightarrow> (mme_task \<times> mme_msg) list \<Rightarrow> aptr list \<Rightarrow> (mme_task \<times> mme_msg) list \<Rightarrow> 'c drb_msg list" where
  "drb_queue view before fwd after = concat (map drb_view before) @ map (\<lambda>p. Attach_Forward_Drb (view p)) fwd @ concat (map drb_view after)"

text \<open>Sample data: before each call the vectors and algorithms of all contexts change, and the second UE is there.\<close>

definition work_gap_all :: "nat \<Rightarrow> tables mme \<Rightarrow> tables mme" where
  "work_gap_all n s = s\<lparr>ctxs := (\<lambda>q. map_option (\<lambda>c. c\<lparr>auth_present := True, security_valid := True, selected_algorithms := (n, n), emm_cause_of := EMM_CAUSE_SUCCESS\<rparr>) (ctxs s q))\<rparr>"

definition empty_mme :: "tables mme" where
  "empty_mme = \<lparr>ctxs = [3 \<mapsto> zero_context\<lparr>ue_id := 4\<rparr>], datas = Map.empty, brk = 5, sap_log = [], drb_forward = [], world = ([4 \<mapsto> 3], Map.empty)\<rparr>"

section \<open>The steps of the dialogue\<close>

lemma full_core_eq [simp]: "full_core c' = full_core c \<longleftrightarrow> core c' = core c \<and> T3450 c' = T3450 c"
  by (simp add: full_core_def)

lemma early_core_eq [simp]:
  "early_core c' = early_core c \<longleftrightarrow> core c' = core c \<and> T3450 c' = T3450 c \<and> imsi64 c' = imsi64 c \<and> imsi_present c' = imsi_present c \<and>
     auth_present c' = auth_present c \<and> security_valid c' = security_valid c"
  by (auto simp: early_core_def)

lemma quiet_weaken:
  "quiet lk K sel u p t t' \<Longrightarrow> (\<And>c c'. K c' = K c \<Longrightarrow> K' c' = K' c) \<Longrightarrow> quiet lk K' sel u p t t'"
  unfolding quiet_def quiet_ctx_def by blast

lemma ue_state_weaken:
  "ue_state lk K sel u p c D L F t \<Longrightarrow> (\<And>c'. K c' = K c \<Longrightarrow> K' c' = K' c) \<Longrightarrow> ue_state lk K' sel u p c D L F t"
  unfolding ue_state_def by blast

lemma ue_state_core: "ue_state lk core sel u p c D L F t \<Longrightarrow> quiet lk full_core sel u p t t' \<Longrightarrow> ue_state lk core sel u p c D L F t'"
  by (erule ue_state_quiet, erule quiet_weaken) simp

lemma ue_state_drop: "ue_state lk K sel u p c D L F t \<Longrightarrow> ue_state lk K sel u p c None L F t"
  by (simp add: ue_state_def)

lemma ue_state_table:
  "ue_state lk K sel u p c None L F t \<Longrightarrow> ctx_of lk (world t') u = ctx_of lk (world t) u \<Longrightarrow> quiet_ctx K sel u p t t' \<Longrightarrow> ue_state lk K sel u p c None L F t'"
  unfolding ue_state_def quiet_ctx_def by fastforce

lemma quiet_ctx_core: "quiet_ctx full_core sel u p t t' \<Longrightarrow> quiet_ctx core sel u p t t'"
  unfolding quiet_ctx_def by fastforce

lemma calmD:
  assumes "calm lk sel env u p"
  shows "emm_data_context_get env u t = ctx_of lk (world t) u" "emm_proc_common_get_args env u t = args_of lk (world t) u"
    "ctxs t p = Some c \<Longrightarrow> ue_id c = u \<Longrightarrow> \<exists>t'. emm_data_context_add env p t = (RETURNok, t') \<and> ctx_of lk (world t') u = Some p \<and> quiet_ctx early_core sel u p t t'"
    "quiet lk early_core sel u p t (emm_fsm_set_status env u p x t)" "quiet lk early_core sel u p t (emm_data_context_add_imsi env p t)"
    "quiet lk early_core sel u p t (nas_itti_auth_info_req env u i n t)" "quiet lk full_core sel u p t (emm_data_context_add_guti env p t)"
    "quiet lk full_core sel u p t (delete_ue_radio_capabilities env u t)"
    "ctx_of lk (world (emm_proc_common_clear_args env u t)) u = ctx_of lk (world t) u" "quiet_ctx full_core sel u p t (emm_proc_common_clear_args env u t)"
  using assms unfolding calm_def calm_table_def by (simp_all del: split_paired_All prod.inject)

lemma calm_opD:
  assumes "calm lk sel env u p"
  shows "\<exists>t'. emm_sap_send env (EMMAS_ESTABLISH_CNF u g h l a m) t = (RETURNok, t') \<and> quiet lk full_core sel u p t t'"
    "\<exists>t'. emm_sap_send env (EMMREG_ATTACH_CNF u) t = (RETURNok, t') \<and> quiet lk full_core sel u p t t'"
    "\<exists>b t'. esm_sap_send env y u p m t = (RETURNok, ESM_SAP_SUCCESS, b, t') \<and> quiet lk full_core sel u p t t'"
    "\<exists>t'. emm_proc_common_initialize env u d t = (RETURNok, t') \<and> ctx_of lk (world t') u = ctx_of lk (world t) u \<and> args_of lk (world t') u = Some d \<and> quiet_ctx full_core sel u p t t'"
    "\<exists>t'. emm_proc_security_mode_control env u p t = (RETURNok, t') \<and> quiet lk full_core sel u p t t'"
    "quiet lk full_core sel u p t (snd (nas_timer_start env d t))" "quiet lk full_core sel u p t (snd (nas_timer_restart env k t))"
    "\<exists>t'. nas_timer_stop env k t = (T_INACTIVE env, t') \<and> quiet lk full_core sel u p t t'"
    "\<exists>v tais t'. mme_api_new_guti env i w n t = (RETURNok, v, tais, t') \<and> quiet lk full_core sel u p t t'"
  using assms unfolding calm_def calm_calls_def by (simp_all del: split_paired_All split_paired_Ex prod.inject)

lemma requested_facts:
  assumes "first_attach env r"
  shows "imsi_present (requested env u r)" "\<not> auth_present (requested env u r)" "ue_id (requested env u r) = u" "\<not> security_valid (requested env u r)"
    "\<not> is_emergency (requested env u r)" "\<not> guti_present (requested env u r)" "\<not> guti_valid (requested env u r)" "stored r (requested env u r)"
  using assms by (auto simp: requested_def first_attach_def update_fields_def new_context_def zero_context_def stored_def Let_def split: option.splits)

text \<open>The parts of the update: the ESM message, the IMEI.\<close>

lemma update_esm_step:
  assumes "bstrcpy_ok env" and "ue_state lk early_core sel u p c None L F s4"
  shows "returns (\<lambda>(rc, t'). rc = RETURNok \<and>
        ue_state lk early_core sel u p ((case r_esm_msg r of None \<Rightarrow> c | Some m \<Rightarrow> c\<lparr>esm_msg := Some m\<rparr>)\<lparr>is_attached := False\<rparr>) None L F t')
     (case r_esm_msg r of
       Some m \<Rightarrow> if bstrcpy_ok env
         then rbind (upd_ctx p (\<lambda>c. c\<lparr>esm_msg := Some m, is_attached := False\<rparr>) s4) (\<lambda>s5. Inr (RETURNok, s5))
         else rbind (upd_ctx p (\<lambda>c. c\<lparr>esm_msg := None\<rparr>) s4) (\<lambda>s5. Inr (RETURNerror, s5))
     | None \<Rightarrow> rbind (upd_ctx p (\<lambda>c. c\<lparr>is_attached := False\<rparr>) s4) (\<lambda>s5. Inr (RETURNok, s5)))"
proof (cases "r_esm_msg r")
  case None
  show ?thesis unfolding None option.case
    by (rule ue_state_upd [OF assms(2), where e = "c\<lparr>is_attached := False\<rparr>" and K' = early_core]) (auto simp: core_def)
next
  case (Some m)
  have ok: "bstrcpy_ok env = True" using assms(1) by simp
  show ?thesis unfolding Some option.case ok if_True
    by (rule ue_state_upd [OF assms(2), where e = "c\<lparr>esm_msg := Some m, is_attached := False\<rparr>" and K' = early_core]) (auto simp: core_def)
qed

lemma update_imei_step:
  assumes "ue_state lk early_core sel u p c None L F s3"
  shows "returns (ue_state lk early_core sel u p (case r_imei r of None \<Rightarrow> c | Some j \<Rightarrow> c\<lparr>imei_of := j, imei_valid := True\<rparr>) None L F)
     (case r_imei r of Some j \<Rightarrow> upd_ctx p (\<lambda>c. c\<lparr>imei_of := j, imei_valid := True\<rparr>) s3 | None \<Rightarrow> Inr s3)"
proof (cases "r_imei r")
  case None
  then show ?thesis using assms by simp
next
  case (Some j)
  have "returns (ue_state lk early_core sel u p (c\<lparr>imei_of := j, imei_valid := True\<rparr>) None L F)
      (rbind (upd_ctx p (\<lambda>c. c\<lparr>imei_of := j, imei_valid := True\<rparr>) s3) Inr)"
    by (rule ue_state_upd [OF assms, where e = "c\<lparr>imei_of := j, imei_valid := True\<rparr>" and K' = early_core]) (auto simp: core_def)
  then show ?thesis by (simp add: Some)
qed

lemma update_step:
  assumes calm: "calm lk sel env u p" and r: "first_attach env r"
    and st: "ue_state lk early_core sel u p ((new_context env u r)\<lparr>lvr_tai := r_lvr_tai r\<rparr>) None L F t"
  shows "returns (\<lambda>(rc, t'). rc = RETURNok \<and> ue_state lk early_core sel u p (requested env u r) None L F t') (emm_attach_update env p u r t)"
proof -
  obtain i where i: "r_imsi r = Some i" "imsi_to_imsi64 env i \<noteq> invalid_imsi64 env" using r by (auto simp: first_attach_def)
  define c0 where "c0 = (new_context env u r)\<lparr>lvr_tai := r_lvr_tai r\<rparr>"
  define c1 where "c1 = update_fields u r c0"
  define c2 where "c2 = c1\<lparr>imsi_of := i, imsi_present := True, imsi_valid := True, imsi64 := imsi_to_imsi64 env i\<rparr>"
  define c3 where "c3 = (case r_imei r of None \<Rightarrow> c2 | Some j \<Rightarrow> c2\<lparr>imei_of := j, imei_valid := True\<rparr>)"
  let ?st = "\<lambda>c. ue_state lk early_core sel u p c None L F"
  let ?R = "\<lambda>(rc, t'). rc = RETURNok \<and> ?st (requested env u r) t'"
  have req: "requested env u r = (case r_esm_msg r of None \<Rightarrow> c3 | Some m \<Rightarrow> c3\<lparr>esm_msg := Some m\<rparr>)\<lparr>is_attached := False\<rparr>"
    unfolding requested_def Let_def c3_def c2_def c1_def c0_def i(1) option.sel by (rule refl)
  have none: "imsi64 c1 = invalid_imsi64 env" by (simp add: c1_def c0_def update_fields_def new_context_def)
  have ok: "bstrcpy_ok env" using r by (simp add: first_attach_def)
  note esm = update_esm_step [OF ok, of lk sel u p c3 L F _ r, folded req]
  note imei = update_imei_step [of lk sel u p c2 L F _ r, folded c3_def]
  have imsi: "returns (?st c2) (rbind (upd_ctx p (\<lambda>c. c\<lparr>imsi_of := i, imsi_present := True, imsi_valid := True, imsi64 := imsi_to_imsi64 env i\<rparr>) s1)
      (\<lambda>s2. Inr (emm_data_context_add_imsi env p s2)))" if "?st c1 s1" for s1
    by (rule ue_state_upd [OF that, where e = c2 and K' = early_core])
      (auto simp: c2_def core_def intro: ue_state_quiet [OF _ calmD(5) [OF calm]])
  show ?thesis unfolding emm_attach_update_def
  proof (rule ue_state_upd [OF st [folded c0_def], where e = c1 and K' = early_core])
    show "early_core c' = early_core c0 \<Longrightarrow> early_core (update_fields u r c') = early_core c1" for c'
      by (auto simp: c1_def update_fields_def core_def)
    fix s1 assume s1: "?st c1 s1"
    then obtain c where c: "ctxs s1 p = Some c" "imsi64 c = invalid_imsi64 env" using none by (auto simp: ue_state_def)
    show "returns ?R (rbind (get_ctx p s1) (\<lambda>c. rbind (case r_imsi r of
              Some i \<Rightarrow> if imsi_to_imsi64 env i \<noteq> imsi64 c
                then rbind (upd_ctx p (\<lambda>c. c\<lparr>imsi_of := i, imsi_present := True, imsi_valid := True, imsi64 := imsi_to_imsi64 env i\<rparr>) s1)
                       (\<lambda>s2. Inr (emm_data_context_add_imsi env p s2))
                else Inr s1
            | None \<Rightarrow> Inr s1) (\<lambda>s3. rbind (case r_imei r of
              Some i \<Rightarrow> upd_ctx p (\<lambda>c. c\<lparr>imei_of := i, imei_valid := True\<rparr>) s3 | None \<Rightarrow> Inr s3) (\<lambda>s4.
        case r_esm_msg r of
          Some m \<Rightarrow> if bstrcpy_ok env
            then rbind (upd_ctx p (\<lambda>c. c\<lparr>esm_msg := Some m, is_attached := False\<rparr>) s4) (\<lambda>s5. Inr (RETURNok, s5))
            else rbind (upd_ctx p (\<lambda>c. c\<lparr>esm_msg := None\<rparr>) s4) (\<lambda>s5. Inr (RETURNerror, s5))
        | None \<Rightarrow> rbind (upd_ctx p (\<lambda>c. c\<lparr>is_attached := False\<rparr>) s4) (\<lambda>s5. Inr (RETURNok, s5))))))"
      unfolding get_ctx_Some [OF c(1)] rbind_simps i(1) option.case c(2) if_P [OF i(2)]
      by (rule returns_rbind [OF imsi [OF s1]], rule returns_rbind [OF imei], assumption, rule esm)
  qed
qed

lemma identify_step:
  assumes calm: "calm lk sel env u p" and r: "first_attach env r" and st: "ue_state lk early_core sel u p (requested env u r) None L F t"
  shows "returns (\<lambda>(rc, t'). rc = RETURNok \<and> ue_state lk core sel u p (requested env u r) None L F t') (emm_attach_identify env p t)"
proof -
  note req = requested_facts [OF r, of u]
  obtain c where c: "ctxs t p = Some c" "early_core c = early_core (requested env u r)" using st by (auto simp: ue_state_def)
  have c': "imsi_present c" "\<not> auth_present c" "ue_id c = u" using c(2) req core_facts(1) [of c "requested env u r"] by auto
  let ?t = "nas_itti_auth_info_req env u (imsi64 c) (originating_tai c) t"
  have t: "ue_state lk early_core sel u p (requested env u r) None L F ?t" by (rule ue_state_quiet [OF st calmD(6) [OF calm]])
  then obtain d where d: "ctxs ?t p = Some d" "early_core d = early_core (requested env u r)" by (auto simp: ue_state_def)
  then have "\<not> security_valid d" "\<not> is_emergency d" using req by (auto simp: core_def)
  then have "emm_attach_identify env p t = Inr (RETURNok, ?t)"
    using c c' d by (simp add: emm_attach_identify_def identify_rest_def RETURNok_def RETURNerror_def)
  moreover have "ue_state lk core sel u p (requested env u r) None L F ?t" using t by (rule ue_state_weaken) simp
  ultimately show ?thesis by simp
qed

lemma request_step:
  assumes calm: "calm lk sel env u p" and r: "first_attach env r" and new: "ctx_of lk (world s) u = None" and p: "p = brk s"
    and imsi: "\<And>i. r_imsi r = Some i \<Longrightarrow> emm_data_context_get_by_imsi env (imsi_to_imsi64 env i) s = None"
  shows "returns (\<lambda>(rc, t). rc = RETURNok \<and> ue_state lk core sel u p (requested env u r) None (ue_log u s) (filter sel (drb_forward s)) t)
    (emm_proc_attach_request env u r s)"
proof -
  obtain i where i: "r_imsi r = Some i" using r by (auto simp: first_attach_def)
  define s0 where "s0 = s\<lparr>ctxs := (ctxs s)(p \<mapsto> new_context env u r), brk := Suc p\<rparr>"
  define s1 where "s1 = emm_fsm_set_status env u p EMM_DEREGISTERED s0"
  let ?L = "ue_log u s" and ?F = "filter sel (drb_forward s)"
  have q: "quiet lk early_core sel u p s0 s1" unfolding s1_def by (rule calmD(4) [OF calm])
  then obtain c1 where c1: "ctxs s1 p = Some c1" "early_core c1 = early_core (new_context env u r)"
    by (fastforce simp: quiet_def quiet_ctx_def s0_def)
  have log: "ue_log u s1 = ?L" "filter sel (drb_forward s1) = ?F" using q by (auto simp: quiet_def quiet_ctx_def s0_def ue_log_def)
  have "ue_id c1 = u" using c1(2) by (simp add: core_def new_context_def)
  from calmD(3) [OF calm c1(1) this] obtain s2 where s2: "emm_data_context_add env p s1 = (RETURNok, s2)"
      "ctx_of lk (world s2) u = Some p" "quiet_ctx early_core sel u p s1 s2" by blast
  have st2: "ue_state lk early_core sel u p (new_context env u r) None ?L ?F s2"
    using s2(2,3) c1 log by (fastforce simp: ue_state_def quiet_ctx_def)
  let ?R = "\<lambda>(rc, t). rc = RETURNok \<and> ue_state lk core sel u p (requested env u r) None ?L ?F t"
  have "returns ?R (rbind (upd_ctx p (\<lambda>c. c\<lparr>lvr_tai := r_lvr_tai r\<rparr>) s2) (\<lambda>s3. rbind (emm_attach_update env p u r s3) (\<lambda>(rc2, s4).
             if rc2 \<noteq> RETURNok then rbind (upd_ctx p (\<lambda>c. c\<lparr>emm_cause_of := EMM_CAUSE_ILLEGAL_UE\<rparr>) s4) (emm_attach_reject env (Some p))
             else emm_attach_identify env p s4)))"
  proof (rule ue_state_upd [OF st2, where e = "(new_context env u r)\<lparr>lvr_tai := r_lvr_tai r\<rparr>" and K' = early_core])
    show "early_core c' = early_core (new_context env u r) \<Longrightarrow>
        early_core (c'\<lparr>lvr_tai := r_lvr_tai r\<rparr>) = early_core ((new_context env u r)\<lparr>lvr_tai := r_lvr_tai r\<rparr>)" for c' by (simp add: core_def)
    fix s3 assume "ue_state lk early_core sel u p ((new_context env u r)\<lparr>lvr_tai := r_lvr_tai r\<rparr>) None ?L ?F s3"
    from update_step [OF calm r this] show "returns ?R (rbind (emm_attach_update env p u r s3) (\<lambda>(rc2, s4).
             if rc2 \<noteq> RETURNok then rbind (upd_ctx p (\<lambda>c. c\<lparr>emm_cause_of := EMM_CAUSE_ILLEGAL_UE\<rparr>) s4) (emm_attach_reject env (Some p))
             else emm_attach_identify env p s4))"
      by (rule returns_rbind) (use identify_step [OF calm r] in auto)
  qed
  then have "returns ?R (create_context env u r s)"
    using s2(1) unfolding create_context_def by (simp add: Let_def p [symmetric] s0_def [symmetric] s1_def [symmetric])
  moreover have "emm_proc_attach_request env u r s = create_context env u r s"
    using r new imsi [OF i] i calmD(1) [OF calm] by (auto simp: emm_proc_attach_request_def guti_cleanup_def first_attach_def)
  ultimately show ?thesis by simp
qed

lemma security_step:
  assumes calm: "calm lk sel env u p" and st: "ue_state lk core sel u p c D L F t" and "ue_id c = u"
  shows "returns (\<lambda>(rc, t'). rc = RETURNok \<and> ue_state lk core sel u p c D L F t') (emm_attach_security env p t)"
  unfolding emm_attach_security_def
proof (rule ue_state_upd [OF st, where e = c and K' = core])
  show "core c' = core c \<Longrightarrow> core (c'\<lparr>security_valid := False, eksi := None\<rparr>) = core c" for c' by (simp add: core_def)
  fix t1 assume t1: "ue_state lk core sel u p c D L F t1"
  obtain c1 where c1: "ctxs t1 p = Some c1" "ue_id c1 = u" using t1 assms(3) by (auto simp: ue_state_def dest: core_facts(1))
  obtain t2 where t2: "emm_proc_security_mode_control env u p t1 = (RETURNok, t2)" "quiet lk full_core sel u p t1 t2" using calm_opD(5) [OF calm] by blast
  show "returns (\<lambda>(rc, t'). rc = RETURNok \<and> ue_state lk core sel u p c D L F t') (rbind (get_ctx p t1) (\<lambda>c.
      let (rc, s2) = emm_proc_security_mode_control env (ue_id c) p t1 in
      if rc \<noteq> RETURNok then rbind (upd_ctx p (\<lambda>c. c\<lparr>emm_cause_of := EMM_CAUSE_ILLEGAL_UE\<rparr>) s2) (emm_attach_reject env (Some p)) else Inr (rc, s2)))"
    using c1 t2(1) ue_state_core [OF t1 t2(2)] by simp
qed

lemma pdn_step:
  assumes calm: "calm lk sel env u p" and st: "ue_state lk core sel u p c D L F t" and "ue_id c = u"
  shows "returns (\<lambda>(rc, t'). rc = RETURNok \<and> (\<exists>d. ue_state lk core sel u p c (Some (d, \<lparr>d_ue_id = u, retransmission_count = 0, d_esm_msg = None\<rparr>)) L F t'))
    (emm_attach env p t)"
proof -
  have ctx: "\<exists>c'. ctxs t p = Some c' \<and> ue_id c' = u" if "ue_state lk core sel u p c D L F t" for D t
    using that assms(3) by (auto simp: ue_state_def dest: core_facts(1))
  obtain c0 where c0: "ctxs t p = Some c0" "ue_id c0 = u" using ctx [OF st] by blast
  obtain b t1 where t1: "esm_sap_send env ESM_PDN_CONNECTIVITY_REQ u p (esm_msg c0) t = (RETURNok, ESM_SAP_SUCCESS, b, t1)" "quiet lk full_core sel u p t t1"
    using calm_opD(3) [OF calm] by blast
  have st1: "ue_state lk core sel u p c None L F t1" by (rule ue_state_drop [OF ue_state_core [OF st t1(2)]])
  obtain d t2 where d: "new_data t1 = (d, t2)" by fastforce
  have st2: "ue_state lk core sel u p c None L F t2" using st1 d by (auto simp: new_data_def ue_state_def ue_log_def)
  obtain c2 where c2: "ctxs t2 p = Some c2" "ue_id c2 = u" using ctx [OF st2] by blast
  obtain t3 where t3: "emm_proc_common_initialize env u d t2 = (RETURNok, t3)" "ctx_of lk (world t3) u = ctx_of lk (world t2) u"
      "args_of lk (world t3) u = Some d" "quiet_ctx full_core sel u p t2 t3" using calm_opD(4) [OF calm] by blast
  have st3: "ue_state lk core sel u p c None L F t3" by (rule ue_state_table [OF st2 t3(2) quiet_ctx_core [OF t3(4)]])
  obtain c3 where c3: "ctxs t3 p = Some c3" "ue_id c3 = u" using ctx [OF st3] by blast
  let ?x = "\<lparr>d_ue_id = u, retransmission_count = 0, d_esm_msg = None\<rparr>"
  have "ue_state lk core sel u p c (Some (d, ?x)) L F (t3\<lparr>datas := (datas t3)(d \<mapsto> ?x)\<rparr>)" using st3 t3(3) by (auto simp: ue_state_def ue_log_def)
  moreover have "emm_attach env p t = Inr (RETURNok, t3\<lparr>datas := (datas t3)(d \<mapsto> ?x)\<rparr>)"
    using c0 t1(1) d c2 t3(1) c3 by (simp add: emm_attach_def RETURNok_def RETURNerror_def)
  ultimately show ?thesis by auto
qed

lemma accept_guti_step:
  assumes calm: "calm lk sel env u p" and st: "ue_state lk core sel u p c D L F t" and "\<not> guti_present c"
  shows "returns (\<lambda>(ok, t'). ok \<and> (\<exists>g tais. ue_state lk core sel u p (c\<lparr>guti_of := g, guti_present := True, tai_list := tais\<rparr>) D L F t')) (accept_guti env p t)"
proof -
  obtain c' where c': "ctxs t p = Some c'" "core c' = core c" using st by (auto simp: ue_state_def)
  obtain g tais t1 where t1: "mme_api_new_guti env (imsi_of c') (old_guti_of c') (originating_tai c') t = (RETURNok, g, tais, t1)" "quiet lk full_core sel u p t t1"
    using calm_opD(9) [OF calm] by blast
  have st1: "ue_state lk core sel u p c D L F t1" by (rule ue_state_core [OF st t1(2)])
  let ?c = "c\<lparr>guti_of := g, guti_present := True, tai_list := tais\<rparr>"
  let ?R = "\<lambda>(ok, t'). ok \<and> (\<exists>g tais. ue_state lk core sel u p (c\<lparr>guti_of := g, guti_present := True, tai_list := tais\<rparr>) D L F t')"
  have "returns ?R (rbind (upd_ctx p (\<lambda>c. c\<lparr>tai_list := tais\<rparr>) t1) (\<lambda>s2.
      rbind (upd_ctx p (\<lambda>c. c\<lparr>guti_of := g, guti_present := True, tai_list_valid := True\<rparr>) s2) (\<lambda>s3. Inr (True, s3))))"
  proof (rule ue_state_upd [OF st1, where e = "c\<lparr>tai_list := tais\<rparr>" and K' = core])
    show "core c' = core c \<Longrightarrow> core (c'\<lparr>tai_list := tais\<rparr>) = core (c\<lparr>tai_list := tais\<rparr>)" for c' by (simp add: core_def)
    fix t2 assume t2: "ue_state lk core sel u p (c\<lparr>tai_list := tais\<rparr>) D L F t2"
    show "returns ?R (rbind (upd_ctx p (\<lambda>c. c\<lparr>guti_of := g, guti_present := True, tai_list_valid := True\<rparr>) t2) (\<lambda>s3. Inr (True, s3)))"
      by (rule ue_state_upd [OF t2, where e = ?c and K' = core]) (auto simp: core_def)
  qed
  moreover have "\<not> guti_present c'" using core_facts(3) [OF c'(2)] assms(3) by simp
  ultimately show ?thesis using c'(1) t1(1) by (simp add: accept_guti_def)
qed

lemma accept_send_step:
  assumes calm: "calm lk sel env u p" and st: "ue_state lk core sel u p c (Some (d, x)) L F t"
    and c: "ue_id c = u" "guti_present c" "\<not> guti_valid c" and c': "ctxs t p = Some c'" "core c' = core c"
  shows "returns (\<lambda>(rc, t'). rc = RETURNok \<and> (\<exists>a. ue_state lk core sel u p c (Some (d, x))
        (L @ [EMMAS_ESTABLISH_CNF u (guti_of c) (Some (guti_of c)) (tai_list c) a (d_esm_msg x)]) F t'))
    (let new_guti = (if \<not> guti_valid c' \<and> guti_present c' then Some (guti_of c') else None);
         s2 = delete_ue_radio_capabilities env (ue_id c') t in
     rbind (get_data (Some d) s2) (\<lambda>d'.
       let (rc, s3) = sap_send env (EMMAS_ESTABLISH_CNF (ue_id c') (guti_of c') new_guti (tai_list c') (selected_algorithms c') (d_esm_msg d')) s2 in
       if rc \<noteq> RETURNerror then
         rbind (get_ctx p s3) (\<lambda>c3.
           let (tid, s4) = (if T3450 c3 \<noteq> T_INACTIVE env then nas_timer_restart env (T3450 c3) s3
                            else nas_timer_start env d s3) in
           rbind (upd_ctx p (\<lambda>c. c\<lparr>T3450 := tid\<rparr>) s4) (\<lambda>s5. Inr (rc, s5)))
       else Inr (rc, s3)))"
proof -
  note same = core_facts [OF c'(2)]
  define t2 where "t2 = delete_ue_radio_capabilities env u t"
  define m where "m = EMMAS_ESTABLISH_CNF u (guti_of c) (Some (guti_of c)) (tai_list c) (selected_algorithms c') (d_esm_msg x)"
  have st2: "ue_state lk core sel u p c (Some (d, x)) L F t2" unfolding t2_def by (rule ue_state_core [OF st calmD(8) [OF calm]])
  have x: "datas t2 d = Some x" using st2 by (simp add: ue_state_def)
  obtain t3 where t3: "sap_send env m t2 = (RETURNok, t3)" "quiet lk full_core sel u p (t2\<lparr>sap_log := sap_log t2 @ [m]\<rparr>) t3"
    using calm_opD(1) [OF calm] unfolding sap_send_def m_def by metis
  have "ue_state lk core sel u p c (Some (d, x)) (L @ [m]) F (t2\<lparr>sap_log := sap_log t2 @ [m]\<rparr>)" by (rule ue_state_log [OF st2]) (simp add: m_def)
  from ue_state_core [OF this t3(2)] have st3: "ue_state lk core sel u p c (Some (d, x)) (L @ [m]) F t3" .
  obtain c3 where c3: "ctxs t3 p = Some c3" using st3 by (auto simp: ue_state_def)
  obtain tid t4 where t4: "(if T3450 c3 \<noteq> T_INACTIVE env then nas_timer_restart env (T3450 c3) t3 else nas_timer_start env d t3) = (tid, t4)" by fastforce
  have "quiet lk full_core sel u p t3 t4" using t4 calm_opD(6) [OF calm, of t3 d] calm_opD(7) [OF calm, of t3 "T3450 c3"] by (auto split: if_splits)
  then have st4: "ue_state lk core sel u p c (Some (d, x)) (L @ [m]) F t4" by (rule ue_state_core [OF st3])
  let ?R = "\<lambda>(rc, t'). rc = RETURNok \<and> (\<exists>a. ue_state lk core sel u p c (Some (d, x)) (L @ [EMMAS_ESTABLISH_CNF u (guti_of c) (Some (guti_of c)) (tai_list c) a (d_esm_msg x)]) F t')"
  have "returns ?R (rbind (upd_ctx p (\<lambda>c. c\<lparr>T3450 := tid\<rparr>) t4) (\<lambda>s5. Inr (RETURNok, s5)))"
    by (rule ue_state_upd [OF st4, where e = c and K' = core]) (auto simp: m_def simp del: split_paired_Ex)
  then show ?thesis using c same x t3(1) c3 t4 by (simp add: t2_def [symmetric] m_def RETURNok_def RETURNerror_def)
qed

lemma accept_step:
  assumes calm: "calm lk sel env u p" and st: "ue_state lk core sel u p c (Some (d, x)) L F t" and c: "ue_id c = u" "\<not> guti_present c" "\<not> guti_valid c"
  shows "returns (\<lambda>(rc, t'). rc = RETURNok \<and> (\<exists>g tais a. ue_state lk core sel u p (c\<lparr>guti_of := g, guti_present := True, tai_list := tais\<rparr>) (Some (d, x))
      (L @ [EMMAS_ESTABLISH_CNF u g (Some g) tais a (d_esm_msg x)]) F t')) (emm_attach_accept env (Some p) (Some d) t)"
  unfolding emm_attach_accept_def option.case
proof (rule ue_state_upd [OF st, where e = c and K' = core])
  show "core c' = core c \<Longrightarrow> core (accept_caps c') = core c" for c' by (simp add: core_def accept_caps_def)
  let ?c = "\<lambda>g tais. c\<lparr>guti_of := g, guti_present := True, tai_list := tais\<rparr>"
  let ?R = "\<lambda>(rc, t'). rc = RETURNok \<and> (\<exists>g tais a. ue_state lk core sel u p (?c g tais) (Some (d, x)) (L @ [EMMAS_ESTABLISH_CNF u g (Some g) tais a (d_esm_msg x)]) F t')"
  let ?rest = "\<lambda>s1 c. let new_guti = (if \<not> guti_valid c \<and> guti_present c then Some (guti_of c) else None);
                s2 = delete_ue_radio_capabilities env (ue_id c) s1 in
            rbind (get_data (Some d) s2) (\<lambda>d'.
              let (rc, s3) = sap_send env
                    (EMMAS_ESTABLISH_CNF (ue_id c) (guti_of c) new_guti (tai_list c) (selected_algorithms c) (d_esm_msg d')) s2 in
              if rc \<noteq> RETURNerror then
                rbind (get_ctx p s3) (\<lambda>c3.
                  let (tid, s4) = (if T3450 c3 \<noteq> T_INACTIVE env then nas_timer_restart env (T3450 c3) s3
                                   else nas_timer_start env d s3) in
                  rbind (upd_ctx p (\<lambda>c. c\<lparr>T3450 := tid\<rparr>) s4) (\<lambda>s5. Inr (rc, s5)))
              else Inr (rc, s3))"
  have rest: "returns ?R (rbind (get_ctx p s1) (?rest s1))" if s1: "ue_state lk core sel u p (?c g tais) (Some (d, x)) L F s1" for g tais s1
  proof (rule ue_state_get [OF s1])
    fix c' assume "ctxs s1 p = Some c'" "core c' = core (?c g tais)"
    then show "returns ?R (?rest s1 c')"
      by (intro returns_mono [OF accept_send_step [OF calm s1]]) (use c in \<open>auto simp del: split_paired_Ex\<close>)
  qed
  fix s0 assume s0: "ue_state lk core sel u p c (Some (d, x)) L F s0"
  show "returns ?R (rbind (accept_guti env p s0) (\<lambda>(ok, s1). if \<not> ok then Inr (RETURNerror, s1) else rbind (get_ctx p s1) (?rest s1)))"
    by (rule returns_rbind [OF accept_guti_step [OF calm s0 c(2)]]) (use rest in \<open>clarsimp simp del: split_paired_Ex\<close>)
qed

lemma complete_esm_step:
  assumes calm: "calm lk sel env u p" and st0: "ue_state lk core sel u p c None L F t0"
  shows "returns (\<lambda>(rc, err, ctx, t'). rc = RETURNok \<and> err = ESM_SAP_SUCCESS \<and> ctx = Some p \<and>
      ue_state lk full_core sel u p (c\<lparr>T3450 := T_INACTIVE env, guti_valid := True\<rparr>) None L F t') (complete_esm env u m t0)"
    (is "returns ?Q _")
proof -
  let ?c1 = "c\<lparr>T3450 := T_INACTIVE env, guti_valid := True\<rparr>"
  have get: "emm_data_context_get env u t0 = Some p" using st0 calmD(1) [OF calm] by (simp add: ue_state_def)
  show ?thesis
    unfolding complete_esm_def get option.case
  proof (rule ue_state_get [OF st0])
    fix c0 :: emm_context
    obtain t1 where t1: "nas_timer_stop env (T3450 c0) t0 = (T_INACTIVE env, t1)" "quiet lk full_core sel u p t0 t1" using calm_opD(8) [OF calm] by blast
    have st1: "ue_state lk core sel u p c None L F t1" by (rule ue_state_core [OF st0 t1(2)])
    have "returns ?Q (rbind (upd_ctx p (\<lambda>c. c\<lparr>T3450 := T_INACTIVE env, guti_valid := True\<rparr>) t1) (\<lambda>s2.
          rbind (upd_ctx p (\<lambda>c. c\<lparr>old_guti_present := False\<rparr>) (emm_data_context_add_guti env p s2)) (\<lambda>s3.
          case esm_sap_send env ESM_DEFAULT_EPS_BEARER_CONTEXT_ACTIVATE_CNF u p m s3 of (rc, err, _, s4) \<Rightarrow> Inr (rc, err, Some p, s4))))"
    proof (rule ue_state_upd [OF st1, where e = ?c1 and K' = full_core])
      show "core c' = core c \<Longrightarrow> full_core (c'\<lparr>T3450 := T_INACTIVE env, guti_valid := True\<rparr>) = full_core ?c1" for c' by (simp add: core_def)
      fix t2 assume "ue_state lk full_core sel u p ?c1 None L F t2"
      from ue_state_quiet [OF this calmD(7) [OF calm]] show "returns ?Q (rbind (upd_ctx p (\<lambda>c. c\<lparr>old_guti_present := False\<rparr>) (emm_data_context_add_guti env p t2)) (\<lambda>s3.
          case esm_sap_send env ESM_DEFAULT_EPS_BEARER_CONTEXT_ACTIVATE_CNF u p m s3 of (rc, err, _, s4) \<Rightarrow> Inr (rc, err, Some p, s4)))"
      proof (rule ue_state_upd [where e = ?c1 and K' = full_core])
        show "full_core c' = full_core ?c1 \<Longrightarrow> full_core (c'\<lparr>old_guti_present := False\<rparr>) = full_core ?c1" for c' by (simp add: core_def)
        fix t3 assume t3: "ue_state lk full_core sel u p ?c1 None L F t3"
        obtain b t4 where "esm_sap_send env ESM_DEFAULT_EPS_BEARER_CONTEXT_ACTIVATE_CNF u p m t3 = (RETURNok, ESM_SAP_SUCCESS, b, t4)" "quiet lk full_core sel u p t3 t4"
          using calm_opD(3) [OF calm] by blast
        then show "returns ?Q (case esm_sap_send env ESM_DEFAULT_EPS_BEARER_CONTEXT_ACTIVATE_CNF u p m t3 of (rc, err, _, s4) \<Rightarrow> Inr (rc, err, Some p, s4))"
          using ue_state_quiet [OF t3] by simp
      qed
    qed
    then show "returns ?Q (let (tid, s1) = nas_timer_stop env (T3450 c0) t0 in
          rbind (upd_ctx p (\<lambda>c. c\<lparr>T3450 := tid, guti_valid := True\<rparr>) s1) (\<lambda>s2.
          rbind (upd_ctx p (\<lambda>c. c\<lparr>old_guti_present := False\<rparr>) (emm_data_context_add_guti env p s2)) (\<lambda>s3.
          case esm_sap_send env ESM_DEFAULT_EPS_BEARER_CONTEXT_ACTIVATE_CNF u p m s3 of (rc, err, _, s4) \<Rightarrow> Inr (rc, err, Some p, s4))))"
      by (simp add: t1(1))
  qed
qed

lemma complete_step:
  assumes calm: "calm lk sel env u p" and st: "ue_state lk core sel u p c D L F t" and c: "ue_id c = u" and "sel p"
  shows "returns (\<lambda>(rc, t'). rc = RETURNok \<and> ue_state lk full_core sel u p
      (c\<lparr>T3450 := T_INACTIVE env, guti_valid := True, is_attached := True, is_has_been_attached := True\<rparr>) None (L @ [EMMREG_ATTACH_CNF u]) (F @ [p]) t')
    (emm_proc_attach_complete env u m t)"
proof -
  define t0 where "t0 = emm_proc_common_clear_args env u t"
  have st0: "ue_state lk core sel u p c None L F t0"
    unfolding t0_def by (rule ue_state_table [OF ue_state_drop [OF st] calmD(9) [OF calm] quiet_ctx_core [OF calmD(10) [OF calm]]])
  let ?c1 = "c\<lparr>T3450 := T_INACTIVE env, guti_valid := True\<rparr>"
  obtain t4 where t4: "complete_esm env u m t0 = Inr (RETURNok, ESM_SAP_SUCCESS, Some p, t4)" "ue_state lk full_core sel u p ?c1 None L F t4"
    using complete_esm_step [OF calm st0, of m] by (auto simp: returns_def)
  let ?c2 = "c\<lparr>T3450 := T_INACTIVE env, guti_valid := True, is_attached := True, is_has_been_attached := True\<rparr>" and ?m = "EMMREG_ATTACH_CNF u"
  let ?R = "\<lambda>(rc, t'). rc = RETURNok \<and> ue_state lk full_core sel u p ?c2 None (L @ [?m]) (F @ [p]) t'"
  have "returns ?R (rbind (upd_ctx p (\<lambda>c. c\<lparr>is_attached := True, is_has_been_attached := True\<rparr>) t4) (\<lambda>s1.
      let (rc1, s2) = sap_send env ?m s1 in Inr (rc1, s2\<lparr>drb_forward := drb_forward s2 @ [p]\<rparr>)))"
  proof (rule ue_state_upd [OF t4(2), where e = ?c2 and K' = full_core])
    show "full_core c' = full_core ?c1 \<Longrightarrow> full_core (c'\<lparr>is_attached := True, is_has_been_attached := True\<rparr>) = full_core ?c2" for c' by (simp add: core_def)
    fix t5 assume t5: "ue_state lk full_core sel u p ?c2 None L F t5"
    obtain t6 where t6: "sap_send env ?m t5 = (RETURNok, t6)" "quiet lk full_core sel u p (t5\<lparr>sap_log := sap_log t5 @ [?m]\<rparr>) t6"
      using calm_opD(2) [OF calm] unfolding sap_send_def by metis
    have "ue_state lk full_core sel u p ?c2 None (L @ [?m]) F (t5\<lparr>sap_log := sap_log t5 @ [?m]\<rparr>)" by (rule ue_state_log [OF t5]) simp
    from ue_state_quiet [OF this t6(2)] have "ue_state lk full_core sel u p ?c2 None (L @ [?m]) (F @ [p]) (t6\<lparr>drb_forward := drb_forward t6 @ [p]\<rparr>)"
      using assms(4) by (auto simp: ue_state_def ue_log_def)
    then show "returns ?R (let (rc1, s2) = sap_send env ?m t5 in Inr (rc1, s2\<lparr>drb_forward := drb_forward s2 @ [p]\<rparr>))" using t6(1) by simp
  qed
  then show ?thesis using t4(1) unfolding emm_proc_attach_complete_def t0_def [symmetric] by (simp add: RETURNok_def RETURNerror_def)
qed

text \<open>The whole dialogue; the new context gets the address that was free at its start.\<close>

lemma dialogue_run:
  assumes calm: "calm lk sel env u p" and gap: "\<And>k t. quiet lk core sel u p t (gap k t)" and r: "first_attach env r"
    and new: "ctx_of lk (world s) u = None" and p: "p = brk s" "sel p"
    and imsi: "\<And>i. r_imsi r = Some i \<Longrightarrow> emm_data_context_get_by_imsi env (imsi_to_imsi64 env i) s = None"
  shows "\<exists>s' c a. attach_dialogue env gap u r m s = Inr (RETURNok, s') \<and> attached_ctx env u r c \<and>
    ue_state lk full_core sel u p c None (ue_log u s @ [EMMAS_ESTABLISH_CNF u (guti_of c) (Some (guti_of c)) (tai_list c) a None, EMMREG_ATTACH_CNF u])
      (filter sel (drb_forward s) @ [p]) s'"
proof -
  let ?c1 = "requested env u r" and ?L = "ue_log u s" and ?F = "filter sel (drb_forward s)"
  note c1 = requested_facts [OF r, of u]
  note look = calmD(1,2) [OF calm]
  obtain s1 where 1: "emm_proc_attach_request env u r s = Inr (RETURNok, s1)" "ue_state lk core sel u p ?c1 None ?L ?F s1"
    using request_step [OF calm r new p(1) imsi] by (auto simp: returns_def)
  have g1: "ue_state lk core sel u p ?c1 None ?L ?F (gap 0 s1)" by (rule ue_state_quiet [OF 1(2) gap])
  obtain s2 where 2: "emm_attach_security env p (gap 0 s1) = Inr (RETURNok, s2)" "ue_state lk core sel u p ?c1 None ?L ?F s2"
    using security_step [OF calm g1 c1(3)] by (auto simp: returns_def)
  have g2: "ue_state lk core sel u p ?c1 None ?L ?F (gap 1 s2)" by (rule ue_state_quiet [OF 2(2) gap])
  let ?x = "\<lparr>d_ue_id = u, retransmission_count = 0, d_esm_msg = None\<rparr>"
  obtain s3 d where 3: "emm_attach env p (gap 1 s2) = Inr (RETURNok, s3)" "ue_state lk core sel u p ?c1 (Some (d, ?x)) ?L ?F s3"
    using pdn_step [OF calm g2 c1(3)] by (auto simp: returns_def)
  have g3: "ue_state lk core sel u p ?c1 (Some (d, ?x)) ?L ?F (gap 2 s3)" by (rule ue_state_quiet [OF 3(2) gap])
  let ?c4 = "\<lambda>g tais. ?c1\<lparr>guti_of := g, guti_present := True, tai_list := tais\<rparr>"
  obtain s4 g tais a where 4: "emm_attach_accept env (Some p) (Some d) (gap 2 s3) = Inr (RETURNok, s4)"
      "ue_state lk core sel u p (?c4 g tais) (Some (d, ?x)) (?L @ [EMMAS_ESTABLISH_CNF u g (Some g) tais a None]) ?F s4"
    using accept_step [OF calm g3 c1(3,6,7)] by (auto simp: returns_def)
  have g4: "ue_state lk core sel u p (?c4 g tais) (Some (d, ?x)) (?L @ [EMMAS_ESTABLISH_CNF u g (Some g) tais a None]) ?F (gap 3 s4)"
    by (rule ue_state_quiet [OF 4(2) gap])
  let ?c5 = "(?c4 g tais)\<lparr>T3450 := T_INACTIVE env, guti_valid := True, is_attached := True, is_has_been_attached := True\<rparr>"
  have id: "ue_id (?c4 g tais) = u" using c1(3) by simp
  obtain s5 where 5: "emm_proc_attach_complete env u m (gap 3 s4) = Inr (RETURNok, s5)"
      "ue_state lk full_core sel u p ?c5 None ((?L @ [EMMAS_ESTABLISH_CNF u g (Some g) tais a None]) @ [EMMREG_ATTACH_CNF u]) (?F @ [p]) s5"
    using complete_step [OF calm g4 id p(2), of m] by (auto simp: returns_def)
  have "emm_data_context_get env u (gap 0 s1) = Some p" "emm_data_context_get env u (gap 2 s3) = Some p" "emm_proc_common_get_args env u (gap 2 s3) = Some d"
    using look g1 g3 by (simp_all add: ue_state_def)
  then have "attach_dialogue env gap u r m s = Inr (RETURNok, s5)"
    using 1(1) 2(1) 3(1) 4(1) 5(1) by (simp add: attach_dialogue_def emm_cn_wrapper_attach_accept_def Let_def)
  moreover have "attached_ctx env u r ?c5" using c1(3,8) by (simp add: attached_ctx_def stored_def)
  ultimately show ?thesis using 5(2) by (intro exI [of _ s5] exI [of _ ?c5] exI [of _ a]) simp
qed

section \<open>The DRB task\<close>

lemma decode_all_outbox:
  assumes "list_all (\<lambda>p. present p = S1AP_PDU_PR_successfulOutcome \<and> procedureCode p = Id_E_RABSetup) ps"
  shows "outbox (decode_all ies m mid ps st) = outbox st @ replicate (length ps) (Task_Drb, Nas_Dl_Data_Req)"
  using assms unfolding decode_all_def
  by (induction ps arbitrary: st) (simp_all add: s1ap_defs send_msg_def Let_def)

lemma drb_view_answers: "concat (map drb_view (replicate n (Task_Drb, Nas_Dl_Data_Req))) = replicate n S1ap_Nas_Dl_Data_Req"
  by (induction n) (simp_all add: drb_view_def)

lemma initial_ue_outbox:
  assumes "s1ap_mme_itti_mme_app_initial_ue_message assoc enb enb_ue mme_ue nas_msg t cg cause tmsi csg gummei st = Inr st1"
  shows "concat (map drb_view (outbox st1)) = concat (map drb_view (outbox st)) @ [Mme_App_Initial_Ue_Message enb_ue]"
  using assms by (auto simp: s1ap_mme_itti_mme_app_initial_ue_message_def send_msg_def drb_view_def Let_def split: if_splits)

text \<open>Any number of answers makes the bearers active.\<close>

lemma answers_activate:
  assumes "\<And>c e st e'. status (esm_ebr_set_status env c e st) e' = (if e' = e then Some st else status c e')"
    and "ebi (ue_ctx d) = Some es" and "emm_data (ue_ctx d) = Some c" and "\<not> exit_drb d" and "0 < n"
  shows "\<exists>c'. rfold (drb_iter env) (replicate n S1ap_Nas_Dl_Data_Req) d = Inr (d\<lparr>ue_ctx := (ue_ctx d)\<lparr>emm_data := Some c'\<rparr>\<rparr>) \<and>
    (\<forall>e\<in>set es. status c' e = Some ESM_EBR_ACTIVE) \<and> (\<forall>e. e \<notin> set es \<longrightarrow> status c' e = status c e)"
  using assms(2-5)
proof (induction n arbitrary: c d)
  case (Suc n)
  let ?c = "set_all env ESM_EBR_ACTIVE es c"
  let ?d = "d\<lparr>ue_ctx := (ue_ctx d)\<lparr>emm_data := Some ?c\<rparr>\<rparr>"
  note st = set_all_status [of status, OF assms(1)]
  have one: "drb_iter env S1ap_Nas_Dl_Data_Req d = Inr ?d" using Suc.prems by (simp add: drb_iter_def drb_process_itti_msg_def activate_bearers_def)
  show ?case
  proof (cases "n = 0")
    case True
    then show ?thesis using one by (intro exI [of _ ?c]) (simp add: st)
  next
    case False
    then show ?thesis using Suc.IH [of ?d ?c] Suc.prems one by (auto simp: st)
  qed
qed simp

section \<open>Properties\<close>

text \<open>C40. A first attach succeeds as a whole. The functions of the attach procedure are called for a UE that is not known yet in the order of the
  callbacks they hand out, with the rest of the MME (authentication, security mode, state machine, other UEs) at work during and between the calls. Given
  that the functions called succeed and that nothing else writes the entry, the saved data and the core of the context of this UE, they end without an error: the UE has one
  context, which holds the parameters of the request and a valid GUTI and is marked attached, with the timer stopped; it was sent one attach
  accept with that GUTI and nothing else, EMM is told that it has attached, it is found under its id, and its context is forwarded once to the
  DRB task.\<close>

theorem attach_dialogue_ends:
  assumes "calm lk (\<lambda>q. q = brk s) env u (brk s)" and "\<And>k t. quiet lk core (\<lambda>q. q = brk s) u (brk s) t (gap k t)" and "first_attach env r"
    and "ctx_of lk (world s) u = None"
    and "\<And>i. r_imsi r = Some i \<Longrightarrow> emm_data_context_get_by_imsi env (imsi_to_imsi64 env i) s = None"
  shows "\<exists>s' c a. attach_dialogue env gap u r m s = Inr (RETURNok, s') \<and> emm_data_context_get env u s' = Some (brk s) \<and>
    ctxs s' (brk s) = Some c \<and> attached_ctx env u r c \<and>
    ue_log u s' = ue_log u s @ [EMMAS_ESTABLISH_CNF u (guti_of c) (Some (guti_of c)) (tai_list c) a None, EMMREG_ATTACH_CNF u] \<and>
    filter (\<lambda>q. q = brk s) (drb_forward s') = filter (\<lambda>q. q = brk s) (drb_forward s) @ [brk s]"
proof -
  obtain s' c a where s': "attach_dialogue env gap u r m s = Inr (RETURNok, s')" "attached_ctx env u r c"
      "ue_state lk full_core (\<lambda>q. q = brk s) u (brk s) c None
        (ue_log u s @ [EMMAS_ESTABLISH_CNF u (guti_of c) (Some (guti_of c)) (tai_list c) a None, EMMREG_ATTACH_CNF u]) (filter (\<lambda>q. q = brk s) (drb_forward s) @ [brk s]) s'"
    using dialogue_run [where gap = gap and m = m, OF assms(1,2,3,4) refl refl assms(5)] by blast
  then obtain c' where c': "ctxs s' (brk s) = Some c'" "core c' = core c" "T3450 c' = T3450 c" by (auto simp: ue_state_def)
  have "attached_ctx env u r c'" using s'(2) core_facts [OF c'(2)] c'(3) by (simp add: attached_ctx_def)
  moreover have "emm_data_context_get env u s' = Some (brk s)" using calmD(1) [OF assms(1)] s'(3) by (simp add: ue_state_def)
  ultimately show ?thesis using s'(1,3) c'(1) core_facts(2,5) [OF c'(2)]
    by (intro exI [of _ s'] exI [of _ c'] exI [of _ a]) (simp add: ue_state_def)
qed

lemma set_ctx_quiet:
  "(\<And>c. K (f c) = K c) \<Longrightarrow> quiet lk K sel u p t (set_ctx f q t)"
  by (auto simp: quiet_def quiet_args_def quiet_ctx_def set_ctx_def ue_log_def)

lemma quiet_refl: "quiet lk K sel u p t t"
  by (simp add: quiet_def quiet_args_def quiet_ctx_def)

lemma work_env_calm: "calm work_lookup sel work_env u p"
proof -
  have tab: "calm_table work_lookup sel work_env u p"
    unfolding calm_table_def
    by (auto simp: work_env_def work_lookup_def core_def quiet_ctx_def ue_log_def intro!: set_ctx_quiet quiet_refl)
  have sap: "\<exists>t'. emm_sap_send work_env x t = (RETURNok, t') \<and> quiet work_lookup full_core sel u p t t'"
    if "x = EMMREG_ATTACH_CNF u \<or> (\<exists>g h l a m. x = EMMAS_ESTABLISH_CNF u g h l a m)" for x t
    using that by (auto simp: work_env_def work_sap_def core_def split: option.splits intro!: set_ctx_quiet quiet_refl)
  have "calm_calls work_lookup sel work_env u p"
    unfolding calm_calls_def
  proof (intro conjI allI)
    show "\<exists>t'. emm_sap_send work_env (EMMAS_ESTABLISH_CNF u g h l a m) t = (RETURNok, t') \<and> quiet work_lookup full_core sel u p t t'" for g h l a m t
      by (rule sap) blast
    show "\<exists>t'. emm_sap_send work_env (EMMREG_ATTACH_CNF u) t = (RETURNok, t') \<and> quiet work_lookup full_core sel u p t t'" for t by (rule sap) blast
  qed (auto simp: work_env_def work_lookup_def core_def quiet_ctx_def ue_log_def intro!: set_ctx_quiet quiet_refl)
  with tab show ?thesis by (simp add: calm_def)
qed

lemma work_gap_all_quiet: "quiet work_lookup core sel u p t (work_gap_all k t)"
  by (auto simp: quiet_def quiet_args_def quiet_ctx_def work_gap_all_def ue_log_def core_def)

lemma demo_first_attach: "first_attach work_env demo_request"
  by (simp add: first_attach_def work_env_def demo_request_def)

lemma attach_dialogue_ends_witness:
  "\<exists>s' c. attach_dialogue work_env work_gap_all 7 demo_request None empty_mme = Inr (RETURNok, s') \<and> ctxs s' 5 = Some c \<and> attached_ctx work_env 7 demo_request c \<and>
    filter (\<lambda>q. q = 5) (drb_forward s') = [5]"
proof -
  have "ctx_of work_lookup (world empty_mme) 7 = None" "brk empty_mme = 5" "drb_forward empty_mme = []" by (simp_all add: empty_mme_def work_lookup_def)
  moreover have "emm_data_context_get_by_imsi work_env k empty_mme = None" for k by (simp add: work_env_def)
  ultimately show ?thesis
    using attach_dialogue_ends [where gap = work_gap_all and m = None, OF work_env_calm work_gap_all_quiet demo_first_attach, of empty_mme 7] by auto
qed

text \<open>C6. From the attach to the bearers: the S1AP task hands on the first message of a UE, the UE attaches, and the eNB answers the requests
  for bearers. Then the DRB task, from the three messages or more in its queue, has sent the three requests with the eNB id of the
  first message, encrypted in the context of the UE that attached, and all three bearers are active.\<close>

theorem attach_activates_bearers:
  assumes "calm lk (\<lambda>_. True) env u (brk s)" and "\<And>k t. quiet lk core (\<lambda>_. True) u (brk s) t (gap k t)" and "first_attach env r"
    and "ctx_of lk (world s) u = None" and "drb_forward s = []"
    and "\<And>i. r_imsi r = Some i \<Longrightarrow> emm_data_context_get_by_imsi env (imsi_to_imsi64 env i) s = None"
    and "s1ap_mme_itti_mme_app_initial_ue_message assoc enb enb_ue mme_ue nas_msg t cg cause tmsi csg gummei \<lparr>live = [], strings = 0, outbox = []\<rparr> = Inr st1"
    and "list_all (\<lambda>p. present p = S1AP_PDU_PR_successfulOutcome \<and> procedureCode p = Id_E_RABSetup) ps" and "ps \<noteq> []"
    and "enc_ok (drb_encrypted nenv (view (brk s)))"
    and "\<And>c e st e'. status (esm_ebr_set_status nenv c e st) e' = (if e' = e then Some st else status c e')"
  shows "\<exists>s' d es c. attach_dialogue env gap u r m s = Inr (RETURNok, s') \<and>
    drb_task nenv (drb_queue view (outbox st1) (drb_forward s') (drop (length (outbox st1)) (outbox (decode_all ies pm mid ps st1)))) = Inr d \<and>
    setup_requests enb_ue (drb_encrypted nenv (view (brk s))) = Inr (sctp_sent d) \<and> ebi (ue_ctx d) = Some es \<and> length es = 3 \<and>
    emm_data (ue_ctx d) = Some c \<and> (\<forall>e\<in>set es. status c e = Some ESM_EBR_ACTIVE)"
proof -
  obtain s' where s': "attach_dialogue env gap u r m s = Inr (RETURNok, s')" "drb_forward s' = [brk s]"
    using dialogue_run [where gap = gap and m = m, OF assms(1,2,3,4) refl TrueI assms(6)] assms(5) by (auto simp: ue_state_def)
  let ?q = "drb_queue view (outbox st1) (drb_forward s') (drop (length (outbox st1)) (outbox (decode_all ies pm mid ps st1)))"
  let ?d = "drb_init\<lparr>ue_ctx := (ue_ctx drb_init)\<lparr>enb_id := enb_ue\<rparr>\<rparr>"
  have q: "?q = [Mme_App_Initial_Ue_Message enb_ue, Attach_Forward_Drb (view (brk s))] @ replicate (length ps) S1ap_Nas_Dl_Data_Req"
    using s'(2) by (simp add: drb_queue_def initial_ue_outbox [OF assms(7)] decode_all_outbox [OF assms(8)] drb_view_answers del: map_replicate)
  obtain es c2 ms where at: "length es = 3" "setup_requests enb_ue (drb_encrypted nenv (view (brk s))) = Inr ms"
      "attach_forward_drb nenv (view (brk s)) ?d = Inr (attached nenv es c2 ms ?d)"
    using attach_forward_Inr [OF assms(10), of ?d] by auto
  let ?d1 = "attached nenv es c2 ms ?d"
  have d1: "ebi (ue_ctx ?d1) = Some es" "emm_data (ue_ctx ?d1) = Some (set_all nenv ESM_EBR_ACTIVE_PENDING es c2)" "\<not> exit_drb ?d1" "sctp_sent ?d1 = ms"
    by (simp_all add: attached_def drb_init_def)
  obtain c' where c': "rfold (drb_iter nenv) (replicate (length ps) S1ap_Nas_Dl_Data_Req) ?d1 = Inr (?d1\<lparr>ue_ctx := (ue_ctx ?d1)\<lparr>emm_data := Some c'\<rparr>\<rparr>)"
      "\<forall>e\<in>set es. status c' e = Some ESM_EBR_ACTIVE"
    using answers_activate [of status, OF assms(11) d1(1-3), of "length ps"] assms(9) by auto
  have "drb_task nenv ?q = rfold (drb_iter nenv) (replicate (length ps) S1ap_Nas_Dl_Data_Req) ?d1"
    using at(3) unfolding q by (simp add: drb_task_def drb_iter_def drb_process_itti_msg_def drb_init_def)
  then show ?thesis using s'(1) at(1,2) c' d1 by (intro exI [of _ s'] exI [of _ "?d1\<lparr>ue_ctx := (ue_ctx ?d1)\<lparr>emm_data := Some c'\<rparr>\<rparr>"] exI [of _ es] exI [of _ c']) simp
qed

lemma attach_activates_bearers_witness:
  "\<exists>s' st1 d es c. attach_dialogue work_env work_gap_all 7 demo_request None empty_mme = Inr (RETURNok, s') \<and>
    s1ap_mme_itti_mme_app_initial_ue_message 1 2 9 7 [1] 0 0 0 None None None \<lparr>live = [], strings = 0, outbox = []\<rparr> = Inr st1 \<and>
    drb_task Drb.demo_env (drb_queue (\<lambda>_. (5, Map.empty)) (outbox st1) (drb_forward s') (drop (length (outbox st1)) (outbox (decode_all demo_ies
      \<lparr>direction_of = S1AP_PDU_PR_NOTHING, procedure_of = Id_Reset\<rparr> (Other_Id 0) (replicate 3 (demo_pdu S1AP_PDU_PR_successfulOutcome Id_E_RABSetup)) st1)))) = Inr d \<and>
    ebi (ue_ctx d) = Some es \<and> length es = 3 \<and> emm_data (ue_ctx d) = Some c \<and> (\<forall>e\<in>set es. snd c e = Some ESM_EBR_ACTIVE)"
proof -
  let ?ps = "replicate 3 (demo_pdu S1AP_PDU_PR_successfulOutcome Id_E_RABSetup)"
  have s: "ctx_of work_lookup (world empty_mme) 7 = None" "drb_forward empty_mme = []" "emm_data_context_get_by_imsi work_env k empty_mme = None" for k
    by (simp_all add: empty_mme_def work_env_def work_lookup_def)
  obtain st1 where st1: "s1ap_mme_itti_mme_app_initial_ue_message 1 2 9 7 [1] 0 0 0 None None None \<lparr>live = [], strings = 0, outbox = []\<rparr> = Inr st1"
    by (simp add: s1ap_mme_itti_mme_app_initial_ue_message_def Let_def)
  have ps: "list_all (\<lambda>p. present p = S1AP_PDU_PR_successfulOutcome \<and> procedureCode p = Id_E_RABSetup) ?ps" "?ps \<noteq> []" by (simp_all add: demo_pdu_def numeral_eq_Suc)
  have set: "snd (esm_ebr_set_status Drb.demo_env c e st) e' = (if e' = e then Some st else snd c e')" for c e st e' by (simp add: Drb.demo_env_def)
  show ?thesis
    using attach_activates_bearers [where gap = work_gap_all, OF work_env_calm work_gap_all_quiet demo_first_attach s(1,2) s(3) st1 ps, of Drb.demo_env "\<lambda>_. (5, Map.empty)" snd None demo_ies
        "\<lparr>direction_of = S1AP_PDU_PR_NOTHING, procedure_of = Id_Reset\<rparr>" "Other_Id 0", OF demo_env_enc set] st1 by blast
qed

end
