(* ===== verification/Rlc_Concat.thy ===== *)
theory Rlc_Concat
  imports Prelude
begin

text \<open>
  The concatenation of RLC PDUs in the downlink scheduler of the eNB
  (\<^verbatim>\<open>schedule_ue_spec\<close> in \<^verbatim>\<open>openairinterface5g/openair2/LAYER2/MAC/eNB_scheduler_dlsch.c\<close>): the PDUs that
  were taken from the bearers of the three flows and the default bearer are rewritten to one PDU of the
  default bearer, the logical channel \<^verbatim>\<open>DTCH\<close>.

  \<^item> The buffers are byte lists; an access out of range is an error, also through a negative index or
    length. Bytes are promoted to \<^verbatim>\<open>int\<close> when they are read and cut to 8 bit when they are written.
  \<^item> \<^verbatim>\<open>NB_RB_MAX\<close>, \<^verbatim>\<open>DTCH\<close>, \<^verbatim>\<open>MAX_DLSCH_PAYLOAD_BYTES\<close> and the width of the counter \<^verbatim>\<open>sn\<close> are defined in
    headers of the eNB that are not part of this repository; they are the fields of a record.
  \<^item> A \<^verbatim>\<open>memcpy\<close> between overlapping areas has no meaning in C; many libraries copy as \<^verbatim>\<open>memmove\<close> does. The
    field \<open>memcpy_moves\<close> says which.
  \<^item> The array \<^verbatim>\<open>num_rlc_sdus\<close> is only printed, apart from its current element, which is a local of the
    loop here.
\<close>

section \<open>Data\<close>

datatype mac_error = Buffer_Bounds | Overlapping_Copy

record mac_conf =
  NB_RB_MAX :: nat
  DTCH :: nat
  MAX_DLSCH_PAYLOAD_BYTES :: nat
  sn_bits :: nat
  memcpy_moves :: bool

definition RLC_HEADER_SIZE :: nat where "RLC_HEADER_SIZE = 100"

record concat_state =
  position :: nat
  header_pos :: nat
  buffer_pos :: nat
  rlc_header :: "byte list"
  dlsch_buffer_new :: "byte list"
  rlc_sdus_total :: nat
  fi :: int

text \<open>The SDUs of the MAC PDU, and what the UE statistics keep from one call to the next.\<close>

record mac_sdus =
  dlsch_buffer :: "byte list"
  num_sdus :: nat
  sdu_lengths :: "nat list"
  sdu_lcids :: "nat list"
  sdu_length_total :: int
  padding :: int
  post_padding :: int
  stats_sn :: int
  fi_ind :: nat
  lcids_overrun :: nat

section \<open>Access to the buffers\<close>

definition rd :: "byte list \<Rightarrow> nat \<Rightarrow> mac_error + int" where
  "rd buf i = (if i < length buf then Inr (uint (buf ! i)) else Inl Buffer_Bounds)"

definition wr :: "nat \<Rightarrow> int \<Rightarrow> byte list \<Rightarrow> mac_error + byte list" where
  "wr i v buf = (if i < length buf then Inr (buf[i := word_of_int v]) else Inl Buffer_Bounds)"

text \<open>\<^verbatim>\<open>memcpy (&dst[d], &src[s], n)\<close>.\<close>

definition copy_to :: "nat \<Rightarrow> byte list \<Rightarrow> nat \<Rightarrow> int \<Rightarrow> byte list \<Rightarrow> mac_error + byte list" where
  "copy_to d src s n dst =
     (if 0 \<le> n \<and> s + nat n \<le> length src \<and> d + nat n \<le> length dst
      then Inr (put_bytes d (get_bytes s (nat n) src) dst) else Inl Buffer_Bounds)"

definition copy_within :: "mac_conf \<Rightarrow> nat \<Rightarrow> nat \<Rightarrow> int \<Rightarrow> byte list \<Rightarrow> mac_error + byte list" where
  "copy_within cf d s n buf =
     (if \<not> memcpy_moves cf \<and> int d < int s + n \<and> int s < int d + n then Inl Overlapping_Copy else copy_to d buf s n buf)"

section \<open>The new RLC header\<close>

text \<open>Appends one E/LI field with E set.\<close>

definition write_li :: "int \<Rightarrow> concat_state \<Rightarrow> mac_error + concat_state" where
  "write_li s_len st =
     (if even (rlc_sdus_total st) then
        rbind (wr (header_pos st) (128 + drop_bit 4 s_len) (rlc_header st)) (\<lambda>h.
        rbind (wr (header_pos st + 1) (push_bit 4 (s_len AND 0xf)) h) (\<lambda>h'.
          Inr (st\<lparr>rlc_header := h', header_pos := header_pos st + 1, rlc_sdus_total := rlc_sdus_total st + 1\<rparr>)))
      else
        rbind (rd (rlc_header st) (header_pos st)) (\<lambda>b.
        rbind (wr (header_pos st) (b + (8 + drop_bit 8 s_len)) (rlc_header st)) (\<lambda>h.
        rbind (wr (header_pos st + 1) (s_len AND 0xff) h) (\<lambda>h'.
          Inr (st\<lparr>rlc_header := h', header_pos := header_pos st + 2, rlc_sdus_total := rlc_sdus_total st + 1\<rparr>)))))"

text \<open>The first pair in a group of three bytes starts at a byte boundary, the second in the middle of a byte.\<close>

definition E_even :: "int \<Rightarrow> int" where "E_even b0 = drop_bit 7 (b0 AND 0x80)"
definition E_odd :: "int \<Rightarrow> int" where "E_odd b0 = drop_bit 3 (b0 AND 0x08)"

definition LI_even :: "int \<Rightarrow> int \<Rightarrow> int" where
  "LI_even b0 b1 = push_bit 4 (b0 AND 0x7f) + drop_bit 4 (b1 AND 0xf0)"

definition LI_odd :: "int \<Rightarrow> int \<Rightarrow> int" where
  "LI_odd b0 b1 = push_bit 8 (b0 AND 0x07) + b1"

text \<open>The loop over the E/LI fields of one PDU, entered while E is set: \<open>p\<close> is \<^verbatim>\<open>pdu_pos\<close>, \<open>n\<close> is
  \<^verbatim>\<open>num_rlc_sdus[index_mac]\<close> and \<open>d\<close> is \<^verbatim>\<open>data_field_size\<close>.\<close>

function li_loop :: "byte list \<Rightarrow> nat \<Rightarrow> nat \<Rightarrow> int \<Rightarrow> concat_state \<Rightarrow> mac_error + nat \<times> int \<times> concat_state" where
  "li_loop buf p n d st =
     (let n' = n + 1; q = (if even n' then p + 2 else p + 1) in
      if q + 1 < length buf then
        let b0 = uint (buf ! q); b1 = uint (buf ! (q + 1));
            s_len = (if even n' then LI_even b0 b1 else LI_odd b0 b1);
            e = (if even n' then E_even b0 else E_odd b0)
        in case write_li s_len st of
             Inl err \<Rightarrow> Inl err
           | Inr st' \<Rightarrow> if e \<noteq> 0 then li_loop buf q n' (d + s_len) st' else Inr (q, d + s_len, st')
      else Inl Buffer_Bounds)"
  by pat_completeness auto
termination
  by (relation "measure (\<lambda>(buf, p, n, d, st). length buf - p)") auto

declare li_loop.simps [simp del]

text \<open>One PDU of length \<open>len\<close>.\<close>

definition concat_pdu :: "byte list \<Rightarrow> nat \<Rightarrow> concat_state \<Rightarrow> mac_error + concat_state" where
  "concat_pdu buf len st =
     rbind (rd buf (position st)) (\<lambda>b0.
     rbind (rd buf (position st + 1)) (\<lambda>b1.
       let e = drop_bit 2 (b0 AND 0x04); st1 = st\<lparr>fi := drop_bit 3 (b0 AND 0x18)\<rparr> in
       if len = 0 then Inr st1
       else if e \<noteq> 0 then
         rbind (li_loop buf (position st) 1 0 st1) (\<lambda>(p, d, st2).
         let n = int len - (int p + 2 - int (position st)) in
         rbind (write_li (n - d) st2) (\<lambda>st3.
         rbind (copy_to (buffer_pos st3) buf (p + 2) n (dlsch_buffer_new st3)) (\<lambda>nb.
           Inr (st3\<lparr>dlsch_buffer_new := nb, buffer_pos := buffer_pos st3 + nat n, position := position st3 + len\<rparr>))))
       else
         let n = int len - 2 in
         rbind (write_li n st1) (\<lambda>st3.
         rbind (copy_to (buffer_pos st3) buf (position st + 2) n (dlsch_buffer_new st3)) (\<lambda>nb.
           Inr (st3\<lparr>dlsch_buffer_new := nb, buffer_pos := buffer_pos st3 + nat n, position := position st3 + len\<rparr>)))))"

text \<open>The E/LI field of the last SDU is removed again.\<close>

definition trim_header :: "concat_state \<Rightarrow> mac_error + concat_state" where
  "trim_header st =
     (let h = header_pos st; hdr = rlc_header st in
      if even (rlc_sdus_total st) then
        (if h < 3 \<or> length hdr < h then Inl Buffer_Bounds
         else Inr (st\<lparr>rlc_header := hdr[h - 3 := hdr ! (h - 3) AND 0x7f, h - 2 := hdr ! (h - 2) AND 0xf0, h - 1 := 0],
                      header_pos := h - 1\<rparr>))
      else
        (if length hdr \<le> h then Inl Buffer_Bounds
         else let hdr1 = (if 1 < rlc_sdus_total st then hdr[h - 3 := hdr ! (h - 3) AND 0xf7] else hdr) in
           Inr (st\<lparr>rlc_header := hdr1[h - 1 := 0, h := 0], header_pos := h - 1\<rparr>)))"

text \<open>FI, sequence number and E.\<close>

definition set_header :: "int \<Rightarrow> int \<Rightarrow> concat_state \<Rightarrow> concat_state" where
  "set_header sn f st =
     (let h0 = word_of_int (uint (rlc_header st ! 0) + push_bit 3 f) :: byte;
          h1 = word_of_int (uint h0 OR drop_bit 8 sn) :: byte;
          h2 = (if 1 < rlc_sdus_total st then h1 OR 0x04 else h1)
      in st\<lparr>rlc_header := (rlc_header st)[0 := h2, 1 := word_of_int (sn AND 0xff)]\<rparr>)"

section \<open>The whole rewriting\<close>

text \<open>SDUs of the channels below \<^verbatim>\<open>DTCH\<close> are copied as they are: position in the buffer, their number and
  the new buffer.\<close>

definition copy_srb :: "mac_conf \<Rightarrow> byte list \<Rightarrow> nat \<times> nat \<Rightarrow> nat \<times> nat \<times> byte list \<Rightarrow> mac_error + nat \<times> nat \<times> byte list" where
  "copy_srb cf buf x acc = (case (x, acc) of ((lcid, len), (bp, num, nb)) \<Rightarrow>
     if lcid < DTCH cf then rbind (copy_to bp buf bp (int len) nb) (\<lambda>nb'. Inr (bp + len, num + 1, nb'))
     else Inr (bp, num, nb))"

definition calc_padding :: "int \<Rightarrow> int \<Rightarrow> int \<Rightarrow> int \<Rightarrow> int \<times> int" where
  "calc_padding tbs header_length_total tot ta_len =
     (let r = tbs - header_length_total - tot - ta_len in if r \<le> 2 then (r, 0) else (0, 1))"

text \<open>The part after the loop. \<open>cpy\<close> is \<^verbatim>\<open>sdu_length_total_cpy\<close>. The last \<^verbatim>\<open>memset\<close> of the array of channels takes
  the size of the elements to be two bytes, but they have one: \<open>lcids_overrun\<close> counts the bytes that are
  cleared behind the end of the array.\<close>

definition finish_concat ::
  "mac_conf \<Rightarrow> int \<Rightarrow> int \<Rightarrow> int \<Rightarrow> int \<Rightarrow> nat \<Rightarrow> nat \<Rightarrow> concat_state \<Rightarrow> mac_sdus \<Rightarrow> mac_error + mac_sdus" where
  "finish_concat cf tbs hl ta_len cpy srb_len num_srb st0 m =
     rbind (trim_header st0) (\<lambda>st1.
       let sn = (stats_sn m + 1) mod 2 ^ sn_bits cf;
           f = (if fi_ind m \<noteq> 0 then fi st1 OR 2 else fi st1);
           ind = (if f = 1 \<or> f = 3 then sdu_lcids m ! (num_sdus m - 1) else 0);
           st = set_header sn f st1; hp = header_pos st; bp = buffer_pos st
       in rbind (copy_within cf (srb_len + hp) srb_len (int bp - int srb_len) (dlsch_buffer_new st)) (\<lambda>nb.
          rbind (copy_to srb_len (rlc_header st) 0 (int hp) nb) (\<lambda>nb'.
          rbind (copy_to 0 nb' 0 (int (bp + hp)) (replicate (length (dlsch_buffer m)) 0)) (\<lambda>buf'.
            if num_srb < NB_RB_MAX cf then
              let tot = cpy + int (bp + hp) in
              Inr (m\<lparr>dlsch_buffer := buf', num_sdus := num_srb + 1,
                     sdu_lengths := take num_srb (sdu_lengths m) @ (bp + hp) mod 2 ^ 16 # replicate (NB_RB_MAX cf - num_srb - 1) 0,
                     sdu_lcids := take num_srb (sdu_lcids m) @ DTCH cf # replicate (NB_RB_MAX cf - num_srb - 1) 0,
                     sdu_length_total := tot,
                     padding := fst (calc_padding tbs hl tot ta_len),
                     post_padding := snd (calc_padding tbs hl tot ta_len),
                     stats_sn := sn, fi_ind := ind,
                     lcids_overrun := lcids_overrun m + (NB_RB_MAX cf - num_srb)\<rparr>)
            else Inl Buffer_Bounds))))"

definition rlc_concat :: "mac_conf \<Rightarrow> int \<Rightarrow> int \<Rightarrow> int \<Rightarrow> int \<Rightarrow> mac_sdus \<Rightarrow> mac_error + mac_sdus" where
  "rlc_concat cf tbs hl ta_len cpy m =
     rbind (rfold (copy_srb cf (dlsch_buffer m)) (zip (take (num_sdus m) (sdu_lcids m)) (take (num_sdus m) (sdu_lengths m)))
              (0, 0, replicate (MAX_DLSCH_PAYLOAD_BYTES cf) 0)) (\<lambda>(srb_len, num_srb, nb).
       if num_sdus m - num_srb \<noteq> 0 then
         rbind (rfold (concat_pdu (dlsch_buffer m)) (drop num_srb (take (num_sdus m) (sdu_lengths m)))
                  \<lparr>position = srb_len, header_pos = 2, buffer_pos = srb_len, rlc_header = replicate RLC_HEADER_SIZE 0,
                    dlsch_buffer_new = nb, rlc_sdus_total = 0, fi = 0\<rparr>) (\<lambda>st.
           finish_concat cf tbs hl ta_len cpy srb_len num_srb st m)
       else Inr (m\<lparr>num_sdus := num_srb\<rparr>))"

section \<open>Reference encoding\<close>

text \<open>A PDU of RLC unacknowledged mode with 10 bit sequence numbers (TS 36.322): three bits reserved, two bits
  FI, E, ten bits SN; then E/LI pairs of 12 bits each, padded to full bytes; then the data fields.\<close>

definition octet :: "nat \<Rightarrow> byte" where "octet n = of_nat n"

fun pack :: "(bool \<times> nat) list \<Rightarrow> byte list" where
  "pack [] = []"
| "pack [(e, l)] = [octet ((if e then 128 else 0) + l div 16), octet (16 * (l mod 16))]"
| "pack ((e, l) # (e', l') # xs) =
     [octet ((if e then 128 else 0) + l div 16), octet (16 * (l mod 16) + (if e' then 8 else 0) + l' div 256),
      octet (l' mod 256)] @ pack xs"

text \<open>The E bit is set in all pairs but the last.\<close>

fun lis :: "nat list \<Rightarrow> (bool \<times> nat) list" where
  "lis [] = []"
| "lis (l # ls) = (ls \<noteq> [], l) # lis ls"

record um_pdu =
  um_fi :: nat
  um_sn :: nat
  um_fields :: "byte list list"

definition um_encode :: "um_pdu \<Rightarrow> byte list" where
  "um_encode u = [octet (8 * um_fi u + (if 1 < length (um_fields u) then 4 else 0) + um_sn u div 256), octet (um_sn u mod 256)] @
     pack (lis (map length (butlast (um_fields u)))) @ concat (um_fields u)"

definition um_ok :: "um_pdu \<Rightarrow> bool" where
  "um_ok u \<longleftrightarrow> um_fi u < 4 \<and> um_sn u < 1024 \<and> um_fields u \<noteq> [] \<and> list_all (\<lambda>d. length d < 2048) (um_fields u)"

text \<open>A receiver: the lengths, then the fields; the last field is the rest.\<close>

fun unpack :: "byte list \<Rightarrow> (nat list \<times> byte list) option" where
  "unpack (b0 # b1 # bs) =
     (let l = 16 * (unat b0 mod 128) + unat b1 div 16 in
      if unat b0 < 128 then Some ([l], bs)
      else (case bs of
              [] \<Rightarrow> None
            | b2 # bs' \<Rightarrow> let l' = 256 * (unat b1 mod 8) + unat b2 in
                if unat b1 mod 16 < 8 then Some ([l, l'], bs')
                else map_option (\<lambda>(ls, r). (l # l' # ls, r)) (unpack bs')))"
| "unpack _ = None"

fun split_fields :: "nat list \<Rightarrow> byte list \<Rightarrow> byte list list option" where
  "split_fields [] bs = Some [bs]"
| "split_fields (l # ls) bs = (if l \<le> length bs then map_option ((#) (take l bs)) (split_fields ls (drop l bs)) else None)"

fun um_decode :: "byte list \<Rightarrow> um_pdu option" where
  "um_decode (b0 # b1 # bs) =
     (case (if unat b0 div 4 mod 2 = 1 then unpack bs else Some ([], bs)) of
        None \<Rightarrow> None
      | Some (ls, r) \<Rightarrow> map_option (\<lambda>ds. \<lparr>um_fi = unat b0 div 8 mod 4, um_sn = 256 * (unat b0 mod 4) + unat b1,
                                            um_fields = ds\<rparr>) (split_fields ls r))"
| "um_decode _ = None"

text \<open>The header while it is written, with E set in all pairs: its bytes, the value of \<^verbatim>\<open>header_pos\<close> (a pair that
  ends within a byte leaves it at that byte), and the state.\<close>

definition E_pack :: "nat list \<Rightarrow> byte list" where "E_pack ls = pack (map (Pair True) ls)"

definition hdr_bytes :: "nat list \<Rightarrow> byte list" where
  "hdr_bytes ls = [0, 0] @ E_pack ls @ replicate (98 - length (E_pack ls)) 0"

definition hdr_end :: "nat list \<Rightarrow> nat" where
  "hdr_end ls = 2 + length (E_pack ls) - (if odd (length ls) then 1 else 0)"

definition put_hdr :: "nat list \<Rightarrow> concat_state \<Rightarrow> concat_state" where
  "put_hdr ls st = st\<lparr>rlc_header := hdr_bytes ls, header_pos := hdr_end ls, rlc_sdus_total := length ls\<rparr>"

text \<open>What the merged PDU carries: the fields of all PDUs, the FI of the last one, with the bit for a first
  field that continues an SDU if the last call ended within one.\<close>

definition all_fields :: "um_pdu list \<Rightarrow> byte list list" where
  "all_fields us = concat (map um_fields us)"

definition merge_fi :: "nat \<Rightarrow> nat \<Rightarrow> nat" where
  "merge_fi ind f = (if ind \<noteq> 0 \<and> f < 2 then f + 2 else f)"

definition merged_pdu :: "mac_conf \<Rightarrow> mac_sdus \<Rightarrow> um_pdu list \<Rightarrow> um_pdu" where
  "merged_pdu cf m us = \<lparr>um_fi = merge_fi (fi_ind m) (um_fi (last us)), um_sn = nat ((stats_sn m + 1) mod 2 ^ sn_bits cf),
     um_fields = all_fields us\<rparr>"

text \<open>The arrays before the call: SDUs of signalling bearers first, then PDUs of the bearers \<open>cs\<close>.\<close>

definition loaded :: "mac_conf \<Rightarrow> (nat \<times> byte list) list \<Rightarrow> nat list \<Rightarrow> um_pdu list \<Rightarrow> mac_sdus \<Rightarrow> bool" where
  "loaded cf srbs cs us m \<longleftrightarrow>
     list_all (\<lambda>(c, d). c < DTCH cf) srbs \<and> list_all (\<lambda>c. DTCH cf \<le> c) cs \<and> length cs = length us \<and> us \<noteq> [] \<and>
     list_all um_ok us \<and> length (all_fields us) \<le> 65 \<and>
     take (length (concat (map snd srbs @ map um_encode us))) (dlsch_buffer m) = concat (map snd srbs @ map um_encode us) \<and>
     length (dlsch_buffer m) = MAX_DLSCH_PAYLOAD_BYTES cf \<and>
     num_sdus m = length srbs + length us \<and> num_sdus m \<le> NB_RB_MAX cf \<and>
     take (num_sdus m) (sdu_lcids m) = map fst srbs @ cs \<and>
     take (num_sdus m) (sdu_lengths m) = map (\<lambda>(c, d). length d) srbs @ map (\<lambda>u. length (um_encode u)) us"

text \<open>The effect of one PDU on the state: its fields are appended to the new buffer and their lengths to the
  new header.\<close>

definition add_pdu :: "nat \<Rightarrow> um_pdu \<Rightarrow> concat_state \<Rightarrow> concat_state" where
  "add_pdu len u st = st\<lparr>fi := int (um_fi u),
     dlsch_buffer_new := put_bytes (buffer_pos st) (concat (um_fields u)) (dlsch_buffer_new st),
     buffer_pos := buffer_pos st + length (concat (um_fields u)), position := position st + len\<rparr>"

text \<open>The header when the last pair was removed.\<close>

definition trimmed :: "nat list \<Rightarrow> byte list" where
  "trimmed ls = pack (lis (butlast ls))"

definition done_hdr :: "nat list \<Rightarrow> concat_state \<Rightarrow> concat_state" where
  "done_hdr ls st = st\<lparr>rlc_header := [0, 0] @ trimmed ls @ replicate (98 - length (trimmed ls)) 0,
     header_pos := 2 + length (trimmed ls), rlc_sdus_total := length ls\<rparr>"

section \<open>Sample data\<close>

definition demo_conf :: mac_conf where
  "demo_conf = \<lparr>NB_RB_MAX = 14, DTCH = 3, MAX_DLSCH_PAYLOAD_BYTES = 64, sn_bits = 16, memcpy_moves = True\<rparr>"

text \<open>A PDU of bearer 4 with one field and one of bearer 3 with three fields, behind an SDU of a signalling
  bearer or alone.\<close>

definition demo_pdus :: "um_pdu list" where
  "demo_pdus = [\<lparr>um_fi = 0, um_sn = 700, um_fields = [[1, 2, 3]]\<rparr>,
     \<lparr>um_fi = 1, um_sn = 9, um_fields = [[4, 5], [6], [7, 8, 9]]\<rparr>]"

definition demo_sdus :: "(nat \<times> byte list) list \<Rightarrow> mac_sdus" where
  "demo_sdus srbs = \<lparr>dlsch_buffer = take 64 (concat (map snd srbs @ map um_encode demo_pdus) @ replicate 64 0),
     num_sdus = length srbs + 2,
     sdu_lengths = take 14 (map (\<lambda>(c, d). length d) srbs @ map (\<lambda>u. length (um_encode u)) demo_pdus @ replicate 14 0),
     sdu_lcids = take 14 (map fst srbs @ [4, 3] @ replicate 14 0), sdu_length_total = 0, padding = 0, post_padding = 0,
     stats_sn = 41, fi_ind = 0, lcids_overrun = 0\<rparr>"

section \<open>The reference encoding is invertible\<close>

lemma length_lis [simp]: "length (lis ls) = length ls"
  by (induction ls) auto

lemma length_pack: "length (pack xs) = length xs + (length xs + 1) div 2"
  by (induction xs rule: pack.induct) auto

lemma pack_append: "even (length xs) \<Longrightarrow> pack (xs @ ys) = pack xs @ pack ys"
  by (induction xs rule: pack.induct) auto

lemma unat_octet [simp]: "n < 256 \<Longrightarrow> unat (octet n) = n"
  by (simp add: octet_def unat_of_nat take_bit_nat_eq_self)

lemma uint_octet [simp]: "n < 256 \<Longrightarrow> uint (octet n) = int n"
  by (simp add: uint_nat)

lemma byte_less: "unat (w :: byte) < 256"
proof -
  have "unat w < 2 ^ LENGTH(8)" by (rule unsigned_less)
  then show ?thesis by simp
qed

lemma nibbles:
  fixes a c :: nat
  assumes "c < 8"
  shows "(16 * a + c) mod 16 = c" "(16 * a + c) div 16 = a" "(16 * a + c) mod 8 = c"
    "(16 * a + 8 + c) mod 16 = 8 + c" "(16 * a + 8 + c) div 16 = a" "(16 * a + 8 + c) mod 8 = c"
proof -
  have 1: "16 * a + c = 8 * (2 * a) + c" and 2: "16 * a + 8 + c = 8 * (2 * a + 1) + c" by simp_all
  show "(16 * a + c) mod 8 = c" using assms unfolding 1 mod_mult_self4 by simp
  show "(16 * a + 8 + c) mod 8 = c" using assms unfolding 2 mod_mult_self4 by simp
qed (use assms in \<open>simp_all add: add.assoc\<close>)

lemma high_nibble:
  assumes "b < 16" and "c < 8"
  shows "unat (octet (16 * b + (if e then 8 else 0) + c)) div 16 = b"
proof -
  have "16 * b + (if e then 8 else 0) + c < 256" using assms by auto
  then show ?thesis using nibbles [OF assms(2), of b] by (cases e) simp_all
qed

lemma unpack_two:
  assumes "a < 128" and "b < 16" and "c < 8" and "d < 256"
  shows "unpack (octet (128 + a) # octet (16 * b + (if e then 8 else 0) + c) # octet d # bs) =
    (if e then map_option (\<lambda>(ls, r). ((16 * a + b) # (256 * c + d) # ls, r)) (unpack bs)
     else Some ([16 * a + b, 256 * c + d], bs))"
proof -
  have u: "unat (octet (128 + a)) = 128 + a" "unat (octet (16 * b + 8 + c)) = 16 * b + 8 + c"
    "unat (octet (16 * b + c)) = 16 * b + c" using assms by simp_all
  show ?thesis using assms nibbles [OF assms(3), of b] u by (cases e) (simp_all add: Let_def)
qed

lemma unpack_one:
  assumes "a < 128" and "b < 16"
  shows "unpack (octet a # octet (16 * b) # bs) = Some ([16 * a + b], bs)"
  using assms by (simp add: Let_def)

lemma unpack_pack:
  "ls \<noteq> [] \<Longrightarrow> list_all (\<lambda>l. l < 2048) ls \<Longrightarrow> unpack (pack (lis ls) @ r) = Some (ls, r)"
proof (induction ls rule: induct_list012)
  case (2 l)
  then have "l div 16 < 128" by (auto simp: less_mult_imp_div_less)
  then show ?case using unpack_one [of "l div 16" "l mod 16" r] by (simp del: unpack.simps)
next
  case (3 l l' ls)
  have d: "l div 16 < 128" "l mod 16 < 16" "l' div 256 < 8" "l' mod 256 < 256"
    using "3.prems" by (auto simp: less_mult_imp_div_less)
  then show ?case using 3 unpack_two [OF d, of "ls \<noteq> []" "pack (lis ls) @ r"]
    by (cases "ls = []") (simp_all del: unpack.simps)
qed simp

lemma split_fields_concat: "ds \<noteq> [] \<Longrightarrow> split_fields (map length (butlast ds)) (concat ds) = Some ds"
  by (induction ds) auto

lemma um_first_byte:
  assumes "f < 4" and "s < 4"
  shows "unat (octet (8 * f + (if b then 4 else 0) + s)) = 8 * f + (if b then 4 else 0) + s"
    and "(8 * f + (if b then 4 else 0) + s) div 8 mod 4 = f" and "(8 * f + (if b then 4 else 0) + s) mod 4 = s"
    and "(8 * f + (if b then 4 else 0) + s) div 4 mod 2 = (if b then 1 else 0)"
proof -
  have "f \<in> {0, 1, 2, 3}" and "s \<in> {0, 1, 2, 3}" using assms by auto
  then show "(8 * f + (if b then 4 else 0) + s) div 8 mod 4 = f" and "(8 * f + (if b then 4 else 0) + s) mod 4 = s"
    and "(8 * f + (if b then 4 else 0) + s) div 4 mod 2 = (if b then 1 else 0)" by auto
qed (use assms in simp)

text \<open>The receiver gets back FI, sequence number and every data field. The last field has no length field and
  may be of any size.\<close>

lemma um_decode_encode:
  assumes "um_fi u < 4" and "um_sn u < 1024" and "um_fields u \<noteq> []" and "list_all (\<lambda>d. length d < 2048) (butlast (um_fields u))"
  shows "um_decode (um_encode u) = Some u"
proof -
  let ?ls = "map length (butlast (um_fields u))"
  have w: "um_fi u < 4" "um_sn u div 256 < 4" "um_sn u mod 256 < 256"
    using assms by (auto simp: less_mult_imp_div_less)
  note f = um_first_byte [OF w(1,2), of "1 < length (um_fields u)"]
  have "list_all (\<lambda>l. l < 2048) ?ls" using assms(4) by (simp add: list_all_length)
  moreover have "?ls \<noteq> [] \<longleftrightarrow> 1 < length (um_fields u)"
    using assms(3) by (cases "um_fields u"; cases "tl (um_fields u)") auto
  ultimately have "(if 1 < length (um_fields u) then unpack (pack (lis ?ls) @ concat (um_fields u))
      else Some ([], pack (lis ?ls) @ concat (um_fields u))) = Some (?ls, concat (um_fields u))"
    using unpack_pack [of ?ls "concat (um_fields u)"] by auto
  then show ?thesis using w f split_fields_concat [OF assms(3)]
    by (simp add: um_encode_def del: unpack.simps split: if_splits)
qed

lemma length_um_encode:
  "um_fields u \<noteq> [] \<Longrightarrow> length (um_encode u) =
     2 + (length (um_fields u) - 1 + length (um_fields u) div 2) + length (concat (um_fields u))"
  by (cases "um_fields u") (simp_all add: um_encode_def length_pack)

section \<open>Writing the header\<close>

lemma int_and_masks:
  "int n AND 15 = int (n mod 16)" "int n AND 255 = int (n mod 256)" "int n AND 127 = int (n mod 128)" "int n AND 7 = int (n mod 8)"
  using take_bit_eq_mask [of 4 "int n"] take_bit_eq_mask [of 8 "int n"] take_bit_eq_mask [of 7 "int n"] take_bit_eq_mask [of 3 "int n"]
  by (simp_all add: mask_eq_exp_minus_1 take_bit_eq_mod zmod_int)

lemma int_shifts: "drop_bit 4 (int n) = int (n div 16)" "drop_bit 8 (int n) = int (n div 256)" "push_bit 4 (int n) = int (16 * n)"
    "push_bit 8 (int n) = int (256 * n)"
  by (simp_all add: drop_bit_eq_div push_bit_eq_mult zdiv_int)

lemma word_of_int_octet: "word_of_int (int n) = octet n"
  by (simp add: octet_def)

lemma even_length_E_pack: "even (length ls) \<Longrightarrow> E_pack (ls @ ks) = E_pack ls @ E_pack ks"
  by (simp add: E_pack_def pack_append)

lemma length_E_pack: "length (E_pack ls) = length ls + (length ls + 1) div 2"
  by (simp add: E_pack_def length_pack)

lemma E_pack_simps [simp]:
  "E_pack [] = []" "E_pack [l] = [octet (128 + l div 16), octet (16 * (l mod 16))]"
  "E_pack [l, l'] = [octet (128 + l div 16), octet (16 * (l mod 16) + 8 + l' div 256), octet (l' mod 256)]"
  by (simp_all add: E_pack_def)

lemma wr_append: "i = length xs \<Longrightarrow> wr i v (xs @ y # ys) = Inr (xs @ word_of_int v # ys)"
  by (simp add: wr_def)

lemma rd_append: "i = length xs \<Longrightarrow> rd (xs @ y # ys) i = Inr (int (unat y))"
  by (simp add: rd_def)

lemma write_li_even:
  assumes "even (length ls)" and "length (E_pack (ls @ [l])) \<le> 98"
  shows "write_li (int l) (put_hdr ls st) = Inr (put_hdr (ls @ [l]) st)"
proof -
  let ?A = "[0, 0] @ E_pack ls" and ?z = "replicate (96 - length (E_pack ls)) (0 :: byte)"
  have len: "length (E_pack (ls @ [l])) = length (E_pack ls) + 2" using assms(1) by (simp add: even_length_E_pack)
  then have "98 - length (E_pack ls) = Suc (Suc (96 - length (E_pack ls)))" using assms(2) by linarith
  then have h: "hdr_bytes ls = ?A @ 0 # 0 # ?z" by (simp add: hdr_bytes_def)
  have w1: "wr (hdr_end ls) (128 + drop_bit 4 (int l)) (hdr_bytes ls) = Inr (?A @ octet (128 + l div 16) # 0 # ?z)"
    unfolding h using assms(1) by (subst wr_append) (simp_all add: hdr_end_def int_shifts flip: word_of_int_octet)
  have w2: "wr (hdr_end ls + 1) (push_bit 4 (int l AND 15)) (?A @ octet (128 + l div 16) # 0 # ?z) =
      Inr ((?A @ [octet (128 + l div 16)]) @ octet (16 * (l mod 16)) # ?z)"
    using assms(1) wr_append [of "hdr_end ls + 1" "?A @ [octet (128 + l div 16)]" _ 0 ?z]
    by (simp add: hdr_end_def int_shifts int_and_masks flip: word_of_int_octet)
  have "hdr_bytes (ls @ [l]) = (?A @ [octet (128 + l div 16)]) @ octet (16 * (l mod 16)) # ?z"
    using assms(1) len by (simp add: hdr_bytes_def even_length_E_pack)
  moreover have "hdr_end (ls @ [l]) = hdr_end ls + 1" using assms(1) len by (simp add: hdr_end_def)
  ultimately show ?thesis using assms(1) w1 w2 by (simp add: write_li_def put_hdr_def)
qed

lemma write_li_odd:
  assumes "even (length ks)" and "length (E_pack (ks @ [k, l])) \<le> 98" and "l < 2048"
  shows "write_li (int l) (put_hdr (ks @ [k]) st) = Inr (put_hdr (ks @ [k, l]) st)"
proof -
  let ?A = "[0, 0] @ E_pack ks @ [octet (128 + k div 16)]" and ?z = "replicate (95 - length (E_pack ks)) (0 :: byte)"
  have len: "length (E_pack (ks @ [k, l])) = length (E_pack ks) + 3" "length (E_pack (ks @ [k])) = length (E_pack ks) + 2"
    using assms(1) by (simp_all add: even_length_E_pack)
  then have z: "96 - length (E_pack ks) = Suc (95 - length (E_pack ks))" using assms(2) by linarith
  have h: "hdr_bytes (ks @ [k]) = ?A @ octet (16 * (k mod 16)) # 0 # ?z" using assms(1) z
    by (simp add: hdr_bytes_def even_length_E_pack)
  have e: "hdr_end (ks @ [k]) = length ?A" using assms(1) len by (simp add: hdr_end_def)
  have v: "int (16 * (k mod 16)) + (8 + drop_bit 8 (int l)) = int (16 * (k mod 16) + 8 + l div 256)"
    by (simp add: int_shifts)
  have r: "rd (hdr_bytes (ks @ [k])) (hdr_end (ks @ [k])) = Inr (int (16 * (k mod 16)))"
    unfolding h by (subst rd_append [OF e]) simp
  have w1: "wr (hdr_end (ks @ [k])) (int (16 * (k mod 16)) + (8 + drop_bit 8 (int l))) (hdr_bytes (ks @ [k])) =
      Inr (?A @ octet (16 * (k mod 16) + 8 + l div 256) # 0 # ?z)"
    unfolding h v by (subst wr_append [OF e]) (simp only: word_of_int_octet)
  have w2: "wr (hdr_end (ks @ [k]) + 1) (int l AND 255) (?A @ octet (16 * (k mod 16) + 8 + l div 256) # 0 # ?z) =
      Inr ((?A @ [octet (16 * (k mod 16) + 8 + l div 256)]) @ octet (l mod 256) # ?z)"
    using wr_append [of "hdr_end (ks @ [k]) + 1" "?A @ [octet (16 * (k mod 16) + 8 + l div 256)]" _ 0 ?z] e
    by (simp add: int_and_masks flip: octet_def del: of_nat_mod)
  have "hdr_bytes (ks @ [k, l]) = (?A @ [octet (16 * (k mod 16) + 8 + l div 256)]) @ octet (l mod 256) # ?z"
    using assms(1) len by (simp add: hdr_bytes_def even_length_E_pack)
  moreover have "hdr_end (ks @ [k, l]) = hdr_end (ks @ [k]) + 2" using assms(1) len by (simp add: hdr_end_def)
  ultimately show ?thesis using assms(1) r w1 w2 by (simp add: write_li_def put_hdr_def)
qed

lemma write_li_put:
  assumes "length (E_pack (ls @ [l])) \<le> 98" and "l < 2048"
  shows "write_li (int l) (put_hdr ls st) = Inr (put_hdr (ls @ [l]) st)"
proof (cases "even (length ls)")
  case True
  then show ?thesis using assms by (intro write_li_even)
next
  case False
  then obtain ks k where "ls = ks @ [k]" by (cases ls rule: rev_cases) auto
  with False assms show ?thesis using write_li_odd [of ks k l st] by simp
qed

section \<open>Reading the headers\<close>

lemma int_fields:
  "n < 256 \<Longrightarrow> drop_bit 4 (int n AND 240) = int (n div 16)" "drop_bit 7 (int n AND 128) = int (n div 128 mod 2)"
  "drop_bit 3 (int n AND 8) = int (n div 8 mod 2)" "drop_bit 2 (int n AND 4) = int (n div 4 mod 2)"
  "drop_bit 3 (int n AND 24) = int (n div 8 mod 4)"
proof -
  have d: "drop_bit k (int n AND m) = int (n div 2 ^ k) AND drop_bit k m" for k m
    by (subst drop_bit_and) (simp add: drop_bit_eq_div zdiv_int)
  have m: "int a AND 1 = int (a mod 2)" "int a AND 3 = int (a mod 4)" for a
    using take_bit_eq_mask [of 1 "int a"] take_bit_eq_mask [of 2 "int a"]
    by (simp_all add: mask_eq_exp_minus_1 take_bit_eq_mod zmod_int)
  show "drop_bit 4 (int n AND 240) = int (n div 16)" if "n < 256"
    using that unfolding d by (simp add: int_and_masks less_mult_imp_div_less flip: zdiv_int)
  show "drop_bit 7 (int n AND 128) = int (n div 128 mod 2)" "drop_bit 3 (int n AND 8) = int (n div 8 mod 2)"
    "drop_bit 2 (int n AND 4) = int (n div 4 mod 2)" "drop_bit 3 (int n AND 24) = int (n div 8 mod 4)"
    unfolding d by (simp_all add: m flip: zdiv_int)
qed

text \<open>One round of the loop at the first and at the second pair of a group of three bytes.\<close>

lemma li_loop_even:
  assumes "odd n" and "p + 3 < length buf" and "buf ! (p + 2) = octet ((if e then 128 else 0) + l div 16)"
    and "unat (buf ! (p + 3)) div 16 = l mod 16" and "l < 2048" and "length (E_pack (ws @ [l])) \<le> 98"
  shows "li_loop buf p n d (put_hdr ws st) =
    (if e then li_loop buf (p + 2) (n + 1) (d + int l) (put_hdr (ws @ [l]) st)
     else Inr (p + 2, d + int l, put_hdr (ws @ [l]) st))"
proof -
  have a: "l div 16 < 128" using assms(5) by (simp add: less_mult_imp_div_less)
  then have b0: "uint (buf ! (p + 2)) = int ((if e then 128 else 0) + l div 16)"
    using assms(3) by simp
  have b1: "uint (buf ! (p + 3)) = int (unat (buf ! (p + 3)))" "unat (buf ! (p + 3)) < 256"
    by (rule uint_nat, rule byte_less)
  have s: "LI_even (uint (buf ! (p + 2))) (uint (buf ! (p + 3))) = int l"
    unfolding LI_even_def b0 b1(1) int_and_masks int_shifts int_fields(1) [OF b1(2)] assms(4)
    using a by (cases e) (simp_all add: zdiv_int zmod_int)
  have e: "E_even (uint (buf ! (p + 2))) = (if e then 1 else 0)"
    unfolding E_even_def b0 int_fields using a by (cases e) simp_all
  show ?thesis using assms(1,2) write_li_put [OF assms(6,5), of st]
    by (subst li_loop.simps) (use s e in \<open>simp add: Let_def numeral_3_eq_3\<close>)
qed

lemma li_loop_odd:
  assumes "even n" and "p + 2 < length buf" and "buf ! (p + 1) = octet (16 * k + (if e then 8 else 0) + l div 256)" and "k < 16"
    and "buf ! (p + 2) = octet (l mod 256)" and "l < 2048" and "length (E_pack (ws @ [l])) \<le> 98"
  shows "li_loop buf p n d (put_hdr ws st) =
    (if e then li_loop buf (p + 1) (n + 1) (d + int l) (put_hdr (ws @ [l]) st)
     else Inr (p + 1, d + int l, put_hdr (ws @ [l]) st))"
proof -
  have c: "l div 256 < 8" using assms(6) by (simp add: less_mult_imp_div_less)
  then have b0: "uint (buf ! (p + 1)) = int (16 * k + (if e then 8 else 0) + l div 256)"
    using assms(3,4) by simp
  have b1: "uint (buf ! (p + 2)) = int (l mod 256)" using assms(5) by simp
  have m: "(16 * k + (if e then 8 else 0) + l div 256) mod 8 = l div 256" using nibbles [OF c, of k] by simp
  have s: "LI_odd (uint (buf ! (p + 1))) (uint (buf ! (p + 2))) = int l"
    unfolding LI_odd_def b0 b1 int_and_masks int_shifts m by (simp flip: of_nat_add of_nat_mult)
  have "(16 * k + (if e then 8 else 0) + l div 256) div 8 = 2 * k + (if e then 1 else 0)"
    using c by (cases e) (simp_all add: div_add1_eq)
  then have e: "E_odd (uint (buf ! (p + 1))) = (if e then 1 else 0)"
    unfolding E_odd_def b0 int_fields by (cases e) simp_all
  show ?thesis using assms(1,2) write_li_put [OF assms(7,6), of st]
    by (subst li_loop.simps) (use s e in \<open>simp add: Let_def\<close>)
qed

text \<open>The loop copies all pairs of a header to the new one.\<close>

lemma li_loop_reads:
  assumes "ls \<noteq> []" and "list_all (\<lambda>l. l < 2048) ls" and "length (E_pack (ws @ ls)) \<le> 98" and "odd n"
    and "buf = pre @ pack (lis ls) @ post" and "length pre = p + 2"
  shows "li_loop buf p n d (put_hdr ws st) = Inr (p + length (pack (lis ls)), d + int (sum_list ls), put_hdr (ws @ ls) st)"
  using assms
proof (induction ls arbitrary: ws p n d pre rule: induct_list012)
  case (2 l)
  have "buf ! (p + 2) = octet (l div 16)" "buf ! (p + 3) = octet (16 * (l mod 16))" "p + 3 < length buf"
    using 2 by (simp_all add: nth_append)
  then show ?case using 2 li_loop_even [of n p buf False l ws d st] by simp
next
  case (3 l l' ls)
  let ?b0 = "octet (128 + l div 16)" and ?b1 = "octet (16 * (l mod 16) + (if ls \<noteq> [] then 8 else 0) + l' div 256)"
  let ?b2 = "octet (l' mod 256)"
  have buf: "buf = pre @ ?b0 # ?b1 # ?b2 # pack (lis ls) @ post" using "3.prems"(5) by (cases ls) simp_all
  have c: "l' div 256 < 8" using "3.prems"(2) by (auto simp: less_mult_imp_div_less)
  have n: "buf ! (p + 2) = ?b0" "buf ! (p + 3) = ?b1" "buf ! (p + 4) = ?b2" "p + 4 < length buf"
    using "3.prems"(6) by (simp_all add: buf nth_append)
  have fit: "length (E_pack (ws @ [l])) \<le> 98" "length (E_pack ((ws @ [l]) @ [l'])) \<le> 98"
    using "3.prems"(3) by (simp_all add: length_E_pack)
  have "unat (buf ! (p + 3)) div 16 = l mod 16"
    unfolding n by (rule high_nibble [OF _ c]) simp
  then have 1: "li_loop buf p n d (put_hdr ws st) = li_loop buf (p + 2) (n + 1) (d + int l) (put_hdr (ws @ [l]) st)"
    using li_loop_even [of n p buf True l ws d st] "3.prems"(2,4) n fit(1) by simp
  have pos: "p + 2 + 1 = p + 3" "p + 2 + 2 = p + 4" "n + 1 + 1 = n + 2" by simp_all
  have 2: "li_loop buf (p + 2) (n + 1) (d + int l) (put_hdr (ws @ [l]) st) =
      (if ls \<noteq> [] then li_loop buf (p + 3) (n + 2) (d + int l + int l') (put_hdr (ws @ [l, l']) st)
       else Inr (p + 3, d + int l + int l', put_hdr (ws @ [l, l']) st))"
    using li_loop_odd [of "n + 1" "p + 2" buf "l mod 16" "ls \<noteq> []" l' "ws @ [l]" "d + int l" st, unfolded pos] "3.prems"(2,4) n fit(2)
    by simp
  show ?case
  proof (cases "ls = []")
    case True
    with 1 2 show ?thesis by (simp add: algebra_simps)
  next
    case False
    have "li_loop buf (p + 3) (n + 2) (d + int l + int l') (put_hdr (ws @ [l, l']) st) =
        Inr (p + 3 + length (pack (lis ls)), d + int l + int l' + int (sum_list ls), put_hdr ((ws @ [l, l']) @ ls) st)"
      using False "3.prems" buf by (intro "3.IH"(1) [where pre = "pre @ [?b0, ?b1, ?b2]"]) simp_all
    then show ?thesis using 1 2 False by (simp add: algebra_simps)
  qed
qed simp

section \<open>One PDU\<close>

lemma put_hdr_fields [simp]:
  "position (put_hdr ws st) = position st" "buffer_pos (put_hdr ws st) = buffer_pos st"
  "dlsch_buffer_new (put_hdr ws st) = dlsch_buffer_new st" "fi (put_hdr ws st) = fi st"
  "(put_hdr ws st)\<lparr>fi := f\<rparr> = put_hdr ws (st\<lparr>fi := f\<rparr>)"
  "(put_hdr ws st)\<lparr>dlsch_buffer_new := b, buffer_pos := i, position := j\<rparr> =
     put_hdr ws (st\<lparr>dlsch_buffer_new := b, buffer_pos := i, position := j\<rparr>)"
  by (simp_all add: put_hdr_def)

lemma copy_to_append:
  assumes "s = length pre" and "n = int (length xs)" and "d + length xs \<le> length dst"
  shows "copy_to d (pre @ xs @ post) s n dst = Inr (put_bytes d xs dst)"
  using assms by (simp add: copy_to_def get_bytes_def)

lemma add_pdu_fields [simp]:
  "fi (add_pdu len u st) = int (um_fi u)" "position (add_pdu len u st) = position st + len"
  "buffer_pos (add_pdu len u st) = buffer_pos st + length (concat (um_fields u))"
  "dlsch_buffer_new (add_pdu len u st) = put_bytes (buffer_pos st) (concat (um_fields u)) (dlsch_buffer_new st)"
  by (simp_all add: add_pdu_def)

lemma um_header_read:
  assumes "um_ok u" and "buf = pre @ um_encode u @ post" and "p = length pre"
  shows "\<exists>b0 b1. rd buf p = Inr b0 \<and> rd buf (p + 1) = Inr b1 \<and> drop_bit 3 (b0 AND 24) = int (um_fi u) \<and>
    drop_bit 2 (b0 AND 4) = (if 1 < length (um_fields u) then 1 else 0)"
proof -
  let ?n = "8 * um_fi u + (if 1 < length (um_fields u) then 4 else 0) + um_sn u div 256"
  have w: "um_fi u < 4" "um_sn u div 256 < 4" using assms(1) by (auto simp: um_ok_def less_mult_imp_div_less)
  note f = um_first_byte [OF w, of "1 < length (um_fields u)"]
  have rd: "rd buf p = Inr (uint (octet ?n))" "rd buf (p + 1) = Inr (uint (octet (um_sn u mod 256)))"
    using assms(2,3) by (simp_all add: um_encode_def rd_def nth_append)
  have b0: "uint (octet ?n) = int ?n" using f(1) by (simp only: uint_nat)
  have "drop_bit 3 (uint (octet ?n) AND 24) = int (um_fi u)"
    "drop_bit 2 (uint (octet ?n) AND 4) = (if 1 < length (um_fields u) then 1 else 0)"
    unfolding b0 int_fields f(2) f(4) by simp_all
  with rd show ?thesis by blast
qed

lemma concat_pdu_single:
  assumes "um_ok u" and "buf = pre @ um_encode u @ post" and "position st = length pre" and d: "um_fields u = [d]"
    and "length (E_pack (ws @ [length d])) \<le> 98" and "buffer_pos st + length d \<le> length (dlsch_buffer_new st)"
  shows "concat_pdu buf (length (um_encode u)) (put_hdr ws st) =
    Inr (put_hdr (ws @ [length d]) (add_pdu (length (um_encode u)) u st))"
proof -
  let ?st = "st\<lparr>fi := int (um_fi u)\<rparr>"
  obtain b0 b1 where rd: "rd buf (position st) = Inr b0" "rd buf (position st + 1) = Inr b1"
      "drop_bit 3 (b0 AND 24) = int (um_fi u)" "drop_bit 2 (b0 AND 4) = 0"
    using um_header_read [OF assms(1,2,3)] d by auto
  obtain c0 c1 where enc: "um_encode u = [c0, c1] @ d" using d by (simp add: um_encode_def)
  have len: "int (length (um_encode u)) - 2 = int (length d)" "length (um_encode u) \<noteq> 0" by (simp_all add: enc)
  have w1: "write_li (int (length d)) (put_hdr ws ?st) = Inr (put_hdr (ws @ [length d]) ?st)"
    using assms(1,5) d by (intro write_li_put) (simp_all add: um_ok_def)
  have c: "copy_to (buffer_pos st) buf (position st + 2) (int (length d)) (dlsch_buffer_new st) =
      Inr (put_bytes (buffer_pos st) d (dlsch_buffer_new st))"
    using copy_to_append [of "position st + 2" "pre @ [c0, c1]" _ d "buffer_pos st" "dlsch_buffer_new st" post] assms(2,3,6)
    by (simp add: enc)
  show ?thesis
    by (simp only: concat_pdu_def put_hdr_fields rbind_simps Let_def rd len w1 if_False simp_thms)
      (simp add: add_pdu_def d c [simplified])
qed

lemma concat_pdu_many:
  assumes "um_ok u" and "buf = pre @ um_encode u @ post" and "position st = length pre" and many: "1 < length (um_fields u)"
    and "length (E_pack (ws @ map length (um_fields u))) \<le> 98"
    and "buffer_pos st + length (concat (um_fields u)) \<le> length (dlsch_buffer_new st)"
  shows "concat_pdu buf (length (um_encode u)) (put_hdr ws st) =
    Inr (put_hdr (ws @ map length (um_fields u)) (add_pdu (length (um_encode u)) u st))"
proof -
  let ?ds = "um_fields u" and ?ls = "map length (butlast (um_fields u))"
  let ?st = "st\<lparr>fi := int (um_fi u)\<rparr>" and ?k = "length (pack (lis ?ls))" and ?n = "int (length (concat ?ds))"
  obtain b0 b1 where rd: "rd buf (position st) = Inr b0" "rd buf (position st + 1) = Inr b1"
      "drop_bit 3 (b0 AND 24) = int (um_fi u)" "drop_bit 2 (b0 AND 4) = 1"
    using um_header_read [OF assms(1,2,3)] many by auto
  obtain c0 c1 where enc: "um_encode u = [c0, c1] @ pack (lis ?ls) @ concat ?ds" by (simp add: um_encode_def)
  have split: "?ds = butlast ?ds @ [last ?ds]" using many by (intro append_butlast_last_id [symmetric]) auto
  then have ls: "map length ?ds = ?ls @ [length (last ?ds)]" by (metis list.simps(8,9) map_append)
  have ok: "list_all (\<lambda>l. l < 2048) (map length ?ds)" using assms(1) by (simp add: um_ok_def list_all_length)
  have ne: "butlast ?ds \<noteq> []" using many by (cases ?ds rule: rev_cases) auto
  have fits: "length (E_pack (ws @ ?ls)) \<le> 98" using assms(5) unfolding ls by (simp add: length_E_pack)
  have loop: "li_loop buf (position st) 1 0 (put_hdr ws ?st) = Inr (position st + ?k, int (sum_list ?ls), put_hdr (ws @ ?ls) ?st)"
    using li_loop_reads [of ?ls ws 1 buf "pre @ [c0, c1]" "concat ?ds @ post" "position st" 0 ?st] ne ok fits assms(2,3)
    by (simp add: ls enc)
  have n: "int (length (um_encode u)) - (int (position st + ?k) + 2 - int (position st)) = ?n" "length (um_encode u) \<noteq> 0"
    by (simp_all add: enc)
  have "?n = int (sum_list (map length ?ds))" by (simp add: length_concat)
  then have last: "?n - int (sum_list ?ls) = int (length (last ?ds))" unfolding ls by simp
  have w1: "write_li (int (length (last ?ds))) (put_hdr (ws @ ?ls) ?st) = Inr (put_hdr (ws @ map length ?ds) ?st)"
    using assms(5) ok unfolding ls by (subst write_li_put) (simp_all add: ls)
  have c: "copy_to (buffer_pos st) buf (position st + ?k + 2) ?n (dlsch_buffer_new st) =
      Inr (put_bytes (buffer_pos st) (concat ?ds) (dlsch_buffer_new st))"
    using assms(2,3,6) enc by (subst copy_to_append [of _ "pre @ [c0, c1] @ pack (lis ?ls)", symmetric]) auto
  show ?thesis
    by (simp only: concat_pdu_def put_hdr_fields rbind_simps Let_def rd loop prod.case n last w1 if_False if_True simp_thms)
      (simp add: add_pdu_def c [simplified])
qed

lemma concat_pdu_ok:
  assumes "um_ok u" and "buf = pre @ um_encode u @ post" and "position st = length pre"
    and "length (E_pack (ws @ map length (um_fields u))) \<le> 98"
    and "buffer_pos st + length (concat (um_fields u)) \<le> length (dlsch_buffer_new st)"
  shows "concat_pdu buf (length (um_encode u)) (put_hdr ws st) =
    Inr (put_hdr (ws @ map length (um_fields u)) (add_pdu (length (um_encode u)) u st))"
proof (cases "1 < length (um_fields u)")
  case True
  with assms show ?thesis by (intro concat_pdu_many)
next
  case False
  then obtain d where "um_fields u = [d]" using assms(1) by (cases "um_fields u"; cases "tl (um_fields u)") (auto simp: um_ok_def)
  with assms show ?thesis using concat_pdu_single [of u buf pre post st d ws] by simp
qed

section \<open>The last pair is removed\<close>

lemma octet_masks:
  "a < 128 \<Longrightarrow> octet (128 + a) AND 0x7f = octet a"
  "a < 16 \<Longrightarrow> c < 8 \<Longrightarrow> octet (16 * a + 8 + c) AND 0xf0 = octet (16 * a)"
  "a < 16 \<Longrightarrow> c < 8 \<Longrightarrow> octet (16 * a + 8 + c) AND 0xf7 = octet (16 * a + c)"
proof -
  have "list_all (\<lambda>a. octet (128 + a) AND 0x7f = octet a) [0..<128]" by code_simp
  then show "octet (128 + a) AND 0x7f = octet a" if "a < 128" for a using that by (auto simp: list_all_iff)
  have l: "list_all (\<lambda>a. list_all (\<lambda>c. octet (16 * a + 8 + c) AND 0xf0 = octet (16 * a) \<and>
      octet (16 * a + 8 + c) AND 0xf7 = octet (16 * a + c)) [0..<8]) [0..<16]" by code_simp
  show "octet (16 * a + 8 + c) AND 0xf0 = octet (16 * a)" "octet (16 * a + 8 + c) AND 0xf7 = octet (16 * a + c)"
    if "a < 16" "c < 8" for a c using l that by (auto simp: list_all_iff)
qed

lemma lis_snoc: "lis (ks @ [k]) = map (Pair True) ks @ [(False, k)]"
  by (induction ks) auto

lemma pack_lis_even: "even (length ks) \<Longrightarrow> pack (lis (ks @ [k])) = E_pack ks @ [octet (k div 16), octet (16 * (k mod 16))]"
  by (simp add: lis_snoc pack_append E_pack_def)

lemma pack_lis_odd:
  assumes "even (length ks)"
  shows "pack (lis (ks @ [k, m])) =
    E_pack ks @ [octet (128 + k div 16), octet (16 * (k mod 16) + m div 256), octet (m mod 256)]"
  using assms lis_snoc [of "ks @ [k]" m] by (simp add: pack_append E_pack_def)

lemma trim_header_even:
  assumes "even (rlc_sdus_total st)" and "rlc_header st = A @ [b0, b1, b2] @ z" and "header_pos st = length A + 3"
  shows "trim_header st = Inr (st\<lparr>rlc_header := A @ [b0 AND 0x7f, b1 AND 0xf0, 0] @ z, header_pos := length A + 2\<rparr>)"
  using assms by (simp add: trim_header_def Let_def nth_append list_update_append)

lemma trim_header_odd:
  assumes "odd (rlc_sdus_total st)" and "1 < rlc_sdus_total st" and "rlc_header st = A @ [b0, b1, b2, b3] @ z"
    and "header_pos st = length A + 3"
  shows "trim_header st = Inr (st\<lparr>rlc_header := A @ [b0 AND 0xf7, b1, 0, 0] @ z, header_pos := length A + 2\<rparr>)"
proof -
  have h: "length A + 3 - 1 = length A + 2" "length A + 3 - 3 = length A" by simp_all
  show ?thesis using assms
    by (simp add: trim_header_def Let_def nth_append list_update_append h numeral_3_eq_3 numeral_2_eq_2)
qed

lemma trim_even:
  assumes "even (length ks)" and "length (E_pack (ks @ [k, l])) \<le> 98" and "k < 2048" and "l < 2048"
  shows "trim_header (put_hdr (ks @ [k, l]) st) = Inr (done_hdr (ks @ [k, l]) st)"
proof -
  let ?A = "[0, 0] @ E_pack ks" and ?z = "replicate (95 - length (E_pack ks)) (0 :: byte)"
  have len: "length (E_pack (ks @ [k, l])) = length (E_pack ks) + 3" using assms(1) by (simp add: even_length_E_pack)
  have h: "rlc_header (put_hdr (ks @ [k, l]) st) =
      ?A @ [octet (128 + k div 16), octet (16 * (k mod 16) + 8 + l div 256), octet (l mod 256)] @ ?z"
    using assms(1) len by (simp add: put_hdr_def hdr_bytes_def even_length_E_pack)
  have d: "k div 16 < 128" "l div 256 < 8" using assms by (auto simp: less_mult_imp_div_less)
  have "trimmed (ks @ [k, l]) = E_pack ks @ [octet (k div 16), octet (16 * (k mod 16))]"
    using pack_lis_even [OF assms(1), of k] by (simp add: trimmed_def butlast_append)
  moreover have "96 - length (E_pack ks) = Suc (95 - length (E_pack ks))" using assms(2) len by linarith
  moreover have "header_pos (put_hdr (ks @ [k, l]) st) = length ?A + 3" "even (rlc_sdus_total (put_hdr (ks @ [k, l]) st))"
    using assms(1) len by (simp_all add: hdr_end_def put_hdr_def)
  ultimately show ?thesis using trim_header_even [OF _ h] d by (simp add: put_hdr_def done_hdr_def octet_masks)
qed

lemma trim_odd:
  assumes "even (length ks)" and "length (E_pack (ks @ [k, m, l])) \<le> 98" and "m < 2048"
  shows "trim_header (put_hdr (ks @ [k, m, l]) st) = Inr (done_hdr (ks @ [k, m, l]) st)"
proof -
  let ?A = "[0, 0] @ E_pack ks @ [octet (128 + k div 16)]" and ?z = "replicate (93 - length (E_pack ks)) (0 :: byte)"
  have e: "E_pack (ks @ [k, m, l]) = E_pack ks @ E_pack [k, m] @ E_pack [l]"
    using assms(1) even_length_E_pack [of ks "[k, m, l]"] even_length_E_pack [of "[k, m]" "[l]"] by simp
  then have len: "length (E_pack (ks @ [k, m, l])) = length (E_pack ks) + 5" by simp
  have h: "rlc_header (put_hdr (ks @ [k, m, l]) st) =
      ?A @ [octet (16 * (k mod 16) + 8 + m div 256), octet (m mod 256), octet (128 + l div 16), octet (16 * (l mod 16))] @ ?z"
    using len by (simp add: put_hdr_def hdr_bytes_def e)
  have d: "m div 256 < 8" using assms by (auto simp: less_mult_imp_div_less)
  have "trimmed (ks @ [k, m, l]) = E_pack ks @ [octet (128 + k div 16), octet (16 * (k mod 16) + m div 256), octet (m mod 256)]"
    using pack_lis_odd [OF assms(1), of k m] by (simp add: trimmed_def butlast_append)
  moreover have "95 - length (E_pack ks) = Suc (Suc (93 - length (E_pack ks)))" using assms(2) len by linarith
  moreover have "header_pos (put_hdr (ks @ [k, m, l]) st) = length ?A + 3" "odd (rlc_sdus_total (put_hdr (ks @ [k, m, l]) st))"
      "1 < rlc_sdus_total (put_hdr (ks @ [k, m, l]) st)"
    using assms(1) len by (simp_all add: hdr_end_def put_hdr_def)
  ultimately show ?thesis using trim_header_odd [OF _ _ h] d by (simp add: put_hdr_def done_hdr_def octet_masks)
qed

lemma trim_header_put:
  assumes "ls \<noteq> []" and "length (E_pack ls) \<le> 98" and "list_all (\<lambda>l. l < 2048) ls"
  shows "trim_header (put_hdr ls st) = Inr (done_hdr ls st)"
proof (cases "length ls = 1")
  case True
  then obtain l where "ls = [l]" by (cases ls) auto
  moreover have "(98 :: nat) = Suc (Suc 96)" by simp
  then have "replicate 98 (0 :: byte) = 0 # 0 # replicate 96 0" by (simp only: replicate_Suc)
  ultimately show ?thesis
    by (simp add: trim_header_def put_hdr_def done_hdr_def hdr_bytes_def hdr_end_def trimmed_def Let_def numeral_3_eq_3 numeral_2_eq_2)
next
  case False
  then obtain k l ks where ls: "ls = ks @ [k, l]" using assms(1) by (cases ls rule: rev_cases; cases "butlast ls" rule: rev_cases) auto
  show ?thesis
  proof (cases "even (length ks)")
    case True
    then show ?thesis using assms ls trim_even [of ks k l st] by simp
  next
    case False
    then obtain js j where "ks = js @ [j]" by (cases ks rule: rev_cases) auto
    with False ls assms show ?thesis using trim_odd [of js j k l st] by simp
  qed
qed

section \<open>The whole rewriting\<close>

lemma put_bytes_append:
  "i + length a + length b \<le> length buf \<Longrightarrow> put_bytes (i + length a) b (put_bytes i a buf) = put_bytes i (a @ b) buf"
  by (cases a) (auto simp: put_bytes_def min_def algebra_simps)

lemma all_fields_simps [simp]: "all_fields [] = []" "all_fields (u # us) = um_fields u @ all_fields us"
  by (simp_all add: all_fields_def)

lemma concat_pdus_ok:
  assumes "list_all um_ok us" and "buf = pre @ concat (map um_encode us) @ post" and "position st = length pre"
    and "length (E_pack (ws @ map length (all_fields us))) \<le> 98"
    and "buffer_pos st + length (concat (all_fields us)) \<le> length (dlsch_buffer_new st)"
  shows "\<exists>st'. rfold (concat_pdu buf) (map (\<lambda>u. length (um_encode u)) us) (put_hdr ws st) =
      Inr (put_hdr (ws @ map length (all_fields us)) st') \<and>
    fi st' = (if us = [] then fi st else int (um_fi (last us))) \<and>
    dlsch_buffer_new st' = put_bytes (buffer_pos st) (concat (all_fields us)) (dlsch_buffer_new st) \<and>
    buffer_pos st' = buffer_pos st + length (concat (all_fields us))"
  using assms
proof (induction us arbitrary: pre ws st)
  case Nil
  then show ?case by (auto simp: put_bytes_def)
next
  case (Cons u us)
  let ?n = "length (um_encode u)"
  have e: "length (E_pack (ws @ map length (um_fields u))) \<le> 98" using Cons.prems(4) by (simp add: length_E_pack)
  have 1: "concat_pdu buf ?n (put_hdr ws st) = Inr (put_hdr (ws @ map length (um_fields u)) (add_pdu ?n u st))"
    using Cons.prems e by (intro concat_pdu_ok [where pre = pre and post = "concat (map um_encode us) @ post"]) simp_all
  have "length (dlsch_buffer_new (add_pdu ?n u st)) = length (dlsch_buffer_new st)"
    using Cons.prems(5) by (simp add: put_bytes_def)
  then have "\<exists>st'. rfold (concat_pdu buf) (map (\<lambda>u. length (um_encode u)) us) (put_hdr (ws @ map length (um_fields u)) (add_pdu ?n u st)) =
        Inr (put_hdr ((ws @ map length (um_fields u)) @ map length (all_fields us)) st') \<and>
      fi st' = (if us = [] then fi (add_pdu ?n u st) else int (um_fi (last us))) \<and>
      dlsch_buffer_new st' = put_bytes (buffer_pos (add_pdu ?n u st)) (concat (all_fields us)) (dlsch_buffer_new (add_pdu ?n u st)) \<and>
      buffer_pos st' = buffer_pos (add_pdu ?n u st) + length (concat (all_fields us))"
    using Cons.prems by (intro Cons.IH [of "pre @ um_encode u"]) simp_all
  then obtain st' where
      st': "rfold (concat_pdu buf) (map (\<lambda>u. length (um_encode u)) us) (put_hdr (ws @ map length (um_fields u)) (add_pdu ?n u st)) =
        Inr (put_hdr ((ws @ map length (um_fields u)) @ map length (all_fields us)) st')"
      "fi st' = (if us = [] then int (um_fi u) else int (um_fi (last us)))"
      "dlsch_buffer_new st' = put_bytes (buffer_pos st + length (concat (um_fields u))) (concat (all_fields us))
         (put_bytes (buffer_pos st) (concat (um_fields u)) (dlsch_buffer_new st))"
      "buffer_pos st' = buffer_pos st + length (concat (um_fields u)) + length (concat (all_fields us))"
    by auto
  then have "rfold (concat_pdu buf) (map (\<lambda>u. length (um_encode u)) (u # us)) (put_hdr ws st) =
      Inr (put_hdr (ws @ map length (all_fields (u # us))) st')" using 1 by simp
  moreover have "dlsch_buffer_new st' = put_bytes (buffer_pos st) (concat (all_fields (u # us))) (dlsch_buffer_new st)"
    using st'(3) Cons.prems(5) by (simp add: put_bytes_append)
  ultimately show ?case using st'(2,4) by (intro exI [of _ st']) simp
qed

text \<open>The first two bytes.\<close>

lemma set_header_bytes:
  assumes "f < 4" and "sn < 1024" and "rlc_header st = [0, 0] @ xs"
  shows "set_header (int sn) (int f) st = st\<lparr>rlc_header :=
    [octet (8 * f + (if 1 < rlc_sdus_total st then 4 else 0) + sn div 256), octet (sn mod 256)] @ xs\<rparr>"
proof -
  have l: "list_all (\<lambda>f. list_all (\<lambda>s. word_of_int (uint (octet (8 * f)) OR int s) = octet (8 * f + s) \<and>
      octet (8 * f + s) OR 4 = octet (8 * f + 4 + s)) [0..<4]) [0..<4]" by code_simp
  have s: "sn div 256 < 4" using assms(2) by (auto simp: less_mult_imp_div_less)
  have "word_of_int (push_bit 3 (int f)) = octet (8 * f)" by (simp add: octet_def push_bit_eq_mult mult.commute)
  moreover have "word_of_int (uint (octet (8 * f)) OR int (sn div 256)) = octet (8 * f + sn div 256)"
      "octet (8 * f + sn div 256) OR 4 = octet (8 * f + 4 + sn div 256)"
    using l assms(1) s by (auto simp: list_all_iff)
  ultimately show ?thesis using assms(3)
    by (simp add: set_header_def Let_def int_shifts int_and_masks word_of_int_octet flip: octet_def)
qed

text \<open>One PDU for several is never longer.\<close>

lemma merged_shorter:
  assumes "us \<noteq> []" and "list_all (\<lambda>u. um_fields u \<noteq> []) us"
  shows "2 + (length (all_fields us) - 1 + length (all_fields us) div 2) + length (concat (all_fields us)) \<le>
    length (concat (map um_encode us))"
  using assms
proof (induction us rule: list_nonempty_induct)
  case (single u)
  then show ?case by (simp add: length_um_encode)
next
  case (cons u us)
  have "um_fields u \<noteq> []" "all_fields us \<noteq> []" using cons by (auto simp: all_fields_def list_all_iff neq_Nil_conv)
  then have a: "1 \<le> length (um_fields u)" "1 \<le> length (all_fields us)" by (simp_all add: Suc_le_eq)
  have "(n + m) div 2 \<le> 1 + n div 2 + m div 2"
    for n m :: nat by presburger
  note halves = this [of "length (um_fields u)" "length (all_fields us)"]
  have "2 + (k + l - 1 + x) + (i + j) \<le> 2 + (k - 1 + y) + i + t"
    if "x \<le> 1 + y + z" "1 \<le> k" "1 \<le> l" "2 + (l - 1 + z) + j \<le> t" for x y z k l i j t :: nat
    using that by linarith
  note arith = this
  have "2 + (length (all_fields us) - 1 + length (all_fields us) div 2) + length (concat (all_fields us)) \<le>
      length (concat (map um_encode us))" using cons by simp
  from arith [OF halves a this, of "length (concat (um_fields u))"] cons(3) show ?case
    by (simp add: length_um_encode del: One_nat_def)
qed

lemma copy_srbs_ok:
  assumes "list_all (\<lambda>(c, d). c < DTCH cf) srbs" and "buf = pre @ concat (map snd srbs) @ post"
    and "length (pre @ concat (map snd srbs)) \<le> length z"
  shows "rfold (copy_srb cf buf) (map (\<lambda>(c, d). (c, length d)) srbs) (length pre, n, put_bytes 0 pre z) =
    Inr (length (pre @ concat (map snd srbs)), n + length srbs, put_bytes 0 (pre @ concat (map snd srbs)) z)"
  using assms
proof (induction srbs arbitrary: pre n)
  case Nil
  then show ?case by simp
next
  case (Cons x srbs)
  obtain c d where x: "x = (c, d)" by (cases x)
  have "copy_to (length pre) buf (length pre) (int (length d)) (put_bytes 0 pre z) = Inr (put_bytes (length pre) d (put_bytes 0 pre z))"
    unfolding Cons.prems(2) x using Cons.prems(3) x by (simp add: copy_to_append put_bytes_def)
  also have "put_bytes (length pre) d (put_bytes 0 pre z) = put_bytes 0 (pre @ d) z"
    using put_bytes_append [of 0 pre d z] Cons.prems(3) x by simp
  finally have "copy_srb cf buf (c, length d) (length pre, n, put_bytes 0 pre z) = Inr (length (pre @ d), n + 1, put_bytes 0 (pre @ d) z)"
    using Cons.prems(1) x by (simp add: copy_srb_def)
  moreover have "rfold (copy_srb cf buf) (map (\<lambda>(c, d). (c, length d)) srbs) (length (pre @ d), n + 1, put_bytes 0 (pre @ d) z) =
      Inr (length ((pre @ d) @ concat (map snd srbs)), n + 1 + length srbs, put_bytes 0 ((pre @ d) @ concat (map snd srbs)) z)"
    using Cons.prems x by (intro Cons.IH) simp_all
  ultimately show ?case by (simp add: x)
qed

lemma copy_srb_skips: "list_all (\<lambda>x. DTCH cf \<le> fst x) xs \<Longrightarrow> rfold (copy_srb cf buf) xs acc = Inr acc"
  by (induction xs) (auto simp: copy_srb_def split: prod.splits)

lemma or_two: "f < 4 \<Longrightarrow> int f OR 2 = int (if f < 2 then f + 2 else f)"
proof -
  have "list_all (\<lambda>f. int f OR 2 = int (if f < 2 then f + 2 else f)) [0..<4]" by code_simp
  then show "f < 4 \<Longrightarrow> ?thesis" by (auto simp: list_all_iff)
qed

text \<open>Moving the fields up and putting the header in front of them.\<close>

lemma insert_header:
  assumes "length s + length h + length f \<le> n" and "memcpy_moves cf"
  shows "rbind (copy_within cf (length s + length h) (length s) (int (length f)) (put_bytes 0 (s @ f) (replicate n 0))) (\<lambda>nb.
      rbind (copy_to (length s) (h @ x) 0 (int (length h)) nb) (\<lambda>nb'.
      copy_to 0 nb' 0 (int (length s + length f + length h)) (replicate n 0))) =
    Inr (s @ h @ f @ replicate (n - length s - length h - length f) 0)"
proof -
  have r: "replicate (n - length s - length f) (0 :: byte) =
      replicate (length h) 0 @ replicate (n - length s - length h - length f) 0"
    using assms(1) by (simp flip: replicate_add)
  have 0: "put_bytes 0 (s @ f) (replicate n 0) = s @ f @ replicate (n - length s - length f) 0"
    by (simp add: put_bytes_def)
  have 1: "copy_within cf (length s + length h) (length s) (int (length f)) (s @ f @ replicate (n - length s - length f) 0) =
      Inr (put_bytes (length s + length h) f (s @ f @ replicate (n - length s - length f) 0))"
    using assms copy_to_append [of "length s" s "int (length f)" f] by (simp add: copy_within_def)
  have 2: "put_bytes (length s) h (put_bytes (length s + length h) f (s @ f @ replicate (n - length s - length f) 0)) =
      s @ h @ f @ replicate (n - length s - length h - length f) 0"
    using assms(1) by (simp add: put_bytes_def min_def add_ac)
  have 3: "copy_to (length s) (h @ x) 0 (int (length h)) b = Inr (put_bytes (length s) h b)"
    if "length b = n" for b using assms(1) that copy_to_append [of 0 "[]" "int (length h)" h] by simp
  have 4: "copy_to 0 (s @ h @ f @ z) 0 (int (length s + length f + length h)) (replicate n 0) = Inr (put_bytes 0 (s @ h @ f) (replicate n 0))"
    for z using assms(1) copy_to_append [of 0 "[]" _ "s @ h @ f" 0 "replicate n 0" z] by (simp add: add_ac)
  have 5: "copy_to 0 (s @ h @ f @ z) 0 (int (length s) + int (length f) + int (length h)) (replicate n 0) =
      Inr (s @ h @ f @ replicate (n - length s - length h - length f) 0)" for z
    using 4 [of z] by (simp add: put_bytes_def)
  have len: "length (put_bytes (length s + length h) f (s @ f @ replicate (n - length s - length f) 0)) = n"
    using assms(1) by (simp add: put_bytes_def)
  show ?thesis unfolding 0 1 rbind_simps 3 [OF len] 2 using 5 by simp
qed

lemma finish_ok:
  assumes "ds \<noteq> []" and "length ds \<le> 65" and "list_all (\<lambda>d. length d < 2048) ds"
    and "fi st = int f" and "f < 4" and "dlsch_buffer_new st = put_bytes 0 (s @ concat ds) (replicate n 0)"
    and "buffer_pos st = length s + length (concat ds)" and "memcpy_moves cf" and "num_srb < NB_RB_MAX cf"
    and "length (dlsch_buffer m) = n" and "0 \<le> stats_sn m" and "(stats_sn m + 1) mod 2 ^ sn_bits cf < 1024"
    and u: "u = \<lparr>um_fi = merge_fi (fi_ind m) f, um_sn = nat ((stats_sn m + 1) mod 2 ^ sn_bits cf), um_fields = ds\<rparr>"
    and "length s + length (um_encode u) \<le> n"
  shows "\<exists>m'. finish_concat cf tbs hl ta cpy (length s) num_srb (put_hdr (map length ds) st) m = Inr m' \<and>
    dlsch_buffer m' = s @ um_encode u @ replicate (n - length s - length (um_encode u)) 0 \<and> num_sdus m' = num_srb + 1 \<and>
    sdu_lengths m' = take num_srb (sdu_lengths m) @ (length s + length (um_encode u)) mod 2 ^ 16 # replicate (NB_RB_MAX cf - num_srb - 1) 0 \<and>
    sdu_lcids m' = take num_srb (sdu_lcids m) @ DTCH cf # replicate (NB_RB_MAX cf - num_srb - 1) 0 \<and>
    sdu_length_total m' = cpy + int (length s + length (um_encode u)) \<and>
    stats_sn m' = (stats_sn m + 1) mod 2 ^ sn_bits cf \<and>
    fi_ind m' = (if odd (um_fi u) then sdu_lcids m ! (num_sdus m - 1) else 0) \<and>
    lcids_overrun m' = lcids_overrun m + (NB_RB_MAX cf - num_srb)"
proof -
  let ?f = "merge_fi (fi_ind m) f" and ?ls = "map length ds"
  have "0 \<le> (stats_sn m + 1) mod 2 ^ sn_bits cf" by simp
  then obtain sn where sn: "(stats_sn m + 1) mod 2 ^ sn_bits cf = int sn" using zero_le_imp_eq_int by blast
  then have sn2: "sn < 1024" using assms(12) by simp
  define h where "h = [octet (8 * ?f + (if 1 < length ds then 4 else 0) + sn div 256), octet (sn mod 256)] @ trimmed ?ls"
  have enc: "um_encode u = h @ concat ds" by (simp add: um_encode_def u sn h_def trimmed_def map_butlast)
  have f4: "?f < 4" using assms(5) by (simp add: merge_fi_def)
  have fd: "(if fi_ind m \<noteq> 0 then fi (done_hdr ?ls st) OR 2 else fi (done_hdr ?ls st)) = int ?f"
    using or_two [OF assms(5)] assms(4) by (simp add: merge_fi_def done_hdr_def)
  have trim: "trim_header (put_hdr ?ls st) = Inr (done_hdr ?ls st)"
    using assms(1-3) by (intro trim_header_put) (simp_all add: length_E_pack list_all_length)
  define st' where "st' = set_header (int sn) (int ?f) (done_hdr ?ls st)"
  have st': "rlc_header st' = h @ replicate (98 - length (trimmed ?ls)) 0" "header_pos st' = length h" "buffer_pos st' = buffer_pos st"
      "dlsch_buffer_new st' = dlsch_buffer_new st"
    unfolding st'_def by (subst set_header_bytes [OF f4 sn2]; simp add: done_hdr_def h_def)+
  have "?f \<in> {0, 1, 2, 3}" using f4 by auto
  then have odd: "int ?f = 1 \<or> int ?f = 3 \<longleftrightarrow> odd ?f" by auto
  have ins: "rbind (copy_within cf (length s + length h) (length s) (int (length (concat ds))) (put_bytes 0 (s @ concat ds) (replicate n 0))) (\<lambda>nb.
      rbind (copy_to (length s) (h @ replicate (98 - length (trimmed ?ls)) 0) 0 (int (length h)) nb) (\<lambda>nb'.
      copy_to 0 nb' 0 (int (length s + length (concat ds) + length h)) (replicate n 0))) =
    Inr (s @ h @ concat ds @ replicate (n - length s - length h - length (concat ds)) 0)"
    using assms(8,14) enc by (intro insert_header) simp_all
  have "finish_concat cf tbs hl ta cpy (length s) num_srb (put_hdr ?ls st) m =
      rbind (rbind (copy_within cf (length s + length h) (length s) (int (length (concat ds))) (put_bytes 0 (s @ concat ds) (replicate n 0))) (\<lambda>nb.
        rbind (copy_to (length s) (h @ replicate (98 - length (trimmed ?ls)) 0) 0 (int (length h)) nb) (\<lambda>nb'.
        copy_to 0 nb' 0 (int (length s + length (concat ds) + length h)) (replicate n 0)))) (\<lambda>buf'.
          let tot = cpy + int (length s + length (concat ds) + length h) in
          Inr (m\<lparr>dlsch_buffer := buf', num_sdus := num_srb + 1,
            sdu_lengths := take num_srb (sdu_lengths m) @ (length s + length (concat ds) + length h) mod 2 ^ 16 # replicate (NB_RB_MAX cf - num_srb - 1) 0,
            sdu_lcids := take num_srb (sdu_lcids m) @ DTCH cf # replicate (NB_RB_MAX cf - num_srb - 1) 0,
            sdu_length_total := tot, padding := fst (calc_padding tbs hl tot ta), post_padding := snd (calc_padding tbs hl tot ta),
            stats_sn := int sn, fi_ind := (if odd ?f then sdu_lcids m ! (num_sdus m - 1) else 0),
            lcids_overrun := lcids_overrun m + (NB_RB_MAX cf - num_srb)\<rparr>))"
    unfolding finish_concat_def trim rbind_simps rbind_assoc Let_def sn fd st'_def [symmetric] st' odd assms(6,7,10)
    using assms(9) by simp
  moreover have "um_fi u = ?f" by (simp add: u)
  ultimately show ?thesis unfolding ins enc sn by (simp add: Let_def add_ac)
qed

lemma um_encode_merged_shorter:
  assumes "us \<noteq> []" and "list_all um_ok us"
  shows "length (um_encode (merged_pdu cf m us)) \<le> length (concat (map um_encode us))"
proof -
  have ok: "list_all (\<lambda>u. um_fields u \<noteq> []) us" using assms(2) by (auto simp: list_all_iff um_ok_def)
  then have "all_fields us \<noteq> []" using assms(1) by (auto simp: all_fields_def list_all_iff neq_Nil_conv)
  then show ?thesis using merged_shorter [OF assms(1) ok] length_um_encode [of "merged_pdu cf m us"]
    by (simp add: merged_pdu_def)
qed

lemma zip_loaded:
  "length cs = length us \<Longrightarrow> zip (map fst srbs @ cs) (map (\<lambda>(c, d). length d) srbs @ map f us) =
    map (\<lambda>(c, d). (c, length d)) srbs @ zip cs (map f us)"
  by (induction srbs) auto

lemma loadedD:
  assumes "loaded cf srbs cs us m"
  shows "us \<noteq> []" "list_all um_ok us" "length (all_fields us) \<le> 65" "length (dlsch_buffer m) = MAX_DLSCH_PAYLOAD_BYTES cf"
    "num_sdus m = length srbs + length us" "num_sdus m \<le> NB_RB_MAX cf" "length cs = length us"
    "take (num_sdus m) (sdu_lcids m) = map fst srbs @ cs"
    "take (num_sdus m) (sdu_lengths m) = map (\<lambda>(c, d). length d) srbs @ map (\<lambda>u. length (um_encode u)) us"
  using assms unfolding loaded_def by blast+

lemma loaded_buffer:
  assumes "loaded cf srbs cs us m"
  obtains post where "dlsch_buffer m = concat (map snd srbs) @ concat (map um_encode us) @ post"
proof -
  let ?x = "concat (map snd srbs @ map um_encode us)"
  have "dlsch_buffer m = ?x @ drop (length ?x) (dlsch_buffer m)"
    using assms append_take_drop_id [of "length ?x" "dlsch_buffer m"] by (simp add: loaded_def)
  then show thesis by (intro that [of "drop (length ?x) (dlsch_buffer m)"]) simp
qed

lemma loaded_size:
  assumes "loaded cf srbs cs us m"
  shows "length (concat (map snd srbs)) + length (concat (map um_encode us)) \<le> MAX_DLSCH_PAYLOAD_BYTES cf"
proof -
  obtain post where "dlsch_buffer m = concat (map snd srbs) @ concat (map um_encode us) @ post" using loaded_buffer [OF assms] .
  moreover have "length (dlsch_buffer m) = MAX_DLSCH_PAYLOAD_BYTES cf" using assms by (simp add: loaded_def)
  ultimately show ?thesis by simp
qed

lemma load_srbs:
  assumes "loaded cf srbs cs us m"
  shows "rfold (copy_srb cf (dlsch_buffer m)) (zip (take (num_sdus m) (sdu_lcids m)) (take (num_sdus m) (sdu_lengths m)))
      (0, 0, replicate (MAX_DLSCH_PAYLOAD_BYTES cf) 0) =
    Inr (length (concat (map snd srbs)), length srbs, put_bytes 0 (concat (map snd srbs)) (replicate (MAX_DLSCH_PAYLOAD_BYTES cf) 0))"
proof -
  let ?z = "replicate (MAX_DLSCH_PAYLOAD_BYTES cf) (0 :: byte)" and ?ls = "map (\<lambda>u. length (um_encode u)) us"
  obtain post where buf: "dlsch_buffer m = concat (map snd srbs) @ concat (map um_encode us) @ post" using loaded_buffer [OF assms] .
  have c: "rfold (copy_srb cf (dlsch_buffer m)) (map (\<lambda>(c, d). (c, length d)) srbs) (length ([] :: byte list), 0, put_bytes 0 [] ?z) =
      Inr (length ([] @ concat (map snd srbs)), 0 + length srbs, put_bytes 0 ([] @ concat (map snd srbs)) ?z)"
    using assms loaded_size [OF assms] buf
    by (intro copy_srbs_ok [where post = "concat (map um_encode us) @ post"]) (simp_all add: loaded_def)
  have "list_all (\<lambda>x. DTCH cf \<le> fst x) (zip cs ?ls)"
    using assms by (auto simp: loaded_def list_all_iff dest: set_zip_leftD)
  then have "rfold (copy_srb cf (dlsch_buffer m)) (zip cs ?ls) acc = Inr acc" for acc by (rule copy_srb_skips)
  moreover have "zip (take (num_sdus m) (sdu_lcids m)) (take (num_sdus m) (sdu_lengths m)) =
      map (\<lambda>(c, d). (c, length d)) srbs @ zip cs ?ls"
    by (simp only: loadedD(8,9) [OF assms] zip_loaded [OF loadedD(7) [OF assms]])
  ultimately show ?thesis using c by (simp add: rfold_append put_bytes_def)
qed

text \<open>Up to the end of the loop over the PDUs.\<close>

lemma rlc_concat_loop:
  assumes "loaded cf srbs cs us m" and s: "s = concat (map snd srbs)"
  shows "\<exists>st. rlc_concat cf tbs hl ta cpy m = finish_concat cf tbs hl ta cpy (length s) (length srbs) (put_hdr (map length (all_fields us)) st) m \<and>
    fi st = int (um_fi (last us)) \<and>
    dlsch_buffer_new st = put_bytes 0 (s @ concat (all_fields us)) (replicate (MAX_DLSCH_PAYLOAD_BYTES cf) 0) \<and>
    buffer_pos st = length s + length (concat (all_fields us))"
proof -
  let ?N = "MAX_DLSCH_PAYLOAD_BYTES cf" and ?ls = "map length (all_fields us)" and ?u = "merged_pdu cf m us"
  note l = loadedD [OF assms(1)]
  have pack98: "length (all_fields us) + Suc (length (all_fields us)) div 2 \<le> 98" using l(3) by presburger
  obtain post where buf: "dlsch_buffer m = s @ concat (map um_encode us) @ post" using loaded_buffer [OF assms(1)] s by metis
  have "length (concat (all_fields us)) \<le> length (um_encode ?u)" by (simp add: um_encode_def merged_pdu_def)
  then have fits: "length s + length (concat (all_fields us)) \<le> ?N"
    using loaded_size [OF assms(1)] um_encode_merged_shorter [OF l(1,2), of cf m] s by simp
  define st where "st = \<lparr>position = length s, header_pos = 2, buffer_pos = length s, rlc_header = replicate RLC_HEADER_SIZE 0,
      dlsch_buffer_new = put_bytes 0 s (replicate ?N 0), rlc_sdus_total = 0, fi = 0\<rparr>"
  have "(100 :: nat) = Suc (Suc 98)" by simp
  then have "replicate RLC_HEADER_SIZE 0 = hdr_bytes []" unfolding RLC_HEADER_SIZE_def by (simp only: replicate_Suc) (simp add: hdr_bytes_def)
  then have st: "put_hdr [] st = st" by (simp add: put_hdr_def st_def hdr_end_def)
  have "\<exists>st'. rfold (concat_pdu (dlsch_buffer m)) (map (\<lambda>u. length (um_encode u)) us) (put_hdr [] st) = Inr (put_hdr ([] @ ?ls) st') \<and>
      fi st' = (if us = [] then fi st else int (um_fi (last us))) \<and>
      dlsch_buffer_new st' = put_bytes (buffer_pos st) (concat (all_fields us)) (dlsch_buffer_new st) \<and>
      buffer_pos st' = buffer_pos st + length (concat (all_fields us))"
  proof (rule concat_pdus_ok [OF _ buf])
    show "buffer_pos st + length (concat (all_fields us)) \<le> length (dlsch_buffer_new st)"
      using fits by (simp add: st_def put_bytes_def)
  qed (use l(2) pack98 in \<open>simp_all add: st_def length_E_pack\<close>)
  then obtain st' where st': "rfold (concat_pdu (dlsch_buffer m)) (map (\<lambda>u. length (um_encode u)) us) st = Inr (put_hdr ?ls st')"
      "fi st' = int (um_fi (last us))" "dlsch_buffer_new st' = put_bytes 0 (s @ concat (all_fields us)) (replicate ?N 0)"
      "buffer_pos st' = length s + length (concat (all_fields us))"
    using l(1) fits put_bytes_append [of 0 s "concat (all_fields us)" "replicate ?N 0"] st by (auto simp: st_def)
  have "rlc_concat cf tbs hl ta cpy m = finish_concat cf tbs hl ta cpy (length s) (length srbs) (put_hdr ?ls st') m"
    using l(1,5,9) st'(1) s unfolding rlc_concat_def load_srbs [OF assms(1)] by (simp add: st_def)
  with st'(2-4) show ?thesis by blast
qed

lemma loaded_fields:
  assumes "loaded cf srbs cs us m"
  shows "list_all (\<lambda>d. length d < 2048) (all_fields us)" and "all_fields us \<noteq> []" and "um_fi (last us) < 4"
    and "length srbs < NB_RB_MAX cf"
proof -
  note l = loadedD [OF assms]
  have ok: "um_ok (last us)" using l(1,2) by (auto simp: list_all_iff)
  then show "um_fi (last us) < 4" by (simp add: um_ok_def)
  show "list_all (\<lambda>d. length d < 2048) (all_fields us)" "all_fields us \<noteq> []"
    using l(1,2) ok by (auto simp: list_all_iff all_fields_def um_ok_def)
  show "length srbs < NB_RB_MAX cf" using l(1,5,6) by (cases us) auto
qed

lemma rlc_concat_ok:
  assumes "loaded cf srbs cs us m" and "memcpy_moves cf" and "0 \<le> stats_sn m" and "(stats_sn m + 1) mod 2 ^ sn_bits cf < 1024"
    and s: "s = concat (map snd srbs)" and u: "u = merged_pdu cf m us" and n: "n = length srbs"
  shows "\<exists>m'. rlc_concat cf tbs hl ta cpy m = Inr m' \<and>
    dlsch_buffer m' = s @ um_encode u @ replicate (MAX_DLSCH_PAYLOAD_BYTES cf - length s - length (um_encode u)) 0 \<and>
    num_sdus m' = n + 1 \<and>
    sdu_lengths m' = take n (sdu_lengths m) @ (length s + length (um_encode u)) mod 2 ^ 16 # replicate (NB_RB_MAX cf - n - 1) 0 \<and>
    sdu_lcids m' = take n (sdu_lcids m) @ DTCH cf # replicate (NB_RB_MAX cf - n - 1) 0 \<and>
    sdu_length_total m' = cpy + int (length s + length (um_encode u)) \<and>
    stats_sn m' = (stats_sn m + 1) mod 2 ^ sn_bits cf \<and>
    fi_ind m' = (if odd (um_fi u) then sdu_lcids m ! (num_sdus m - 1) else 0) \<and>
    lcids_overrun m' = lcids_overrun m + (NB_RB_MAX cf - n)"
proof -
  let ?N = "MAX_DLSCH_PAYLOAD_BYTES cf"
  note l = loadedD [OF assms(1)] and f = loaded_fields [OF assms(1)]
  have size: "length s + length (um_encode u) \<le> ?N"
    using loaded_size [OF assms(1)] um_encode_merged_shorter [OF l(1,2), of cf m] s u by simp
  obtain st where "rlc_concat cf tbs hl ta cpy m = finish_concat cf tbs hl ta cpy (length s) n (put_hdr (map length (all_fields us)) st) m"
      "fi st = int (um_fi (last us))" "dlsch_buffer_new st = put_bytes 0 (s @ concat (all_fields us)) (replicate ?N 0)"
      "buffer_pos st = length s + length (concat (all_fields us))"
    using rlc_concat_loop [OF assms(1) s, of tbs hl ta cpy] n by blast
  then show ?thesis
    using finish_ok [of "all_fields us" st "um_fi (last us)" s ?N cf n m u tbs hl ta cpy] l(3,4) f assms(2-4) size n
    by (simp add: u merged_pdu_def)
qed

lemma rlc_concat_padding:
  assumes "loaded cf srbs cs us m" and "rlc_concat cf tbs hl ta cpy m = Inr m'"
  shows "(padding m', post_padding m') = calc_padding tbs hl (sdu_length_total m') ta"
proof -
  obtain st where "finish_concat cf tbs hl ta cpy (length (concat (map snd srbs))) (length srbs) st m = Inr m'"
    using rlc_concat_loop [OF assms(1) refl, of tbs hl ta cpy] assms(2) by auto
  then show ?thesis unfolding finish_concat_def Let_def
    by (elim rbind_InrE, cases "length srbs < NB_RB_MAX cf", simp_all only: if_True if_False sum.inject sum.simps, hypsubst, simp)
qed

lemma loaded_update [simp]:
  "loaded cf srbs cs us (m\<lparr>padding := p, post_padding := q\<rparr>) = loaded cf srbs cs us m"
  "merged_pdu cf (m\<lparr>padding := p, post_padding := q\<rparr>) us = merged_pdu cf m us"
  by (simp_all add: loaded_def merged_pdu_def)

lemma merged_decode:
  assumes "loaded cf srbs cs us m" and "0 \<le> stats_sn m" and "(stats_sn m + 1) mod 2 ^ sn_bits cf < 1024"
  shows "um_decode (um_encode (merged_pdu cf m us)) = Some (merged_pdu cf m us)"
proof (rule um_decode_encode)
  note f = loaded_fields [OF assms(1)]
  show "um_fi (merged_pdu cf m us) < 4" using f(3) by (simp add: merged_pdu_def merge_fi_def)
  show "um_sn (merged_pdu cf m us) < 1024" using assms(3) by (simp add: merged_pdu_def)
  show "list_all (\<lambda>d. length d < 2048) (butlast (um_fields (merged_pdu cf m us)))"
    using f(1) by (auto simp: merged_pdu_def list_all_iff dest: in_set_butlastD)
qed (use loaded_fields [OF assms(1)] in \<open>simp add: merged_pdu_def\<close>)

lemma demo_loaded: "loaded demo_conf [] [4, 3] demo_pdus (demo_sdus [])"
    "loaded demo_conf [(1, [0xaa, 0xbb])] [4, 3] demo_pdus (demo_sdus [(1, [0xaa, 0xbb])])"
  by code_simp+

section \<open>Properties\<close>

text \<open>C2. The PDUs of several bearers become one PDU of the default bearer: behind the SDUs of the signalling
  bearers, which stay as they are, the buffer holds one PDU that a receiver decodes to all data fields of
  all PDUs in order, with the next sequence number of the UE and the FI of the last PDU. It is not longer
  than the PDUs it replaces, and the rest of the buffer is zero.\<close>

theorem rlc_concat_merges:
  assumes "loaded cf srbs cs us m" and "memcpy_moves cf" and "0 \<le> stats_sn m" and "(stats_sn m + 1) mod 2 ^ sn_bits cf < 1024"
  shows "\<exists>m' pdu z. rlc_concat cf tbs hl ta cpy m = Inr m' \<and>
    dlsch_buffer m' = concat (map snd srbs) @ pdu @ replicate z 0 \<and> length (dlsch_buffer m') = length (dlsch_buffer m) \<and>
    um_decode pdu = Some \<lparr>um_fi = merge_fi (fi_ind m) (um_fi (last us)),
      um_sn = nat ((stats_sn m + 1) mod 2 ^ sn_bits cf), um_fields = all_fields us\<rparr> \<and>
    length pdu \<le> length (concat (map um_encode us)) \<and>
    num_sdus m' = length srbs + 1 \<and> sdu_lcids m' ! length srbs = DTCH cf"
proof -
  let ?u = "merged_pdu cf m us" and ?s = "concat (map snd srbs)"
  note l = loadedD [OF assms(1)]
  note shorter = um_encode_merged_shorter [OF l(1,2), of cf m]
  have "length (take (length srbs) (sdu_lcids m)) = length srbs"
    using arg_cong [OF l(8), of length] l(5,7) by (simp add: min_def split: if_splits)
  then show ?thesis
    using rlc_concat_ok [OF assms refl refl refl, of tbs hl ta cpy] merged_decode [OF assms(1,3,4)] shorter l(4) loaded_size [OF assms(1)]
    by (fastforce simp: merged_pdu_def nth_append)
qed

lemma rlc_concat_merges_witness:
  "\<exists>m' pdu z. rlc_concat demo_conf 100 0 0 0 (demo_sdus []) = Inr m' \<and> dlsch_buffer m' = pdu @ replicate z 0 \<and>
    um_decode pdu = Some \<lparr>um_fi = 1, um_sn = 42, um_fields = [[1, 2, 3], [4, 5], [6], [7, 8, 9]]\<rparr>"
proof -
  have "memcpy_moves demo_conf" "sn_bits demo_conf = 16" "stats_sn (demo_sdus []) = 41" "fi_ind (demo_sdus []) = 0"
    "um_fi (last demo_pdus) = 1" "all_fields demo_pdus = [[1, 2, 3], [4, 5], [6], [7, 8, 9]]"
    by (simp_all add: demo_conf_def demo_sdus_def demo_pdus_def all_fields_def)
  then show ?thesis using rlc_concat_merges [OF demo_loaded(1), of 100 0 0 0] by (auto simp: merge_fi_def)
qed

text \<open>Zero bytes behind a PDU belong to its last field.\<close>

lemma um_decode_padded:
  assumes "um_fi u < 4" and "um_sn u < 1024" and "um_fields u = ds @ [d]" and "list_all (\<lambda>d. length d < 2048) ds"
  shows "um_decode (um_encode u @ z) = Some (u\<lparr>um_fields := ds @ [d @ z]\<rparr>)"
proof -
  have "um_encode u @ z = um_encode (u\<lparr>um_fields := ds @ [d @ z]\<rparr>)" using assms(3) by (simp add: um_encode_def)
  then show ?thesis using assms um_decode_encode [of "u\<lparr>um_fields := ds @ [d @ z]\<rparr>"] by simp
qed

text \<open>The length that is announced for the merged PDU also counts the SDUs of the signalling bearers. The
  UE cuts that many bytes out of the MAC PDU: if there is signalling, it finds as many zero bytes at the end
  of the last data field. Without signalling the SDU is exactly the merged PDU.\<close>

theorem srb_zero_bytes:
  assumes "loaded cf srbs cs us m" and "memcpy_moves cf" and "0 \<le> stats_sn m" and "(stats_sn m + 1) mod 2 ^ sn_bits cf < 1024"
    and "2 * length (concat (map snd srbs)) + length (concat (map um_encode us)) \<le> MAX_DLSCH_PAYLOAD_BYTES cf"
    and "length (concat (map snd srbs)) + length (concat (map um_encode us)) < 2 ^ 16"
  shows "\<exists>m'. rlc_concat cf tbs hl ta cpy m = Inr m' \<and>
    um_decode (get_bytes (length (concat (map snd srbs))) (sdu_lengths m' ! length srbs) (dlsch_buffer m')) =
    Some \<lparr>um_fi = merge_fi (fi_ind m) (um_fi (last us)), um_sn = nat ((stats_sn m + 1) mod 2 ^ sn_bits cf),
      um_fields = butlast (all_fields us) @ [last (all_fields us) @ replicate (length (concat (map snd srbs))) 0]\<rparr>"
proof -
  let ?u = "merged_pdu cf m us" and ?s = "concat (map snd srbs)" and ?N = "MAX_DLSCH_PAYLOAD_BYTES cf"
  note l = loadedD [OF assms(1)] and f = loaded_fields [OF assms(1)]
  have size: "length (um_encode ?u) \<le> length (concat (map um_encode us))" by (rule um_encode_merged_shorter [OF l(1,2)])
  have "length (take (length srbs) (sdu_lengths m)) = length srbs"
    using arg_cong [OF l(9), of length] l(5,7) by (simp add: min_def split: if_splits)
  then obtain m' where m': "rlc_concat cf tbs hl ta cpy m = Inr m'"
      "dlsch_buffer m' = ?s @ um_encode ?u @ replicate (?N - length ?s - length (um_encode ?u)) 0"
      "sdu_lengths m' ! length srbs = length ?s + length (um_encode ?u)"
    using rlc_concat_ok [OF assms(1-4) refl refl refl, of tbs hl ta cpy] size assms(6) by (auto simp: nth_append)
  have "get_bytes (length ?s) (sdu_lengths m' ! length srbs) (dlsch_buffer m') = um_encode ?u @ replicate (length ?s) 0"
    using m'(2,3) size assms(5) by (simp add: get_bytes_def)
  moreover have "um_decode (um_encode ?u @ replicate (length ?s) 0) =
      Some (?u\<lparr>um_fields := butlast (all_fields us) @ [last (all_fields us) @ replicate (length ?s) 0]\<rparr>)"
  proof (rule um_decode_padded)
    show "um_fields ?u = butlast (all_fields us) @ [last (all_fields us)]" using f(2) by (simp add: merged_pdu_def)
  qed (use f assms(4) in \<open>auto simp: merged_pdu_def merge_fi_def list_all_iff dest: in_set_butlastD\<close>)
  ultimately show ?thesis using m'(1) by (auto simp: merged_pdu_def)
qed

lemma srb_zero_bytes_witness:
  "\<exists>m'. rlc_concat demo_conf 100 0 0 0 (demo_sdus [(1, [0xaa, 0xbb])]) = Inr m' \<and>
    um_decode (get_bytes (Suc 1) (sdu_lengths m' ! 1) (dlsch_buffer m')) =
    Some \<lparr>um_fi = 1, um_sn = 42, um_fields = [[1, 2, 3], [4, 5], [6], [7, 8, 9, 0, 0]]\<rparr>"
proof -
  let ?s = "[(1, [0xaa, 0xbb])] :: (nat \<times> byte list) list"
  have "memcpy_moves demo_conf" "sn_bits demo_conf = 16" "stats_sn (demo_sdus ?s) = 41" "fi_ind (demo_sdus ?s) = 0"
    "um_fi (last demo_pdus) = 1" "all_fields demo_pdus = [[1, 2, 3], [4, 5], [6], [7, 8, 9]]"
    "length (concat (map um_encode demo_pdus)) = 16" "MAX_DLSCH_PAYLOAD_BYTES demo_conf = 64"
    by (simp_all add: demo_conf_def demo_sdus_def demo_pdus_def all_fields_def um_encode_def)
  then show ?thesis using srb_zero_bytes [OF demo_loaded(2), of 100 0 0 0]
    by (auto simp: merge_fi_def)
qed

text \<open>Moving the data fields behind the new header copies between overlapping areas as soon as they are
  longer than the header. With a \<^verbatim>\<open>memcpy\<close> that does not allow this, no PDU is sent.\<close>

theorem overlapping_memcpy:
  assumes "loaded cf srbs cs us m" and "\<not> memcpy_moves cf"
    and "2 + length (pack (lis (map length (butlast (all_fields us))))) < length (concat (all_fields us))"
  shows "rlc_concat cf tbs hl ta cpy m = Inl Overlapping_Copy"
proof -
  let ?s = "concat (map snd srbs)" and ?ls = "map length (all_fields us)"
  note l = loadedD [OF assms(1)] and f = loaded_fields [OF assms(1)]
  obtain st where st: "rlc_concat cf tbs hl ta cpy m = finish_concat cf tbs hl ta cpy (length ?s) (length srbs) (put_hdr ?ls st) m"
      "buffer_pos st = length ?s + length (concat (all_fields us))"
    using rlc_concat_loop [OF assms(1) refl, of tbs hl ta cpy] by blast
  have pack98: "length (all_fields us) + Suc (length (all_fields us)) div 2 \<le> 98" using l(3) by presburger
  have "trim_header (put_hdr ?ls st) = Inr (done_hdr ?ls st)"
    using f(1,2) pack98 by (intro trim_header_put) (simp_all add: length_E_pack list_all_length)
  moreover have "header_pos (done_hdr ?ls st) < length (concat (all_fields us))" "buffer_pos (done_hdr ?ls st) = buffer_pos st"
    using assms(3) by (simp_all add: done_hdr_def trimmed_def map_butlast)
  ultimately show ?thesis using st assms(2)
    by (simp add: finish_concat_def Let_def copy_within_def set_header_def)
qed

lemma overlapping_memcpy_witness:
  "rlc_concat (demo_conf\<lparr>memcpy_moves := False\<rparr>) 100 0 0 0 (demo_sdus []) = Inl Overlapping_Copy"
proof (rule overlapping_memcpy)
  show "loaded (demo_conf\<lparr>memcpy_moves := False\<rparr>) [] [4, 3] demo_pdus (demo_sdus [])" by code_simp
  show "2 + length (pack (lis (map length (butlast (all_fields demo_pdus))))) < length (concat (all_fields demo_pdus))" by code_simp
qed simp

text \<open>If RLC delivers PDUs of length zero only, the removal of the last length field writes in front of the
  header array.\<close>

theorem empty_pdus_out_of_bounds:
  assumes "0 < num_sdus m" and "num_sdus m \<le> length (sdu_lcids m)" and "num_sdus m \<le> length (sdu_lengths m)"
    and "list_all (\<lambda>c. DTCH cf \<le> c) (sdu_lcids m)" and "list_all (\<lambda>n. n = 0) (take (num_sdus m) (sdu_lengths m))"
  shows "rlc_concat cf tbs hl ta cpy m = Inl Buffer_Bounds"
proof -
  have "list_all (\<lambda>x. DTCH cf \<le> fst x) (zip (take (num_sdus m) (sdu_lcids m)) (take (num_sdus m) (sdu_lengths m)))"
    using assms(4) by (auto simp: list_all_iff dest!: set_zip_leftD in_set_takeD)
  then have srb: "rfold (copy_srb cf (dlsch_buffer m)) (zip (take (num_sdus m) (sdu_lcids m)) (take (num_sdus m) (sdu_lengths m))) acc = Inr acc"
    for acc by (rule copy_srb_skips)
  have zeros: "\<exists>st'. rfold (concat_pdu buf) ns st = Inl Buffer_Bounds \<or>
      rfold (concat_pdu buf) ns st = Inr st' \<and> header_pos st' = header_pos st \<and> rlc_sdus_total st' = rlc_sdus_total st"
    if "list_all (\<lambda>n. n = 0) ns" for buf ns st
    using that by (induction ns arbitrary: st) (fastforce simp: concat_pdu_def rd_def Let_def)+
  let ?st = "\<lparr>position = 0, header_pos = 2, buffer_pos = 0, rlc_header = replicate RLC_HEADER_SIZE 0,
      dlsch_buffer_new = replicate (MAX_DLSCH_PAYLOAD_BYTES cf) 0, rlc_sdus_total = 0, fi = 0\<rparr>"
  have "rlc_concat cf tbs hl ta cpy m = rbind (rfold (concat_pdu (dlsch_buffer m)) (take (num_sdus m) (sdu_lengths m)) ?st)
      (\<lambda>st. finish_concat cf tbs hl ta cpy 0 0 st m)"
    using assms(1) unfolding rlc_concat_def srb by simp
  moreover have "finish_concat cf tbs hl ta cpy 0 0 st m = Inl Buffer_Bounds" if "header_pos st = 2" "rlc_sdus_total st = 0" for st
    using that by (simp add: finish_concat_def trim_header_def)
  ultimately show ?thesis using zeros [OF assms(5), of "dlsch_buffer m" ?st] by auto
qed

lemma empty_pdus_out_of_bounds_witness:
  "rlc_concat demo_conf 100 0 0 0 ((demo_sdus [])\<lparr>num_sdus := 1, sdu_lengths := [0, 0], sdu_lcids := [4, 3]\<rparr>) = Inl Buffer_Bounds"
  by (rule empty_pdus_out_of_bounds) (simp_all add: demo_conf_def)

text \<open>The sequence number is not reduced to ten bits: at 1024 it sets the bit E of the header, and a
  receiver takes the first bytes of the data for length fields.\<close>

theorem sn_overflow_sets_E:
  assumes "f < 4" and "rlc_header st = [0, 0] @ xs" and "rlc_sdus_total st = 1"
  shows "rlc_header (set_header 1024 (int f) st) = [octet (8 * f + 4), 0] @ xs"
proof -
  have "list_all (\<lambda>f. (word_of_int (uint (word_of_int (push_bit 3 (int f)) :: byte) OR drop_bit 8 1024) :: byte) = octet (8 * f + 4)) [0..<4]"
    by code_simp
  then show ?thesis using assms by (auto simp: set_header_def Let_def list_all_iff)
qed

lemma sn_overflow_sets_E_witness:
  "rlc_header (set_header 1024 (int 0) \<lparr>position = 0, header_pos = 2, buffer_pos = 0, rlc_header = [0, 0], dlsch_buffer_new = [],
     rlc_sdus_total = 1, fi = 0\<rparr>) = [4, 0]"
  using sn_overflow_sets_E [of 0 "\<lparr>position = 0, header_pos = 2, buffer_pos = 0, rlc_header = [0, 0], dlsch_buffer_new = [],
     rlc_sdus_total = 1, fi = 0\<rparr>" "[]"] by (simp add: octet_def)

end
