(* ===== verification/Mac_Header.thy ===== *)
theory Mac_Header
  imports Prelude
begin

text \<open>
  The header of a MAC PDU on the downlink shared channel (\<^verbatim>\<open>generate_dlsch_header\<close> in
  \<^verbatim>\<open>openairinterface5g/openair2/LAYER2/MAC/eNB_scheduler_dlsch.c\<close>).

  \<^item> The header is a list of subheaders with the fields the code assigns. Their bit positions are given by
    structures of the eNB that are not part of this repository; a subheader without length takes one byte,
    with a short length two, with a long length three, as the constants of the code say (\<^verbatim>\<open>last_size\<close>).
  \<^item> \<^verbatim>\<open>mac_header_ptr\<close> always points to the last subheader of the list.
  \<^item> The subheader of the last SDU is written with a length; if no padding follows, the pointer moves by one
    byte only, and what comes next overwrites the length.
  \<^item> The constants of logical channels and the layout of the timing advance element are defined elsewhere
    and are the fields of a record.
\<close>

section \<open>Data\<close>

datatype sub_len = No_Length | Short_L nat | Long_L nat

record subheader =
  sub_E :: bool
  sub_LCID :: nat
  sub_L :: sub_len

record lcid_conf =
  SHORT_PADDING :: nat
  DRX_CMD :: nat
  TIMING_ADV_CMD :: nat
  UE_CONT_RES :: nat
  ta_element :: "nat \<Rightarrow> byte list"

datatype hdr_error = TA_Assert | Uninitialised_Header

fun sub_size :: "sub_len \<Rightarrow> nat" where
  "sub_size No_Length = 1"
| "sub_size (Short_L _) = 2"
| "sub_size (Long_L _) = 3"

section \<open>Operations\<close>

text \<open>\<^verbatim>\<open>mac_header_ptr->E = 1\<close>, unless this is the first element.\<close>

definition set_E :: "subheader list \<Rightarrow> subheader list" where
  "set_E hs = (if hs = [] then [] else butlast hs @ [(last hs)\<lparr>sub_E := True\<rparr>])"

definition add_sub :: "nat \<Rightarrow> sub_len \<Rightarrow> subheader list \<Rightarrow> subheader list" where
  "add_sub lcid l hs = set_E hs @ [\<lparr>sub_E = False, sub_LCID = lcid mod 32, sub_L = l\<rparr>]"

text \<open>The cast of a short length keeps 8 bits and its field 7 of them (the other bit is \<^verbatim>\<open>F\<close>).\<close>

definition sdu_len :: "nat \<Rightarrow> sub_len" where
  "sdu_len n = (if n < 128 then Short_L (n mod 256 mod 128) else Long_L (256 * (n div 256 mod 128) + n mod 256))"

definition add_sdu :: "nat \<times> nat \<Rightarrow> subheader list \<Rightarrow> subheader list" where
  "add_sdu x hs = (case x of (lcid, n) \<Rightarrow> add_sub lcid (sdu_len n) hs)"

definition drop_length :: "subheader list \<Rightarrow> subheader list" where
  "drop_length hs = butlast hs @ [(last hs)\<lparr>sub_L := No_Length\<rparr>]"

definition pad_subs :: "lcid_conf \<Rightarrow> nat \<Rightarrow> subheader list" where
  "pad_subs lc n =
     (if n = 1 then add_sub (SHORT_PADDING lc) No_Length []
      else if n = 2 then add_sub (SHORT_PADDING lc) No_Length (add_sub (SHORT_PADDING lc) No_Length [])
      else [])"

text \<open>The control elements before the SDUs, and the bytes of their contents.\<close>

definition ce_subs :: "lcid_conf \<Rightarrow> nat \<Rightarrow> nat \<Rightarrow> byte list option \<Rightarrow> subheader list \<Rightarrow> hdr_error + subheader list \<times> byte list" where
  "ce_subs lc drx_cmd ta ue_cont_res_id hs =
     (let h1 = (if drx_cmd \<noteq> 255 then add_sub (DRX_CMD lc) No_Length hs else hs) in
      rbind (if ta \<noteq> 31 then if ta < 64 then Inr (add_sub (TIMING_ADV_CMD lc) No_Length h1, ta_element lc ta) else Inl TA_Assert
             else Inr (h1, [])) (\<lambda>(h2, ce).
        case ue_cont_res_id of
          None \<Rightarrow> Inr (h2, ce)
        | Some i \<Rightarrow> Inr (add_sub (UE_CONT_RES lc) No_Length h2, ce @ take 6 i)))"

text \<open>The subheaders, the control elements, and the result, the number of bytes.\<close>

definition generate_dlsch_header ::
  "lcid_conf \<Rightarrow> (nat \<times> nat) list \<Rightarrow> nat \<Rightarrow> nat \<Rightarrow> byte list option \<Rightarrow> nat \<Rightarrow> nat \<Rightarrow>
     hdr_error + subheader list \<times> byte list \<times> nat" where
  "generate_dlsch_header lc sdus drx_cmd ta ue_cont_res_id short_padding post_padding =
     rbind (ce_subs lc drx_cmd ta ue_cont_res_id (pad_subs lc short_padding)) (\<lambda>(h, ce).
       let hs = fold add_sdu sdus h in
       if 0 < post_padding then
         let hp = add_sub (SHORT_PADDING lc) No_Length hs
         in Inr (hp, ce, sum_list (map (sub_size \<circ> sub_L) hp) + length ce)
       else if hs = [] then Inl Uninitialised_Header
       else
         let hp = drop_length hs
         in Inr (hp, ce, sum_list (map (sub_size \<circ> sub_L) hp) + length ce))"

section \<open>A receiver\<close>

text \<open>How the UE takes a MAC PDU apart (TS 36.321): subheaders up to the one without E; control elements and
  padding carry no length; an SDU has the announced length, or is the rest of the PDU.\<close>

fun ue_sdus :: "nat set \<Rightarrow> subheader list \<Rightarrow> byte list \<Rightarrow> (nat \<times> byte list) list" where
  "ue_sdus ctl [] body = []"
| "ue_sdus ctl (h # hs) body =
     (let (x, rest) =
        (if sub_LCID h \<in> ctl then ([], body)
         else case sub_L h of
             No_Length \<Rightarrow> ([(sub_LCID h, body)], [])
           | Short_L n \<Rightarrow> ([(sub_LCID h, take n body)], drop n body)
           | Long_L n \<Rightarrow> ([(sub_LCID h, take n body)], drop n body))
      in if sub_E h then x @ ue_sdus ctl hs rest else x)"

definition controls :: "lcid_conf \<Rightarrow> nat set" where
  "controls lc = {SHORT_PADDING lc, DRX_CMD lc, TIMING_ADV_CMD lc, UE_CONT_RES lc}"

definition append_last :: "byte list \<Rightarrow> (nat \<times> byte list) list \<Rightarrow> (nat \<times> byte list) list" where
  "append_last r xs = (if xs = [] then [] else butlast xs @ [(fst (last xs), snd (last xs) @ r)])"

definition demo_lcids :: lcid_conf where
  "demo_lcids = \<lparr>SHORT_PADDING = 31, DRX_CMD = 30, TIMING_ADV_CMD = 29, UE_CONT_RES = 28, ta_element = (\<lambda>n. [of_nat n])\<rparr>"

definition lcids_ok :: "lcid_conf \<Rightarrow> bool" where
  "lcids_ok lc \<longleftrightarrow> (\<forall>c\<in>controls lc. c < 32)"

text \<open>Subheaders given by channel and length: E is set in all but the last.\<close>

fun mk_subs :: "(nat \<times> sub_len) list \<Rightarrow> subheader list" where
  "mk_subs [] = []"
| "mk_subs ((c, l) # xs) = \<lparr>sub_E = (xs \<noteq> []), sub_LCID = c, sub_L = l\<rparr> # mk_subs xs"

definition pads :: "lcid_conf \<Rightarrow> nat \<Rightarrow> (nat \<times> sub_len) list" where
  "pads lc n = replicate (if n = 1 \<or> n = 2 then n else 0) (SHORT_PADDING lc, No_Length)"

definition ces :: "lcid_conf \<Rightarrow> nat \<Rightarrow> nat \<Rightarrow> byte list option \<Rightarrow> (nat \<times> sub_len) list" where
  "ces lc drx ta i = (if drx \<noteq> 255 then [(DRX_CMD lc, No_Length)] else []) @
     (if ta \<noteq> 31 then [(TIMING_ADV_CMD lc, No_Length)] else []) @ (if i \<noteq> None then [(UE_CONT_RES lc, No_Length)] else [])"

definition sdus_ok :: "lcid_conf \<Rightarrow> (nat \<times> byte list) list \<Rightarrow> bool" where
  "sdus_ok lc xs \<longleftrightarrow> (\<forall>(c, d)\<in>set xs. c < 32 \<and> c \<notin> controls lc \<and> length d < 2 ^ 15)"

section \<open>Lemmas\<close>

lemma mk_subs_Nil [simp]: "mk_subs xs = [] \<longleftrightarrow> xs = []"
  by (cases xs rule: mk_subs.cases) auto

lemma mk_subs_snoc: "mk_subs (xs @ [(c, l)]) = set_E (mk_subs xs) @ [\<lparr>sub_E = False, sub_LCID = c, sub_L = l\<rparr>]"
  by (induction xs rule: mk_subs.induct) (auto simp: set_E_def)

lemma add_sub_mk: "c < 32 \<Longrightarrow> add_sub c l (mk_subs xs) = mk_subs (xs @ [(c, l)])"
  by (simp add: add_sub_def mk_subs_snoc)

lemma drop_length_mk: "drop_length (mk_subs (xs @ [(c, l)])) = mk_subs (xs @ [(c, No_Length)])"
  by (simp add: drop_length_def mk_subs_snoc)

lemma size_mk_subs: "sum_list (map (sub_size \<circ> sub_L) (mk_subs xs)) = sum_list (map (sub_size \<circ> snd) xs)"
  by (induction xs rule: mk_subs.induct) auto

lemma controls_less: "lcids_ok lc \<Longrightarrow> SHORT_PADDING lc < 32 \<and> DRX_CMD lc < 32 \<and> TIMING_ADV_CMD lc < 32 \<and> UE_CONT_RES lc < 32"
  by (simp add: lcids_ok_def controls_def)

lemma pad_subs_mk: "lcids_ok lc \<Longrightarrow> pad_subs lc n = mk_subs (pads lc n)"
  using add_sub_mk [of "SHORT_PADDING lc" No_Length "[]"] add_sub_mk [of "SHORT_PADDING lc" No_Length "[(SHORT_PADDING lc, No_Length)]"]
  by (auto simp: pad_subs_def pads_def controls_less numeral_2_eq_2)

lemma ce_subs_mk:
  assumes "lcids_ok lc" and "ta = 31 \<or> ta < 64"
  shows "ce_subs lc drx ta i (mk_subs xs) =
    Inr (mk_subs (xs @ ces lc drx ta i), (if ta \<noteq> 31 then ta_element lc ta else []) @ (case i of None \<Rightarrow> [] | Some b \<Rightarrow> take 6 b))"
  using assms(2) controls_less [OF assms(1)] by (auto simp: ce_subs_def ces_def add_sub_mk split: option.splits)

lemma fold_add_sdu_mk:
  assumes "sdus_ok lc xs"
  shows "fold add_sdu (map (\<lambda>(c, d). (c, length d)) xs) (mk_subs ys) = mk_subs (ys @ map (\<lambda>(c, d). (c, sdu_len (length d))) xs)"
  using assms
proof (induction xs arbitrary: ys)
  case (Cons x xs)
  then show ?case using Cons.IH [of "ys @ [(fst x, sdu_len (length (snd x)))]"]
    by (cases x) (auto simp: add_sdu_def add_sub_mk sdus_ok_def)
qed simp

text \<open>What the receiver does with control elements and with SDUs.\<close>

lemma ue_sdus_ctl:
  "ys \<noteq> [] \<Longrightarrow> list_all (\<lambda>x. fst x \<in> ctl) cs \<Longrightarrow> ue_sdus ctl (mk_subs (cs @ ys)) body = ue_sdus ctl (mk_subs ys) body"
  by (induction cs rule: mk_subs.induct) auto

lemma sdu_len_value:
  "n < 2 ^ 15 \<Longrightarrow> sdu_len n = Short_L n \<or> sdu_len n = Long_L n"
  by (simp add: sdu_len_def less_mult_imp_div_less)

lemma ue_sdus_data:
  assumes "sdus_ok lc xs" and "ys \<noteq> []"
  shows "ue_sdus (controls lc) (mk_subs (map (\<lambda>(c, d). (c, sdu_len (length d))) xs @ ys)) (concat (map snd xs) @ r) =
    xs @ ue_sdus (controls lc) (mk_subs ys) r"
  using assms
proof (induction xs)
  case (Cons x xs)
  obtain c d where x: "x = (c, d)" by (cases x)
  then have "sdu_len (length d) = Short_L (length d) \<or> sdu_len (length d) = Long_L (length d)"
    using Cons.prems(1) by (intro sdu_len_value) (simp add: sdus_ok_def)
  with Cons x show ?case by (auto simp: sdus_ok_def)
qed simp

lemma ctl_pads_ces: "list_all (\<lambda>x. fst x \<in> controls lc) (pads lc n @ ces lc drx ta i)"
  by (auto simp: pads_def ces_def controls_def list_all_iff)

text \<open>The header as a whole.\<close>

lemma generate_dlsch_header_subs:
  assumes "lcids_ok lc" and "sdus_ok lc (xs @ [(c, d)])" and "ta = 31 \<or> ta < 64"
    and pre_def: "pre = pads lc sp @ ces lc drx ta i @ map (\<lambda>(c, d). (c, sdu_len (length d))) xs"
    and ce_def: "ce = (if ta \<noteq> 31 then ta_element lc ta else []) @ (case i of None \<Rightarrow> [] | Some b \<Rightarrow> take 6 b)"
    and tail_def: "tail = (\<lambda>pp :: nat. if 0 < pp then [(c, sdu_len (length d)), (SHORT_PADDING lc, No_Length)] else [(c, No_Length)])"
  shows "generate_dlsch_header lc (map (\<lambda>(c, d). (c, length d)) (xs @ [(c, d)])) drx ta i sp pp =
    Inr (mk_subs (pre @ tail pp), ce, sum_list (map (sub_size \<circ> snd) (pre @ tail pp)) + length ce)"
proof -
  let ?h = "mk_subs (pre @ [(c, sdu_len (length d))])"
  have f: "fold add_sdu (map (\<lambda>(c, d). (c, length d)) (xs @ [(c, d)])) (mk_subs (pads lc sp @ ces lc drx ta i)) = ?h"
    unfolding fold_add_sdu_mk [OF assms(2)] by (simp add: pre_def)
  have 1: "add_sub (SHORT_PADDING lc) No_Length ?h = mk_subs (pre @ tail 1)"
    using controls_less [OF assms(1)] by (simp add: add_sub_mk tail_def)
  have 2: "drop_length ?h = mk_subs (pre @ tail 0)" by (simp add: drop_length_mk tail_def)
  have ne: "?h \<noteq> []" by simp
  have t: "tail pp = (if 0 < pp then tail 1 else tail 0)" by (simp add: tail_def)
  show ?thesis
    unfolding generate_dlsch_header_def pad_subs_mk [OF assms(1)] ce_subs_mk [OF assms(1,3)] rbind_simps prod.case Let_def f 1 2 ce_def [symmetric]
    using ne by (simp add: size_mk_subs t)
qed

text \<open>What the receiver makes of it.\<close>

lemma ue_sdus_subs:
  assumes "sdus_ok lc (ys @ [(c, d)])"
    and "tail = (if 0 < (pp :: nat) then [(c, sdu_len (length d)), (SHORT_PADDING lc, No_Length)] else [(c, No_Length)])"
  shows "ue_sdus (controls lc) (mk_subs ((pads lc sp @ ces lc drx ta i @ map (\<lambda>(c, d). (c, sdu_len (length d))) ys) @ tail)) (concat (map snd ys) @ d @ r) =
    ys @ [(c, if 0 < pp then d else d @ r)]"
proof -
  let ?ctl = "controls lc" and ?ys = "map (\<lambda>(c, d). (c, sdu_len (length d))) ys"
  have ok: "sdus_ok lc ys" "c \<notin> ?ctl" "length d < 2 ^ 15" using assms(1) by (auto simp: sdus_ok_def)
  have "ue_sdus ?ctl (mk_subs ((pads lc sp @ ces lc drx ta i) @ ?ys @ tail)) (concat (map snd ys) @ d @ r) = ue_sdus ?ctl (mk_subs (?ys @ tail)) (concat (map snd ys) @ d @ r)"
    by (intro ue_sdus_ctl ctl_pads_ces) (simp add: assms(2))
  also have "\<dots> = ys @ ue_sdus ?ctl (mk_subs tail) (d @ r)" by (rule ue_sdus_data [OF ok(1)]) (simp add: assms(2))
  also have "ue_sdus ?ctl (mk_subs tail) (d @ r) = [(c, if 0 < pp then d else d @ r)]"
    using ok(2) sdu_len_value [OF ok(3)] by (auto simp: controls_def assms(2))
  finally show ?thesis by simp
qed

section \<open>Properties\<close>

text \<open>C28. The header of a MAC PDU describes its SDUs: from the bytes behind the header the UE gets every SDU with
  its logical channel. With padding at the end the SDUs come out exactly; otherwise the last SDU has no
  length and takes whatever follows.\<close>

theorem dlsch_header_roundtrip:
  assumes "lcids_ok lc" and "sdus_ok lc xs" and "xs \<noteq> []" and "ta = 31 \<or> ta < 64"
  shows "\<exists>hs ce n. generate_dlsch_header lc (map (\<lambda>(c, d). (c, length d)) xs) drx ta i sp pp = Inr (hs, ce, n) \<and>
    ue_sdus (controls lc) hs (concat (map snd xs) @ r) = (if 0 < pp then xs else append_last r xs) \<and>
    n = sum_list (map (sub_size \<circ> sub_L) hs) + length ce"
proof -
  obtain ys c d where xs: "xs = ys @ [(c, d)]" using assms(3) by (cases xs rule: rev_cases) auto
  show ?thesis
    using generate_dlsch_header_subs [OF assms(1) assms(2) [unfolded xs] assms(4) refl refl refl, of drx i sp pp]
      ue_sdus_subs [OF assms(2) [unfolded xs] refl, of sp drx ta i pp r]
    by (auto simp: xs append_last_def size_mk_subs)
qed

lemma dlsch_header_roundtrip_witness:
  "\<exists>hs ce n. generate_dlsch_header demo_lcids [(1, 2), (3, 3)] 255 5 None 0 1 = Inr (hs, ce, n) \<and>
    ue_sdus (controls demo_lcids) hs ([8, 9] @ [1, 2, 3] @ [0, 0]) = [(1, [8, 9]), (3, [1, 2, 3])]"
proof -
  let ?xs = "[(1, [8, 9]), (3, [1, 2, 3])] :: (nat \<times> byte list) list"
  have ok: "lcids_ok demo_lcids" "sdus_ok demo_lcids ?xs" "?xs \<noteq> []" "(5 :: nat) = 31 \<or> 5 < (64 :: nat)"
    by (simp_all add: demo_lcids_def lcids_ok_def controls_def sdus_ok_def)
  have m: "map (\<lambda>(c, d). (c, length d)) ?xs = [(1, 2), (3, 3)]" "concat (map snd ?xs) = [8, 9] @ [1, 2, 3]"
    "(if 0 < (1 :: nat) then ?xs else append_last [0, 0] ?xs) = ?xs" by simp_all
  show ?thesis using dlsch_header_roundtrip [OF ok, of 255 None 0 1 "[0, 0]", unfolded m append_assoc] by blast
qed

end
