(* ===== verification/Dl_Sched.thy ===== *)
theory Dl_Sched
  imports Rlc_Concat Mac_Header
begin

text \<open>
  The downlink scheduler for new data of one UE (\<^verbatim>\<open>schedule_ue_spec\<close> in
  \<^verbatim>\<open>openairinterface5g/openair2/LAYER2/MAC/eNB_scheduler_dlsch.c\<close>, the branch for a potentially new SDU): the gate control
  list that decides which bearer is served in a subframe, taking SDUs from RLC, the search for resource
  blocks and modulation and coding scheme, the choice of subbands, and the assembly of the MAC PDU.

  \<^item> RLC, the table of transport block sizes and constants of other files are the fields of a record.
    \<open>rlc_status\<close> is \<^verbatim>\<open>mac_rlc_status_ind\<close> (the number of bytes in the buffer), \<open>rlc_data\<close> is
    \<^verbatim>\<open>mac_rlc_data_req\<close>, which writes an SDU to the buffer and returns its length. RLC has a state of its own.
  \<^item> When signalling was taken from RLC, the lists of RRC release messages and of random access procedures are
    searched for it. \<open>rrc_mui\<close> are the identifiers of messages that RLC has delivered (\<^verbatim>\<open>rlc_am_mui\<close>). The lock of
    the release list is taken to be free.
  \<^item> \<^verbatim>\<open>DCCH1\<close> is \<^verbatim>\<open>DCCH + 1\<close>, the channel that is asked for its SDU.
  \<^item> Elements of \<^verbatim>\<open>sdu_lengths\<close> and \<^verbatim>\<open>sdu_lcids\<close> from \<^verbatim>\<open>num_sdus\<close> on are not initialised and only printed; they are
    zero here.
\<close>

section \<open>Data\<close>

record 'r dl_env =
  conf :: mac_conf
  lcs :: lcid_conf
  DCCH :: nat
  rlc_status :: "nat \<Rightarrow> int \<Rightarrow> 'r \<Rightarrow> int \<times> 'r"
  rlc_data :: "nat \<Rightarrow> 'r \<Rightarrow> byte list \<times> 'r"
  get_TBS_DL :: "nat \<Rightarrow> nat \<Rightarrow> int"
  rrc_context :: bool
  rrc_mui :: "'r \<Rightarrow> nat list"
  rnti :: nat
  harq_pid :: nat

record release_ctrl =
  rel_flag :: nat
  rel_rnti :: nat
  rrc_eNB_mui :: nat

datatype ra_state = MSGCRNTI | MSGCRNTI_ACK | Other_State nat

record ra_proc =
  ra_rnti :: nat
  ra_st :: ra_state
  crnti_rrc_mui :: nat
  crnti_harq_pid :: nat

record 'r ue_ctl =
  rlc :: 'r
  ta_timer :: nat
  ta_update :: nat
  uplane_inactivity_timer :: nat
  ue_rrc_inactivity_timer :: nat
  lcid_sdu :: "nat \<Rightarrow> nat"
  num_pdu_tx :: "nat \<Rightarrow> nat"
  sdu_length_tx :: "nat \<Rightarrow> nat"
  num_bytes_tx :: "nat \<Rightarrow> nat"
  release_num_UEs :: nat
  release_list :: "release_ctrl list"
  ra_list :: "ra_proc list"

record pick =
  pick_buf :: "byte list"
  pick_sdus :: "(nat \<times> nat) list"
  header_length_last :: int
  header_length_total :: int
  pick_total :: int

section \<open>The gate control list\<close>

definition prio2lcid_array1 :: "nat list" where "prio2lcid_array1 = [13, 12, 11, 10, 9, 8, 7, 4, 4, 4, 3]"
definition prio2lcid_array2 :: "nat list" where "prio2lcid_array2 = [13, 12, 11, 10, 9, 8, 7, 5, 5, 5, 3]"
definition prio2lcid_array3 :: "nat list" where "prio2lcid_array3 = [13, 12, 11, 10, 9, 8, 7, 6, 6, 6, 3]"
definition prio2lcid_array4 :: "nat list" where "prio2lcid_array4 = [13, 12, 11, 10, 9, 8, 7, 3, 3, 3, 3]"

definition prio2lcid_gate :: "nat \<Rightarrow> nat list" where
  "prio2lcid_gate t =
     (let s = t mod 20 in
      if s = 0 then prio2lcid_array1
      else if s = 1 then prio2lcid_array2
      else if s = 2 then prio2lcid_array3
      else if s = 5 then prio2lcid_array1
      else if s = 10 then prio2lcid_array1
      else if s = 11 then prio2lcid_array2
      else if s = 15 then prio2lcid_array1
      else prio2lcid_array4)"

text \<open>A bearer with an SDU that was sent in part is served first, unless it is the default bearer.\<close>

definition prio2lcid_array :: "nat \<Rightarrow> nat \<Rightarrow> nat list" where
  "prio2lcid_array t ind = (if ind \<noteq> 0 \<and> ind \<noteq> 3 then (prio2lcid_gate t)[6 := ind] else prio2lcid_gate t)"

section \<open>Taking SDUs from RLC\<close>

definition take_ta :: "'r ue_ctl \<Rightarrow> nat \<times> 'r ue_ctl" where
  "take_ta u =
     (if ta_timer u = 0 then
        (ta_update u, u\<lparr>ta_timer := (if ta_update u \<noteq> 31 then 20 else ta_timer u), ta_update := 31\<rparr>)
      else (31, u))"

definition ta_length :: "nat \<Rightarrow> int" where
  "ta_length ta = (if ta \<noteq> 31 then 2 else 0)"

definition room :: "int \<Rightarrow> int \<Rightarrow> pick \<Rightarrow> int" where
  "room tbs ta_len pk = tbs - ta_len - header_length_total pk - pick_total pk - 3"

text \<open>\<^verbatim>\<open>mac_rlc_data_req\<close> and the accounting that follows it. \<open>user\<close> tells the user plane from signalling.\<close>

definition take_sdu :: "'r dl_env \<Rightarrow> bool \<Rightarrow> nat \<Rightarrow> pick \<times> 'r ue_ctl \<Rightarrow> mac_error + pick \<times> 'r ue_ctl" where
  "take_sdu env user lcid st = (case st of (pk, u) \<Rightarrow>
     case rlc_data env lcid (rlc u) of (d, r) \<Rightarrow>
       let n = length d mod 2 ^ 16; i = length (pick_sdus pk); off = nat (pick_total pk) in
       if i < NB_RB_MAX (conf env) \<and> off + length d \<le> length (pick_buf pk) then
         let hl = 1 + 1 + (if 128 \<le> n then 1 else 0) in
         Inr (pk\<lparr>pick_buf := put_bytes off d (pick_buf pk), pick_sdus := pick_sdus pk @ [(lcid, n)],
                 header_length_last := hl, header_length_total := header_length_total pk + hl,
                 pick_total := pick_total pk + int n\<rparr>,
              u\<lparr>rlc := r, lcid_sdu := (lcid_sdu u)(i := lcid), num_pdu_tx := (num_pdu_tx u)(lcid := num_pdu_tx u lcid + 1),
                sdu_length_tx := (sdu_length_tx u)(lcid := n), num_bytes_tx := (num_bytes_tx u)(lcid := num_bytes_tx u lcid + n),
                uplane_inactivity_timer := (if user then 0 else uplane_inactivity_timer u),
                ue_rrc_inactivity_timer := (if user \<and> rrc_context env then 1 else ue_rrc_inactivity_timer u)\<rparr>)
       else Inl Buffer_Bounds)"

text \<open>The search for a delivered release message: the flags 1 and 2 of the UE become 3 and 4. \<open>n\<close> counts the
  entries in use; the search ends when all were seen.\<close>

fun release_loop :: "nat \<Rightarrow> nat \<Rightarrow> nat list \<Rightarrow> nat \<Rightarrow> release_ctrl list \<Rightarrow> release_ctrl list" where
  "release_loop num_UEs r muis n [] = []"
| "release_loop num_UEs r muis n (c # cs) =
     (if 0 < rel_flag c then
        let hit = (rel_rnti c = r \<and> rrc_eNB_mui c \<in> set muis);
            c1 = (if rel_flag c = 1 \<and> hit then c\<lparr>rel_flag := 3\<rparr> else c);
            c2 = (if rel_flag c1 = 2 \<and> hit then c1\<lparr>rel_flag := 4\<rparr> else c1)
        in c2 # (if num_UEs \<le> n + 1 then cs else release_loop num_UEs r muis (n + 1) cs)
      else c # release_loop num_UEs r muis n cs)"

definition ack_ra :: "nat \<Rightarrow> nat list \<Rightarrow> nat \<Rightarrow> ra_proc \<Rightarrow> ra_proc" where
  "ack_ra r muis pid p =
     (if ra_rnti p = r \<and> ra_st p = MSGCRNTI \<and> crnti_rrc_mui p \<in> set muis
      then p\<lparr>crnti_harq_pid := pid, ra_st := MSGCRNTI_ACK\<rparr> else p)"

definition dcch_delivered :: "'r dl_env \<Rightarrow> 'r ue_ctl \<Rightarrow> 'r ue_ctl" where
  "dcch_delivered env u =
     (let muis = rrc_mui env (rlc u) in
      u\<lparr>release_list := (if 0 < release_num_UEs u \<and> 0 < length muis
           then release_loop (release_num_UEs u) (rnti env) muis 0 (release_list u) else release_list u),
        ra_list := map (ack_ra (rnti env) muis (harq_pid env)) (ra_list u)\<rparr>)"

definition poll ::
  "'r dl_env \<Rightarrow> bool \<Rightarrow> ('r ue_ctl \<Rightarrow> 'r ue_ctl) \<Rightarrow> int \<Rightarrow> int \<Rightarrow> nat \<Rightarrow> pick \<times> 'r ue_ctl \<Rightarrow> mac_error + pick \<times> 'r ue_ctl" where
  "poll env user delivered tbs ta_len lcid st = (case st of (pk, u) \<Rightarrow>
     case rlc_status env lcid (room tbs ta_len pk) (rlc u) of (b, r) \<Rightarrow>
       if 0 < b then rbind (take_sdu env user lcid (pk, u\<lparr>rlc := r\<rparr>)) (\<lambda>(pk', u'). Inr (pk', delivered u'))
       else Inr (pk, u\<lparr>rlc := r\<rparr>))"

definition dcch ::
  "'r dl_env \<Rightarrow> ('r ue_ctl \<Rightarrow> 'r ue_ctl) \<Rightarrow> int \<Rightarrow> int \<Rightarrow> nat \<Rightarrow> pick \<times> 'r ue_ctl \<Rightarrow> mac_error + pick \<times> 'r ue_ctl" where
  "dcch env delivered tbs ta_len lcid st =
     (if 0 < room tbs ta_len (fst st) then poll env False delivered tbs ta_len lcid st else Inr st)"

text \<open>The loop over the priorities; it ends when there is no room left.\<close>

fun dtch_loop :: "'r dl_env \<Rightarrow> int \<Rightarrow> int \<Rightarrow> nat list \<Rightarrow> pick \<times> 'r ue_ctl \<Rightarrow> mac_error + pick \<times> 'r ue_ctl" where
  "dtch_loop env tbs ta_len [] st = Inr st"
| "dtch_loop env tbs ta_len (lcid # lcids) st =
     (if 0 < room tbs ta_len (fst st)
      then rbind (poll env True (\<lambda>u. u) tbs ta_len lcid st) (dtch_loop env tbs ta_len lcids)
      else Inr st)"

text \<open>All SDUs of a transport block, and \<^verbatim>\<open>sdu_length_total_cpy\<close>.\<close>

definition pick_all :: "'r dl_env \<Rightarrow> int \<Rightarrow> int \<Rightarrow> nat \<Rightarrow> nat \<Rightarrow> pick \<times> 'r ue_ctl \<Rightarrow> mac_error + int \<times> pick \<times> 'r ue_ctl" where
  "pick_all env tbs ta_len t ind st =
     rbind (dcch env (dcch_delivered env) tbs ta_len (DCCH env) st) (\<lambda>s1.
     rbind (dcch env (\<lambda>u. u) tbs ta_len (DCCH env + 1) s1) (\<lambda>s2.
     if length (prio2lcid_array t ind) < NB_RB_MAX (conf env) - DTCH (conf env) then Inl Buffer_Bounds
     else rbind (dtch_loop env tbs ta_len (take (NB_RB_MAX (conf env) - DTCH (conf env)) (prio2lcid_array t ind)) s2) (\<lambda>s3.
       Inr (pick_total (fst s2), s3))))"

definition last_header :: "pick \<Rightarrow> pick" where
  "last_header pk = (if header_length_total pk \<noteq> 0
     then pk\<lparr>header_length_total := header_length_total pk - header_length_last pk + 1\<rparr> else pk)"

section \<open>Resource blocks, modulation and coding\<close>

text \<open>The loop over the number of resource blocks; \<open>None\<close>: it does not end, which happens with a unit of zero.\<close>

function rb_search :: "(nat \<Rightarrow> nat \<Rightarrow> int) \<Rightarrow> nat \<Rightarrow> nat \<Rightarrow> nat \<Rightarrow> int \<Rightarrow> nat \<Rightarrow> int \<Rightarrow> (nat \<times> int) option" where
  "rb_search tb mcs1 unit_rb avail need nb_rb tbs =
     (if tbs < need then
        if avail < nb_rb + unit_rb then Some (avail, tb mcs1 avail)
        else if unit_rb = 0 then None
        else rb_search tb mcs1 unit_rb avail need (nb_rb + unit_rb) (tb mcs1 (nb_rb + unit_rb))
      else Some (nb_rb, tbs))"
  by pat_completeness auto
termination
  by (relation "measure (\<lambda>(tb, mcs1, u, avail, need, nb, tbs). avail - nb)") auto

declare rb_search.simps [simp del]

fun mcs_down :: "(nat \<Rightarrow> nat \<Rightarrow> int) \<Rightarrow> int \<Rightarrow> nat \<Rightarrow> nat \<Rightarrow> int \<Rightarrow> nat \<times> int" where
  "mcs_down tb need nb_rb 0 tbs = (0, tbs)"
| "mcs_down tb need nb_rb (Suc mcs) tbs =
     (if need < tbs then mcs_down tb need nb_rb mcs (tb mcs nb_rb) else (Suc mcs, tbs))"

function mcs_up :: "(nat \<Rightarrow> nat \<Rightarrow> int) \<Rightarrow> int \<Rightarrow> nat \<Rightarrow> nat \<Rightarrow> nat \<Rightarrow> int \<Rightarrow> nat \<times> int" where
  "mcs_up tb need nb_rb dl_pow_off mcs tbs =
     (if tbs < need \<and> (0 < dl_pow_off \<and> mcs < 28 \<or> dl_pow_off = 0 \<and> mcs \<le> 15)
      then mcs_up tb need nb_rb dl_pow_off (mcs + 1) (tb (mcs + 1) nb_rb) else (mcs, tbs))"
  by pat_completeness auto
termination
  by (relation "measure (\<lambda>(tb, need, nb, p, mcs, tbs). 28 - mcs)") auto

declare mcs_up.simps [simp del]

definition search_resources ::
  "(nat \<Rightarrow> nat \<Rightarrow> int) \<Rightarrow> nat \<Rightarrow> nat \<Rightarrow> nat \<Rightarrow> nat \<Rightarrow> int \<Rightarrow> (nat \<times> nat \<times> int) option" where
  "search_resources tb dlsch_mcs1 unit_rb avail dl_pow_off need =
     (let nb0 = (if dlsch_mcs1 = 0 then 4 else unit_rb) in
      case rb_search tb dlsch_mcs1 unit_rb avail need nb0 (tb dlsch_mcs1 nb0) of
        None \<Rightarrow> None
      | Some (nb_rb, tbs) \<Rightarrow>
          (case mcs_down tb need nb_rb dlsch_mcs1 tbs of (mcs, tbs1) \<Rightarrow>
           case mcs_up tb need nb_rb dl_pow_off mcs tbs1 of (mcs', tbs2) \<Rightarrow> Some (nb_rb, mcs', tbs2)))"

text \<open>The subbands of the transmission: the loop over the resource block groups, \<open>j\<close> counting up, with the
  groups the pre-processor gave to the UE.\<close>

fun rbg_loop :: "nat \<Rightarrow> nat \<Rightarrow> nat \<Rightarrow> nat \<Rightarrow> int \<Rightarrow> bool list \<Rightarrow> bool list" where
  "rbg_loop n_rbg n_rb_dl unit_rb j nb [] = []"
| "rbg_loop n_rbg n_rb_dl unit_rb j nb (a # as) =
     (if 0 < nb then
        (if a then
           True # rbg_loop n_rbg n_rb_dl unit_rb (j + 1)
             (if j = n_rbg - 1 \<and> (n_rb_dl = 25 \<or> n_rb_dl = 50) then nb - int unit_rb + 1 else nb - int unit_rb) as
         else False # rbg_loop n_rbg n_rb_dl unit_rb (j + 1) nb as)
      else replicate (length (a # as)) False)"

definition rballoc_subband :: "nat \<Rightarrow> nat \<Rightarrow> nat \<Rightarrow> nat \<Rightarrow> bool list \<Rightarrow> bool list" where
  "rballoc_subband n_rb_dl unit_rb pre_nb nb_rb sub_UE =
     (if nb_rb = pre_nb then sub_UE else rbg_loop (length sub_UE) n_rb_dl unit_rb 0 (int nb_rb) sub_UE)"

section \<open>The MAC PDU\<close>

record mac_pdu =
  pdu_subs :: "subheader list"
  pdu_ce :: "byte list"
  pdu_offset :: nat
  pdu_body :: "byte list"

datatype build_error = Mac_Error mac_error | Hdr_Error hdr_error

text \<open>Padding, concatenation, header and payload. \<open>padding\<close> is passed as an unsigned byte. The payload behind
  the header is the buffer up to \<^verbatim>\<open>sdu_length_total\<close> and zeros up to the transport block size.\<close>

definition build_pdu :: "mac_conf \<Rightarrow> lcid_conf \<Rightarrow> int \<Rightarrow> int \<Rightarrow> nat \<Rightarrow> int \<Rightarrow> mac_sdus \<Rightarrow> build_error + mac_pdu \<times> mac_sdus" where
  "build_pdu cf lc tbs hl ta cpy m =
     (let (p, pp) = calc_padding tbs hl (sdu_length_total m) (ta_length ta) in
      case rlc_concat cf tbs hl (ta_length ta) cpy (m\<lparr>padding := p, post_padding := pp\<rparr>) of
        Inl e \<Rightarrow> Inl (Mac_Error e)
      | Inr m' \<Rightarrow>
          (case generate_dlsch_header lc (zip (take (num_sdus m') (sdu_lcids m')) (take (num_sdus m') (sdu_lengths m')))
                  255 ta None (nat (padding m' mod 256)) (nat (post_padding m' mod 2 ^ 16)) of
             Inl e \<Rightarrow> Inl (Hdr_Error e)
           | Inr (hs, ce, offset) \<Rightarrow>
               if 0 \<le> sdu_length_total m' \<and> nat (sdu_length_total m') \<le> length (dlsch_buffer m') then
                 Inr (\<lparr>pdu_subs = hs, pdu_ce = ce, pdu_offset = offset,
                       pdu_body = take (nat (sdu_length_total m')) (dlsch_buffer m') @
                         replicate (nat (tbs - sdu_length_total m' - int offset)) 0\<rparr>, m')
               else Inl (Mac_Error Buffer_Bounds)))"

definition to_sdus :: "mac_conf \<Rightarrow> pick \<Rightarrow> int \<Rightarrow> nat \<Rightarrow> mac_sdus" where
  "to_sdus cf pk sn ind =
     \<lparr>dlsch_buffer = pick_buf pk, num_sdus = length (pick_sdus pk),
      sdu_lengths = map snd (pick_sdus pk) @ replicate (NB_RB_MAX cf - length (pick_sdus pk)) 0,
      sdu_lcids = map fst (pick_sdus pk) @ replicate (NB_RB_MAX cf - length (pick_sdus pk)) 0,
      sdu_length_total = pick_total pk, padding = 0, post_padding = 0, stats_sn = sn, fi_ind = ind, lcids_overrun = 0\<rparr>"

text \<open>The whole branch up to the MAC PDU: the PDU, what is left of the SDU arrays, resource blocks, scheme and
  size of the transport block, its subbands, and the state of the UE. \<open>No_Data\<close>: there is nothing to send.\<close>

record 'r built =
  bt_pdu :: mac_pdu
  bt_sdus :: mac_sdus
  bt_nb_rb :: nat
  bt_mcs :: nat
  bt_TBS :: int
  bt_subband :: "bool list"
  bt_ctl :: "'r ue_ctl"

datatype 'r new_result = Does_Not_End | No_Data "'r ue_ctl" | Built "'r built"

definition new_sdu ::
  "'r dl_env \<Rightarrow> nat \<Rightarrow> nat \<Rightarrow> nat \<Rightarrow> nat \<Rightarrow> bool list \<Rightarrow> nat \<Rightarrow> nat \<Rightarrow> nat \<Rightarrow> int \<Rightarrow> byte list \<Rightarrow> 'r ue_ctl \<Rightarrow>
     build_error + 'r new_result" where
  "new_sdu env dlsch_mcs1 n_rb_dl unit_rb avail sub_UE dl_pow_off t ind sn buf u0 =
     (let tbs0 = get_TBS_DL env dlsch_mcs1 avail; (ta, u) = take_ta u0 in
      case pick_all env tbs0 (ta_length ta) t ind
             (\<lparr>pick_buf = buf, pick_sdus = [], header_length_last = 0, header_length_total = 0, pick_total = 0\<rparr>, u) of
        Inl e \<Rightarrow> Inl (Mac_Error e)
      | Inr (cpy, pk0, u') \<Rightarrow>
          let pk = last_header pk0; need = pick_total pk + header_length_total pk + ta_length ta in
          if 0 < need then
            (case search_resources (get_TBS_DL env) dlsch_mcs1 unit_rb avail dl_pow_off need of
               None \<Rightarrow> Inr Does_Not_End
             | Some (nb_rb, mcs, tbs) \<Rightarrow>
                 (case build_pdu (conf env) (lcs env) tbs (header_length_total pk) ta cpy (to_sdus (conf env) pk sn ind) of
                    Inl e \<Rightarrow> Inl e
                  | Inr (pdu, m) \<Rightarrow>
                      Inr (Built \<lparr>bt_pdu = pdu, bt_sdus = m, bt_nb_rb = nb_rb, bt_mcs = mcs, bt_TBS = tbs,
                        bt_subband = rballoc_subband n_rb_dl unit_rb avail nb_rb sub_UE, bt_ctl = u'\<rparr>)))
          else Inr (No_Data u'))"

section \<open>Specifications\<close>

text \<open>The windows of the gates: bearer 4 every 5 subframes, bearer 5 every 10, bearer 6 every 20.\<close>

definition open_bearers :: "nat \<Rightarrow> nat set" where
  "open_bearers t = set ((if t mod 5 = 0 then [4] else []) @ (if t mod 10 = 1 then [5] else []) @ (if t mod 20 = 2 then [6] else []))"

text \<open>What RLC promises: an SDU is not longer than the number of bytes that was announced to be free.\<close>

definition rlc_keeps_size :: "'r dl_env \<Rightarrow> bool" where
  "rlc_keeps_size env \<longleftrightarrow> (\<forall>lcid n r. case rlc_status env lcid n r of (b, r') \<Rightarrow>
     0 < b \<longrightarrow> int (length (fst (rlc_data env lcid r'))) \<le> n)"

text \<open>Transport blocks grow with the scheme, for the schemes up to \<open>m\<close> and up to \<open>avail\<close> resource blocks.\<close>

definition tbs_mono :: "nat \<Rightarrow> nat \<Rightarrow> (nat \<Rightarrow> nat \<Rightarrow> int) \<Rightarrow> bool" where
  "tbs_mono m avail tb \<longleftrightarrow> (\<forall>j k n. j \<le> k \<longrightarrow> k \<le> m \<longrightarrow> n \<le> avail \<longrightarrow> tb j n \<le> tb k n)"

definition within :: "int \<Rightarrow> int \<Rightarrow> pick \<times> 'r ue_ctl \<Rightarrow> bool" where
  "within tbs ta_len st \<longleftrightarrow> ta_len + header_length_total (fst st) + pick_total (fst st) \<le> tbs \<and>
     (header_length_total (fst st) \<noteq> 0 \<longrightarrow> 1 \<le> header_length_last (fst st))"

definition lcids_in :: "nat set \<Rightarrow> pick \<times> 'r ue_ctl \<Rightarrow> bool" where
  "lcids_in A st \<longleftrightarrow> (\<forall>x\<in>set (pick_sdus (fst st)). fst x \<in> A)"

text \<open>The start state.\<close>

abbreviation no_sdus :: "byte list \<Rightarrow> pick" where
  "no_sdus buf \<equiv> \<lparr>pick_buf = buf, pick_sdus = [], header_length_last = 0, header_length_total = 0, pick_total = 0\<rparr>"

text \<open>Sample data: every bearer has an SDU of two bytes, and a transport block has ten bytes for each resource
  block, more with a higher scheme.\<close>

definition demo_dl :: "unit dl_env" where
  "demo_dl = \<lparr>conf = demo_conf, lcs = demo_lcids, DCCH = 1, rlc_status = (\<lambda>c n r. (if c \<in> {3, 4, 5, 6} \<and> 2 \<le> n then 2 else 0, r)),
     rlc_data = (\<lambda>c r. ([of_nat c, 0], r)), get_TBS_DL = (\<lambda>m n. int (n * (10 + m))), rrc_context = True,
     rrc_mui = (\<lambda>_. [7]), rnti = 0x4601, harq_pid = 2\<rparr>"

definition demo_ue :: "unit ue_ctl" where
  "demo_ue = \<lparr>rlc = (), ta_timer = 0, ta_update = 31, uplane_inactivity_timer = 7, ue_rrc_inactivity_timer = 7,
     lcid_sdu = (\<lambda>_. 0), num_pdu_tx = (\<lambda>_. 0), sdu_length_tx = (\<lambda>_. 0), num_bytes_tx = (\<lambda>_. 0),
     release_num_UEs = 0, release_list = [], ra_list = []\<rparr>"

section \<open>Lemmas on the gates and on taking SDUs\<close>

lemma gate_mod: "prio2lcid_array t ind = prio2lcid_array (t mod 20) ind"
  by (simp add: prio2lcid_array_def prio2lcid_gate_def)

lemma length_prio2lcid [simp]: "length (prio2lcid_array t ind) = 11"
  by (simp add: prio2lcid_array_def prio2lcid_gate_def Let_def prio2lcid_array1_def prio2lcid_array2_def
      prio2lcid_array3_def prio2lcid_array4_def)

lemma set_prio2lcid:
  "set (prio2lcid_array t ind) = {13, 12, 11, 10, 9, 8, 3} \<union> (if ind \<noteq> 0 \<and> ind \<noteq> 3 then {ind} else {7}) \<union> open_bearers t"
proof -
  let ?s = "t mod 20"
  have "list_all (\<lambda>s. take 6 (prio2lcid_gate s) = [13, 12, 11, 10, 9, 8] \<and> prio2lcid_gate s ! 6 = 7 \<and> length (prio2lcid_gate s) = 11 \<and>
      set (drop 7 (prio2lcid_gate s)) = insert 3 (open_bearers s)) [0..<20]"
    by code_simp
  moreover have "?s \<in> set [0..<20]" by simp
  ultimately have g: "take 6 (prio2lcid_gate ?s) = [13, 12, 11, 10, 9, 8]" "prio2lcid_gate ?s ! 6 = 7" "length (prio2lcid_gate ?s) = 11"
      "set (drop 7 (prio2lcid_gate ?s)) = insert 3 (open_bearers ?s)"
    unfolding list_all_iff by blast+
  have o: "open_bearers ?s = open_bearers t" by (simp add: open_bearers_def mod_mod_cancel)
  have "prio2lcid_array t ind = take 6 (prio2lcid_gate ?s) @ (if ind \<noteq> 0 \<and> ind \<noteq> 3 then ind else prio2lcid_gate ?s ! 6) # drop 7 (prio2lcid_gate ?s)"
    unfolding gate_mod [of t] using g(3) id_take_nth_drop [of 6 "prio2lcid_gate ?s"]
    by (simp add: prio2lcid_array_def upd_conv_take_nth_drop prio2lcid_gate_def [of "t mod 20 mod 20"])
  then show ?thesis using g(4) unfolding g(1,2) o by auto
qed

lemma take_sdu_Inr:
  assumes "take_sdu env user lcid (pk, u) = Inr st'"
  shows "\<exists>n h. n \<le> length (fst (rlc_data env lcid (rlc u))) \<and> (h = 2 \<or> h = 3) \<and>
    pick_sdus (fst st') = pick_sdus pk @ [(lcid, n)] \<and> header_length_total (fst st') = header_length_total pk + h \<and>
    header_length_last (fst st') = h \<and> pick_total (fst st') = pick_total pk + int n"
proof -
  obtain d r where d: "rlc_data env lcid (rlc u) = (d, r)" by fastforce
  let ?n = "length d mod 2 ^ 16"
  have "pick_sdus (fst st') = pick_sdus pk @ [(lcid, ?n)] \<and>
      header_length_total (fst st') = header_length_total pk + (1 + 1 + (if 128 \<le> ?n then 1 else 0)) \<and>
      header_length_last (fst st') = 1 + 1 + (if 128 \<le> ?n then 1 else 0) \<and> pick_total (fst st') = pick_total pk + int ?n"
    using assms d by (auto simp: take_sdu_def Let_def split: if_split_asm)
  moreover have "?n \<le> length (fst (rlc_data env lcid (rlc u)))" using d by simp
  ultimately show ?thesis by (intro exI [of _ ?n] exI [of _ "1 + 1 + (if 128 \<le> ?n then 1 else 0)"]) simp
qed

lemma take_sdu_within:
  assumes "take_sdu env user lcid (pk, u) = Inr st'" and "int (length (fst (rlc_data env lcid (rlc u)))) \<le> room tbs ta_len pk"
  shows "within tbs ta_len st'"
  using take_sdu_Inr [OF assms(1)] assms(2) by (auto simp: within_def room_def)

lemma take_sdu_lcids: "take_sdu env user lcid (pk, u) = Inr st' \<Longrightarrow> lcids_in A (pk, u) \<Longrightarrow> lcid \<in> A \<Longrightarrow> lcids_in A st'"
  using take_sdu_Inr [of env user lcid pk u st'] by (auto simp: lcids_in_def)

lemma poll_keeps:
  assumes "poll env user f tbs ta_len lcid st = Inr st'"
  shows "rlc_keeps_size env \<Longrightarrow> within tbs ta_len st \<Longrightarrow> within tbs ta_len st'"
    and "lcids_in A st \<Longrightarrow> lcid \<in> A \<Longrightarrow> lcids_in A st'"
proof -
  obtain pk u where st: "st = (pk, u)" by (cases st)
  obtain b r where b: "rlc_status env lcid (room tbs ta_len pk) (rlc u) = (b, r)" by fastforce
  show "within tbs ta_len st'" if "rlc_keeps_size env" "within tbs ta_len st"
  proof (cases "0 < b")
    case True
    then obtain s where s: "take_sdu env user lcid (pk, u\<lparr>rlc := r\<rparr>) = Inr s" "fst st' = fst s"
      using assms st b by (auto simp: poll_def rbind_Inr_conv)
    have "int (length (fst (rlc_data env lcid (rlc (u\<lparr>rlc := r\<rparr>))))) \<le> room tbs ta_len pk"
      using that(1) [unfolded rlc_keeps_size_def, rule_format, of lcid "room tbs ta_len pk" "rlc u"] b True by simp
    from take_sdu_within [OF s(1) this] show ?thesis using s(2) by (simp add: within_def)
  next
    case False
    then have "st' = (pk, u\<lparr>rlc := r\<rparr>)" using assms st b by (simp add: poll_def)
    then show ?thesis using that(2) st by (simp add: within_def)
  qed
  show "lcids_in A st'" if "lcids_in A st" "lcid \<in> A"
  proof (cases "0 < b")
    case True
    then obtain s where s: "take_sdu env user lcid (pk, u\<lparr>rlc := r\<rparr>) = Inr s" "fst st' = fst s"
      using assms st b by (auto simp: poll_def rbind_Inr_conv)
    have "lcids_in A (pk, u\<lparr>rlc := r\<rparr>)" using that(1) st by (simp add: lcids_in_def)
    from take_sdu_lcids [OF s(1) this that(2)] show ?thesis using s(2) by (simp add: lcids_in_def)
  next
    case False
    then have "st' = (pk, u\<lparr>rlc := r\<rparr>)" using assms st b by (simp add: poll_def)
    then show ?thesis using that(1) st by (simp add: lcids_in_def)
  qed
qed

lemma dcch_keeps:
  assumes "dcch env f tbs ta_len lcid st = Inr st'"
  shows "rlc_keeps_size env \<Longrightarrow> within tbs ta_len st \<Longrightarrow> within tbs ta_len st'"
    and "lcids_in A st \<Longrightarrow> lcid \<in> A \<Longrightarrow> lcids_in A st'"
  using assms poll_keeps [of env False f tbs ta_len lcid st st'] by (auto simp: dcch_def split: if_splits)

lemma dtch_loop_keeps:
  assumes "dtch_loop env tbs ta_len lcids st = Inr st'"
  shows "rlc_keeps_size env \<Longrightarrow> within tbs ta_len st \<Longrightarrow> within tbs ta_len st'"
    and "lcids_in A st \<Longrightarrow> set lcids \<subseteq> A \<Longrightarrow> lcids_in A st'"
proof -
  show "within tbs ta_len st'" if "rlc_keeps_size env" "within tbs ta_len st"
    using assms that(2)
  proof (induction lcids arbitrary: st)
    case (Cons c cs)
    then show ?case using poll_keeps(1) [OF _ that(1), of True "\<lambda>u. u" tbs ta_len c st]
      by (auto simp: rbind_Inr_conv split: if_splits)
  qed simp
  show "lcids_in A st'" if "lcids_in A st" "set lcids \<subseteq> A"
    using assms that
  proof (induction lcids arbitrary: st)
    case (Cons c cs)
    then show ?case using poll_keeps(2) [of env True "\<lambda>u. u" tbs ta_len c st _ A]
      by (auto simp: rbind_Inr_conv split: if_splits)
  qed simp
qed

lemma pick_all_keeps:
  assumes "pick_all env tbs ta_len t ind st = Inr (cpy, st')"
  shows "rlc_keeps_size env \<Longrightarrow> within tbs ta_len st \<Longrightarrow> within tbs ta_len st'"
    and "lcids_in A st \<Longrightarrow> {DCCH env, DCCH env + 1} \<union> set (prio2lcid_array t ind) \<subseteq> A \<Longrightarrow> lcids_in A st'"
proof -
  let ?cs = "take (NB_RB_MAX (conf env) - DTCH (conf env)) (prio2lcid_array t ind)"
  obtain s1 s2 where s: "dcch env (dcch_delivered env) tbs ta_len (DCCH env) st = Inr s1"
      "dcch env (\<lambda>u. u) tbs ta_len (DCCH env + 1) s1 = Inr s2"
      "dtch_loop env tbs ta_len ?cs s2 = Inr st'"
    using assms by (auto simp: pick_all_def rbind_Inr_conv split: if_splits)
  show "within tbs ta_len st'" if "rlc_keeps_size env" "within tbs ta_len st"
    using that dcch_keeps(1) [OF s(1)] dcch_keeps(1) [OF s(2)] dtch_loop_keeps(1) [OF s(3)] by blast
  show "lcids_in A st'" if "lcids_in A st" "{DCCH env, DCCH env + 1} \<union> set (prio2lcid_array t ind) \<subseteq> A"
  proof (rule dtch_loop_keeps(2) [OF s(3)])
    show "set ?cs \<subseteq> A" using that(2) set_take_subset [of _ "prio2lcid_array t ind"] by blast
    show "lcids_in A s2" using that dcch_keeps(2) [OF s(1)] dcch_keeps(2) [OF s(2)] by simp
  qed
qed

section \<open>Properties of the gates\<close>

text \<open>C15. The gate control list: of the bearers 4, 5 and 6 the scheduler polls exactly those whose window is
  open, every 5, 10 and 20 subframes, and the one with an SDU that was sent in part, which comes before the
  default bearer. The default bearer is always polled. The windows never overlap and keep their phase when
  the frame number wraps around after 1024 frames.\<close>

theorem gate_windows:
  "set (prio2lcid_array t ind) \<inter> {4, 5, 6} = open_bearers t \<union> ({ind} \<inter> {4, 5, 6}) \<and>
   3 \<in> set (prio2lcid_array t ind) \<and> card (open_bearers t) \<le> 1 \<and>
   (ind \<in> {4, 5, 6} \<longrightarrow> prio2lcid_array t ind ! 6 = ind \<and> 3 \<notin> set (take 6 (prio2lcid_array t ind))) \<and>
   prio2lcid_array (t + 1024 * 10) ind = prio2lcid_array t ind"
proof -
  let ?s = "t mod 20"
  have "list_all (\<lambda>s. card (open_bearers s) \<le> 1 \<and> length (prio2lcid_gate s) = 11 \<and> 3 \<notin> set (take 6 (prio2lcid_gate s))) [0..<20]"
    by code_simp
  moreover have "?s \<in> set [0..<20]" by simp
  ultimately have s: "card (open_bearers ?s) \<le> 1" "length (prio2lcid_gate ?s) = 11" "3 \<notin> set (take 6 (prio2lcid_gate ?s))"
    unfolding list_all_iff by blast+
  have g: "prio2lcid_gate t = prio2lcid_gate ?s" "open_bearers t = open_bearers ?s"
    by (simp_all add: prio2lcid_gate_def open_bearers_def mod_mod_cancel)
  have "open_bearers t \<subseteq> {4, 5, 6}" by (auto simp: open_bearers_def)
  then have "set (prio2lcid_array t ind) \<inter> {4, 5, 6} = open_bearers t \<union> ({ind} \<inter> {4, 5, 6}) \<and> 3 \<in> set (prio2lcid_array t ind)"
    unfolding set_prio2lcid by auto
  moreover have "(t + 1024 * 10) mod 20 = t mod 20" using mod_mult_self1 [of t 512 20] by simp
  then have "prio2lcid_array (t + 1024 * 10) ind = prio2lcid_array t ind" by (metis gate_mod)
  moreover have "ind \<in> {4, 5, 6} \<longrightarrow> prio2lcid_array t ind ! 6 = ind \<and> 3 \<notin> set (take 6 (prio2lcid_array t ind))"
    using s(2,3) by (simp add: prio2lcid_array_def g(1))
  ultimately show ?thesis using s(1) g(2) by simp
qed

lemma gate_windows_witness:
  "prio2lcid_array 20 5 ! 6 = 5 \<and> set (prio2lcid_array 20 5) \<inter> {4, 5, 6} = {4, 5}"
  using gate_windows [of 20 5] by (simp add: open_bearers_def insert_commute)

text \<open>C3. No data of a bearer is sent while its gate is closed: whatever RLC has buffered, a transport block holds
  SDUs of bearer 4, 5 or 6 only in a window of that bearer, or if the last transport block ended within an
  SDU of it.\<close>

theorem closed_gate_sends_nothing:
  assumes "pick_all env tbs ta_len t ind (no_sdus buf, u) = Inr (cpy, pk, u')"
    and "c \<in> {4, 5, 6}" and "c \<notin> open_bearers t" and "ind \<noteq> c" and "DCCH env \<noteq> c" and "DCCH env + 1 \<noteq> c"
  shows "c \<notin> fst ` set (pick_sdus pk)"
proof -
  have "lcids_in (UNIV - {c}) (pk, u')"
  proof (rule pick_all_keeps(2) [OF assms(1)])
    show "{DCCH env, DCCH env + 1} \<union> set (prio2lcid_array t ind) \<subseteq> UNIV - {c}"
      using assms(2-6) unfolding set_prio2lcid by auto
  qed (simp add: lcids_in_def)
  then show ?thesis by (auto simp: lcids_in_def)
qed

lemma closed_gate_sends_nothing_witness:
  "\<exists>cpy pk u'. pick_all demo_dl 100 0 21 0 (no_sdus (replicate 64 0), demo_ue) = Inr (cpy, pk, u') \<and>
    pick_sdus pk = [(5, 2), (5, 2), (5, 2), (3, 2)] \<and> 4 \<notin> fst ` set (pick_sdus pk)"
proof -
  have "\<exists>cpy pk u'. pick_all demo_dl 100 0 21 0 (no_sdus (replicate 64 0), demo_ue) = Inr (cpy, pk, u') \<and>
      pick_sdus pk = [(5, 2), (5, 2), (5, 2), (3, 2)]"
    by (simp add: pick_all_def dcch_def poll_def take_sdu_def room_def demo_dl_def demo_conf_def demo_ue_def Let_def put_bytes_def
        prio2lcid_array_def prio2lcid_gate_def prio2lcid_array2_def)
  then obtain cpy pk u' where p: "pick_all demo_dl 100 0 21 0 (no_sdus (replicate 64 0), demo_ue) = Inr (cpy, pk, u')"
      "pick_sdus pk = [(5, 2), (5, 2), (5, 2), (3, 2)]" by blast
  have "4 \<notin> fst ` set (pick_sdus pk)"
    by (rule closed_gate_sends_nothing [OF p(1)]) (simp_all add: open_bearers_def demo_dl_def)
  with p show ?thesis by blast
qed

section \<open>Resources\<close>

lemma rb_search_ok:
  assumes "0 < u" and "need \<le> tb m avail" and "nb \<le> avail"
  shows "\<exists>nb'. rb_search tb m u avail need nb (tb m nb) = Some (nb', tb m nb') \<and> need \<le> tb m nb' \<and> nb' \<le> avail \<and>
    (\<forall>k. nb + k * u < nb' \<longrightarrow> tb m (nb + k * u) < need)"
  using assms(3)
proof (induction "avail - nb" arbitrary: nb rule: less_induct)
  case less
  consider (enough) "need \<le> tb m nb" | (last) "tb m nb < need" "avail < nb + u" | (more) "tb m nb < need" "nb + u \<le> avail" by linarith
  then show ?case
  proof cases
    case enough
    then show ?thesis using less.prems by (subst rb_search.simps) auto
  next
    case last
    have "tb m (nb + k * u) < need" if "nb + k * u < avail" for k
    proof (cases k)
      case (Suc i)
      then show ?thesis using that last(2) by simp
    qed (use last in simp)
    then show ?thesis using last assms(2) by (subst rb_search.simps) auto
  next
    case more
    then have "avail - (nb + u) < avail - nb" using assms(1) by linarith
    from less.hyps [OF this more(2)] obtain nb' where nb': "rb_search tb m u avail need (nb + u) (tb m (nb + u)) = Some (nb', tb m nb')"
        "need \<le> tb m nb'" "nb' \<le> avail" "\<forall>k. nb + u + k * u < nb' \<longrightarrow> tb m (nb + u + k * u) < need" by blast
    have "tb m (nb + k * u) < need" if "nb + k * u < nb'" for k
    proof (cases k)
      case (Suc i)
      then show ?thesis using that nb'(4) [rule_format, of i] by (simp add: algebra_simps)
    qed (use more in simp)
    moreover have "rb_search tb m u avail need nb (tb m nb) = Some (nb', tb m nb')"
      using more assms(1) nb'(1) by (subst rb_search.simps) simp
    ultimately show ?thesis using nb'(2,3) by blast
  qed
qed

lemma mcs_down_ok:
  "\<exists>k. mcs_down tb need nb m (tb m nb) = (k, tb k nb) \<and> k \<le> m \<and> (k = m \<or> need < tb (Suc k) nb) \<and> (tb k nb \<le> need \<or> k = 0)"
proof (induction m)
  case (Suc m)
  show ?case
  proof (cases "need < tb (Suc m) nb")
    case True
    with Suc obtain k where "mcs_down tb need nb m (tb m nb) = (k, tb k nb)" "k \<le> m" "k = m \<or> need < tb (Suc k) nb" "tb k nb \<le> need \<or> k = 0"
      by blast
    with True show ?thesis by (intro exI [of _ k]) auto
  qed auto
qed simp

lemma search_resources_ok:
  assumes "0 < u" and "0 < pow" and "m \<le> 28" and "need \<le> tb m avail" and "(if m = 0 then 4 else u) \<le> avail" and "tbs_mono m avail tb"
  shows "\<exists>nb k. search_resources tb m u avail pow need = Some (nb, k, tb k nb) \<and> need \<le> tb k nb \<and> nb \<le> avail \<and> k \<le> m \<and>
    (\<forall>j<k. tb j nb \<le> need)"
proof -
  obtain nb where nb: "rb_search tb m u avail need (if m = 0 then 4 else u) (tb m (if m = 0 then 4 else u)) = Some (nb, tb m nb)"
      "need \<le> tb m nb" "nb \<le> avail" using rb_search_ok [where tb = tb and m = m, OF assms(1,4,5)] by blast
  obtain k where k: "mcs_down tb need nb m (tb m nb) = (k, tb k nb)" "k \<le> m" "k = m \<or> need < tb (Suc k) nb" "tb k nb \<le> need \<or> k = 0"
    using mcs_down_ok [of tb need nb m] by blast
  have mono: "j \<le> i \<Longrightarrow> i \<le> m \<Longrightarrow> tb j nb \<le> tb i nb" for i j using assms(6) nb(3) by (simp add: tbs_mono_def)
  show ?thesis
  proof (cases "need \<le> tb k nb")
    case True
    then have "mcs_up tb need nb pow k (tb k nb) = (k, tb k nb)" by (subst mcs_up.simps) simp
    moreover have "tb j nb \<le> need" if "j < k" for j
      using that k(2,4) mono [of j k] by auto
    ultimately show ?thesis using nb k True by (simp add: search_resources_def Let_def)
  next
    case False
    then have "k \<noteq> m" using nb(2) by auto
    then have lt: "k < m" "need < tb (Suc k) nb" using k(2,3) by simp_all
    then have "mcs_up tb need nb pow (Suc k) (tb (Suc k) nb) = (Suc k, tb (Suc k) nb)" by (subst mcs_up.simps) simp
    then have "mcs_up tb need nb pow k (tb k nb) = (Suc k, tb (Suc k) nb)"
      using False lt(1) assms(2,3) by (subst mcs_up.simps) simp
    moreover have "tb j nb \<le> need" if "j < Suc k" for j
      using that False k(2) mono [of j k] by simp
    ultimately show ?thesis using nb k lt by (simp add: search_resources_def Let_def)
  qed
qed

text \<open>With a power offset of zero the scheme is not raised above 16 again.\<close>

lemma mcs_up_stuck: "15 < mcs \<Longrightarrow> mcs_up tb need nb 0 mcs tbs = (mcs, tbs)"
  by (subst mcs_up.simps) simp

text \<open>C29. What is taken from RLC fits into the transport block that is chosen for it: with an RLC that keeps to the
  announced size, the search for resource blocks and scheme ends, with at most the available blocks and at
  most the scheme of the channel quality, in a transport block that holds SDUs, headers and timing advance;
  every lower scheme gives at most the size that is needed.\<close>

theorem sdus_fit_transport_block:
  assumes "pick_all env (get_TBS_DL env m avail) (ta_length ta) t ind (no_sdus buf, u) = Inr (cpy, pk, u')"
    and "rlc_keeps_size env" and "tbs_mono m avail (get_TBS_DL env)" and "ta_length ta \<le> get_TBS_DL env m avail"
    and "0 < unit_rb" and "0 < pow" and "m \<le> 28" and "(if m = 0 then 4 else unit_rb) \<le> avail"
    and need: "need = pick_total (last_header pk) + header_length_total (last_header pk) + ta_length ta"
  shows "\<exists>nb mcs tbs. search_resources (get_TBS_DL env) m unit_rb avail pow need = Some (nb, mcs, tbs) \<and>
    need \<le> tbs \<and> tbs = get_TBS_DL env mcs nb \<and> nb \<le> avail \<and> mcs \<le> m \<and> (\<forall>j<mcs. get_TBS_DL env j nb \<le> need)"
proof -
  have "within (get_TBS_DL env m avail) (ta_length ta) (pk, u')"
    by (rule pick_all_keeps(1) [OF assms(1,2)]) (use assms(4) in \<open>simp add: within_def\<close>)
  then have "need \<le> get_TBS_DL env m avail" unfolding need by (auto simp: within_def last_header_def)
  then show ?thesis using search_resources_ok [of unit_rb pow m need "get_TBS_DL env" avail] assms by blast
qed

lemma sdus_fit_transport_block_witness:
  "\<exists>cpy pk u' nb mcs tbs. pick_all demo_dl (get_TBS_DL demo_dl 9 10) (ta_length 31) 21 0 (no_sdus (replicate 64 0), demo_ue) = Inr (cpy, pk, u') \<and>
    pick_total pk = 8 \<and> search_resources (get_TBS_DL demo_dl) 9 2 10 2
      (pick_total (last_header pk) + header_length_total (last_header pk) + ta_length 31) = Some (nb, mcs, tbs) \<and> 8 \<le> tbs"
proof -
  have tb: "get_TBS_DL demo_dl = (\<lambda>m n. int (n * (10 + m)))" by (simp add: demo_dl_def)
  have "\<exists>cpy pk u'. pick_all demo_dl (get_TBS_DL demo_dl 9 10) (ta_length 31) 21 0 (no_sdus (replicate 64 0), demo_ue) = Inr (cpy, pk, u') \<and>
      pick_total pk = 8 \<and> 0 \<le> header_length_total (last_header pk) \<and> pick_total (last_header pk) = 8"
    by (simp add: pick_all_def dcch_def poll_def take_sdu_def room_def demo_dl_def demo_conf_def demo_ue_def Let_def put_bytes_def
        prio2lcid_array_def prio2lcid_gate_def prio2lcid_array2_def ta_length_def last_header_def)
  then obtain cpy pk u' where p: "pick_all demo_dl (get_TBS_DL demo_dl 9 10) (ta_length 31) 21 0 (no_sdus (replicate 64 0), demo_ue) = Inr (cpy, pk, u')"
      "pick_total pk = 8" "0 \<le> header_length_total (last_header pk)" "pick_total (last_header pk) = 8" by blast
  have "tbs_mono 9 10 (get_TBS_DL demo_dl)" unfolding tbs_mono_def tb by (auto intro!: mult_mono)
  moreover have "rlc_keeps_size demo_dl" by (auto simp: rlc_keeps_size_def demo_dl_def)
  ultimately have "\<exists>nb mcs tbs. search_resources (get_TBS_DL demo_dl) 9 2 10 2
      (pick_total (last_header pk) + header_length_total (last_header pk) + ta_length 31) = Some (nb, mcs, tbs) \<and>
      pick_total (last_header pk) + header_length_total (last_header pk) + ta_length 31 \<le> tbs \<and> tbs = get_TBS_DL demo_dl mcs nb \<and>
      nb \<le> 10 \<and> mcs \<le> 9 \<and> (\<forall>j<mcs. get_TBS_DL demo_dl j nb \<le> pick_total (last_header pk) + header_length_total (last_header pk) + ta_length 31)"
    by (intro sdus_fit_transport_block [OF p(1)]) (simp_all add: tb ta_length_def)
  then show ?thesis using p by (fastforce simp: ta_length_def)
qed

section \<open>The MAC PDU as the UE sees it\<close>

lemma calc_padding_cases:
  "calc_padding tbs hl tot ta_len = (if tbs - hl - tot - ta_len \<le> 2 then (tbs - hl - tot - ta_len, 0) else (0, 1))"
  by (simp add: calc_padding_def Let_def)

lemma generate_one_sdu:
  assumes "lcids_ok lc" and "c < 32" and "length d < 2 ^ 15" and "ta = 31 \<or> ta < 64 \<and> length (ta_element lc ta) = 1"
    and "c \<notin> controls lc"
  shows "\<exists>hs ce. generate_dlsch_header lc [(c, length d)] 255 ta None sp pp =
      Inr (hs, ce, (if sp = 1 \<or> sp = 2 then sp else 0) + nat (ta_length ta) + (if 0 < pp then sub_size (sdu_len (length d)) + 1 else 1)) \<and>
    (\<forall>r. ue_sdus (controls lc) hs (d @ r) = (if 0 < pp then [(c, d)] else [(c, d @ r)]))"
proof -
  let ?tail = "if 0 < pp then [(c, sdu_len (length d)), (SHORT_PADDING lc, No_Length)] else [(c, No_Length)]"
  have gen: "generate_dlsch_header lc (map (\<lambda>(c, d). (c, length d)) ([] @ [(c, d)])) 255 ta None sp pp =
      Inr (mk_subs ((pads lc sp @ ces lc 255 ta None @ map (\<lambda>(c, d). (c, sdu_len (length d))) ([] :: (nat \<times> byte list) list)) @ ?tail),
        (if ta \<noteq> 31 then ta_element lc ta else []) @ (case None of None \<Rightarrow> [] | Some b \<Rightarrow> take 6 b),
        sum_list (map (sub_size \<circ> snd) ((pads lc sp @ ces lc 255 ta None @ map (\<lambda>(c, d). (c, sdu_len (length d))) ([] :: (nat \<times> byte list) list)) @ ?tail)) +
        length ((if ta \<noteq> 31 then ta_element lc ta else []) @ (case None of None \<Rightarrow> [] | Some b \<Rightarrow> take 6 b)))"
    by (rule generate_dlsch_header_subs [OF assms(1) _ _ refl refl refl]) (use assms(2-5) in \<open>auto simp: sdus_ok_def\<close>)
  have ue: "ue_sdus (controls lc) (mk_subs ((pads lc sp @ ces lc 255 ta None) @ ?tail)) (d @ r) = (if 0 < pp then [(c, d)] else [(c, d @ r)])" for r
    using ue_sdus_ctl [OF _ ctl_pads_ces, of ?tail lc sp 255 ta None "d @ r"] assms(5) sdu_len_value [OF assms(3)]
    by (auto simp: controls_def)
  have "sum_list (map (sub_size \<circ> snd) (pads lc sp @ ces lc 255 ta None @ ?tail)) + length (if ta \<noteq> 31 then ta_element lc ta else []) =
      (if sp = 1 \<or> sp = 2 then sp else 0) + nat (ta_length ta) + (if 0 < pp then sub_size (sdu_len (length d)) + 1 else 1)"
    using assms(4) by (auto simp: pads_def ces_def ta_length_def sum_list_replicate)
  then show ?thesis using gen ue by simp
qed

lemma build_pdu_merged:
  assumes l: "loaded cf [] cs us m" and "memcpy_moves cf" and "0 \<le> stats_sn m" and "(stats_sn m + 1) mod 2 ^ sn_bits cf < 1024"
    and lc: "lcids_ok lc" "DTCH cf < 32" "DTCH cf \<notin> controls lc" and ta: "ta = 31 \<or> ta < 64 \<and> length (ta_element lc ta) = 1"
    and small: "length (concat (map um_encode us)) < 2 ^ 15" and d: "d = um_encode (merged_pdu cf m us)" and "1 \<le> hl"
    and rest: "rest = tbs - hl - int (length d) - ta_length ta" and "0 \<le> rest"
  shows "\<exists>pdu m'. build_pdu cf lc tbs hl ta 0 m = Inr (pdu, m') \<and> int (pdu_offset pdu + length (pdu_body pdu)) = tbs \<and>
    ue_sdus (controls lc) (pdu_subs pdu) (pdu_body pdu) =
      [(DTCH cf, if 2 < rest then d else d @ replicate (nat (hl - 1)) 0)] \<and>
    stats_sn m' = (stats_sn m + 1) mod 2 ^ sn_bits cf"
proof -
  obtain p pp where pad: "calc_padding tbs hl (sdu_length_total m) (ta_length ta) = (p, pp)" by fastforce
  let ?m = "m\<lparr>padding := p, post_padding := pp\<rparr>" and ?N = "MAX_DLSCH_PAYLOAD_BYTES cf"
  have l': "loaded cf [] cs us ?m" using l by simp
  have dlen: "length d < 2 ^ 15" "length d \<le> ?N"
    using um_encode_merged_shorter [OF loadedD(1,2) [OF l], of cf m] small loaded_size [OF l] unfolding d by simp_all
  have dm: "d mod 2 ^ 16 = d" if "d < 2 ^ 15" for d :: nat using that by simp
  obtain m' where m': "rlc_concat cf tbs hl (ta_length ta) 0 ?m = Inr m'"
      "dlsch_buffer m' = d @ replicate (?N - length d) 0" "num_sdus m' = 1" "take 1 (sdu_lengths m') = [length d]"
      "take 1 (sdu_lcids m') = [DTCH cf]" "sdu_length_total m' = int (length d)"
      "stats_sn m' = (stats_sn m + 1) mod 2 ^ sn_bits cf"
    using rlc_concat_ok [OF l' _ _ _ refl refl refl, of tbs hl "ta_length ta" 0] assms(2-4) d dm [OF dlen(1)] by auto
  have pm: "(padding m', post_padding m') = (if rest \<le> 2 then (rest, 0) else (0, 1))"
    using rlc_concat_padding [OF l' m'(1)] unfolding m'(6) calc_padding_cases rest .
  define sp where "sp = nat (padding m' mod 256)"
  define pp' where "pp' = nat (post_padding m' mod 2 ^ 16)"
  have sp: "(if sp = 1 \<or> sp = 2 then sp else 0) = (if rest \<le> 2 then nat rest else 0)" "0 < pp' \<longleftrightarrow> 2 < rest"
    using pm \<open>0 \<le> rest\<close> by (auto simp: sp_def pp'_def split: if_splits)
  obtain hs ce where g: "generate_dlsch_header lc [(DTCH cf, length d)] 255 ta None sp pp' =
      Inr (hs, ce, (if rest \<le> 2 then nat rest else 0) + nat (ta_length ta) + (if 2 < rest then sub_size (sdu_len (length d)) + 1 else 1))"
    "\<forall>r. ue_sdus (controls lc) hs (d @ r) = (if 2 < rest then [(DTCH cf, d)] else [(DTCH cf, d @ r)])"
    using generate_one_sdu [OF lc(1,2) dlen(1) ta lc(3), of sp pp'] unfolding sp by blast
  let ?off = "(if rest \<le> 2 then nat rest else 0) + nat (ta_length ta) + (if 2 < rest then sub_size (sdu_len (length d)) + 1 else 1)"
  have z: "zip (take (num_sdus m') (sdu_lcids m')) (take (num_sdus m') (sdu_lengths m')) = [(DTCH cf, length d)]"
    unfolding m'(3-5) by simp
  have "build_pdu cf lc tbs hl ta 0 m = Inr (\<lparr>pdu_subs = hs, pdu_ce = ce, pdu_offset = ?off,
      pdu_body = d @ replicate (nat (tbs - int (length d) - int ?off)) 0\<rparr>, m')"
    unfolding build_pdu_def pad Let_def prod.case m'(1) sum.case z sp_def [symmetric] pp'_def [symmetric] g(1)
    using m'(2,6) dlen(2) by simp
  moreover have "0 \<le> ta_length ta" "sub_size (sdu_len (length d)) \<le> 3" using sdu_len_value [OF dlen(1)] by (auto simp: ta_length_def)
  then have "0 \<le> tbs - int (length d) - int ?off" "rest \<le> 2 \<Longrightarrow> tbs - int (length d) - int ?off = hl - 1"
    using \<open>1 \<le> hl\<close> \<open>0 \<le> rest\<close> unfolding rest by auto
  ultimately show ?thesis using g(2) m'(7) by (intro exI [of _ "\<lparr>pdu_subs = hs, pdu_ce = ce, pdu_offset = ?off,
      pdu_body = d @ replicate (nat (tbs - int (length d) - int ?off)) 0\<rparr>"] exI [of _ m']) (auto simp: not_less)
qed

text \<open>C9. From the buffers of RLC to the UE: without signalling SDUs, the MAC PDU that is built fills the transport block, and
  the UE finds in it one SDU of the default bearer that decodes to all data fields of all bearers in order.
  The last field is intact if there is room for a padding subheader. Otherwise the length that is left is
  computed with the subheaders of the SDUs before they were merged, and the last field ends in one zero byte
  for each byte by which these exceed one subheader without length.\<close>

theorem ue_receives_merged:
  assumes "loaded cf [] cs us m" and "memcpy_moves cf" and "0 \<le> stats_sn m" and "(stats_sn m + 1) mod 2 ^ sn_bits cf < 1024"
    and "lcids_ok lc" and "DTCH cf < 32" and "DTCH cf \<notin> controls lc" and "ta = 31 \<or> ta < 64 \<and> length (ta_element lc ta) = 1"
    and "length (concat (map um_encode us)) < 2 ^ 15" and "1 \<le> hl"
    and "rest = tbs - hl - int (length (um_encode (merged_pdu cf m us))) - ta_length ta" and "0 \<le> rest"
  shows "\<exists>pdu m' x. build_pdu cf lc tbs hl ta 0 m = Inr (pdu, m') \<and> int (pdu_offset pdu + length (pdu_body pdu)) = tbs \<and>
    ue_sdus (controls lc) (pdu_subs pdu) (pdu_body pdu) = [(DTCH cf, x)] \<and>
    um_decode x = Some \<lparr>um_fi = merge_fi (fi_ind m) (um_fi (last us)), um_sn = nat ((stats_sn m + 1) mod 2 ^ sn_bits cf),
      um_fields = butlast (all_fields us) @ [last (all_fields us) @ (if 2 < rest then [] else replicate (nat (hl - 1)) 0)]\<rparr>"
proof -
  note f = loaded_fields [OF assms(1)]
  define z where "z = (if 2 < rest then [] else replicate (nat (hl - 1)) 0 :: byte list)"
  obtain pdu m' where p: "build_pdu cf lc tbs hl ta 0 m = Inr (pdu, m')" "int (pdu_offset pdu + length (pdu_body pdu)) = tbs"
      "ue_sdus (controls lc) (pdu_subs pdu) (pdu_body pdu) = [(DTCH cf, um_encode (merged_pdu cf m us) @ z)]"
    using build_pdu_merged [OF assms(1-9) refl assms(10-12)] by (cases "2 < rest") (auto simp: z_def)
  have "um_decode (um_encode (merged_pdu cf m us) @ z) =
      Some ((merged_pdu cf m us)\<lparr>um_fields := butlast (all_fields us) @ [last (all_fields us) @ z]\<rparr>)"
  proof (rule um_decode_padded)
    show "um_fields (merged_pdu cf m us) = butlast (all_fields us) @ [last (all_fields us)]" using f(2) by (simp add: merged_pdu_def)
    show "list_all (\<lambda>d. length d < 2048) (butlast (all_fields us))" using f(1) by (auto simp: list_all_iff dest: in_set_butlastD)
    show "um_fi (merged_pdu cf m us) < 4" using f(3) by (simp add: merged_pdu_def merge_fi_def)
    show "um_sn (merged_pdu cf m us) < 1024" using assms(4) by (simp add: merged_pdu_def)
  qed
  then show ?thesis using p by (simp add: merged_pdu_def z_def)
qed

text \<open>Two PDUs with three bytes of subheaders in a block that leaves one byte: two zero bytes at the end.\<close>

lemma ue_receives_merged_witness:
  "\<exists>pdu m' x. build_pdu demo_conf demo_lcids 20 3 31 0 (demo_sdus []) = Inr (pdu, m') \<and>
    ue_sdus (controls demo_lcids) (pdu_subs pdu) (pdu_body pdu) = [(3, x)] \<and>
    um_decode x = Some \<lparr>um_fi = 1, um_sn = 42, um_fields = [[1, 2, 3], [4, 5], [6], [7, 8, 9, 0, 0]]\<rparr>"
proof -
  have d: "memcpy_moves demo_conf" "sn_bits demo_conf = 16" "stats_sn (demo_sdus []) = 41" "fi_ind (demo_sdus []) = 0"
    "um_fi (last demo_pdus) = 1" "all_fields demo_pdus = [[1, 2, 3], [4, 5], [6], [7, 8, 9]]" "DTCH demo_conf = 3"
    by (simp_all add: demo_conf_def demo_sdus_def demo_pdus_def all_fields_def)
  have lc: "lcids_ok demo_lcids" "3 \<notin> controls demo_lcids" by (simp_all add: demo_lcids_def lcids_ok_def controls_def)
  have len: "length (um_encode (merged_pdu demo_conf (demo_sdus []) demo_pdus)) = 16" "length (concat (map um_encode demo_pdus)) = 16"
    by (code_simp)+
  have replicate_2: "replicate 2 x = [x, x]" for x :: byte by (simp add: numeral_2_eq_2)
  show ?thesis
    using ue_receives_merged [OF demo_loaded(1), of demo_lcids 31 3 1 20] d lc len by (auto simp: merge_fi_def ta_length_def replicate_2)
qed

end
