(* ===== verification/Ue_Spec.thy ===== *)
theory Ue_Spec
  imports Dl_Sched
begin

text \<open>
  The downlink scheduler for all UEs of a carrier (\<^verbatim>\<open>schedule_ue_spec\<close>, \<^verbatim>\<open>fill_DLSCH_dci\<close> and the functions they call in
  \<^verbatim>\<open>openairinterface5g/openair2/LAYER2/MAC/eNB_scheduler_dlsch.c\<close>): which UEs are served, retransmission and new
  transmission of a HARQ process, power control of PUCCH, the downlink assignment index of TDD, and the
  downlink control information.

  \<^item> One carrier. The UE list is the list of UE indices in the order of the links.
  \<^item> The requests to the physical layer are the elements of a list \<open>out\<close>, in the order in which they are made:
    DCI elements (\<^verbatim>\<open>dl_config_pdu\<close> counted by \<^verbatim>\<open>number_pdu\<close>), the calls of \<^verbatim>\<open>fill_nfapi_dlsch_config\<close>,
    \<^verbatim>\<open>fill_nfapi_tx_req\<close> and \<^verbatim>\<open>program_dlsch_acknak\<close> with the arguments that vary.
  \<^item> Functions of other files are fields of the record \<open>cell_env\<close>, among them the search for a place in the
    control region (\<^verbatim>\<open>CCE_allocation_infeasible\<close>), which sees the requests made so far, and the pre-processor,
    whose results are in the state of the UE.
  \<^item> \<open>stack\<close> is what the buffer on the stack contains when a UE is handled.
\<close>

section \<open>Data\<close>

datatype dlsch_status = S_DL_NONE | S_DL_WAITING | S_DL_SCHEDULED | S_DL_BUFFERED

record dlsch_info =
  inf_rnti :: nat
  inf_subframe :: nat
  inf_status :: dlsch_status
  serving_num :: nat

record harq_proc =
  hp_round :: nat
  hp_nb_rb :: nat
  oldNDI :: int
  oldmcs1 :: nat
  oldmcs2 :: nat
  harq_rtt_timer :: nat
  drx_retransmission_timer :: nat
  hp_subband :: "bool list"

record ue_stats =
  st_crnti :: nat
  st_rrc_status :: nat
  st_harq_pid :: nat
  st_harq_round :: nat
  dlsch_mcs1 :: nat
  dlsch_mcs2 :: nat
  st_sn :: int
  st_fi_ind :: nat
  num_retransmission :: nat
  rbs_used_retx :: nat
  total_rbs_used_retx :: nat
  rbs_used :: nat
  num_mac_sdu_tx :: nat
  total_rbs_used :: nat
  st_TBS :: int
  overhead_bytes :: int
  total_sdu_bytes :: int
  total_pdu_bytes :: int
  total_num_pdus :: nat

record 'r ue =
  u_rnti :: nat
  u_ctl :: "'r ue_ctl"
  u_harq :: "nat \<Rightarrow> harq_proc"
  u_stats :: ue_stats
  DAI :: nat
  DAI_ul :: "nat \<Rightarrow> nat"
  pucch_tpc_tx_frame :: nat
  pucch_tpc_tx_subframe :: nat
  pucch1_snr :: int
  pucch1_cqi_update :: nat
  dl_cqi :: nat
  pre_nb_available_rbs :: nat
  rballoc_sub_UE :: "bool list"
  dl_pow_off :: nat
  cdrx_configured :: bool
  drx_inactivity_timer :: nat
  rach_resource_type :: nat
  has_pdsch_config :: bool

record dci =
  dci_rnti :: nat
  dci_format :: nat
  aggregation_level :: nat
  harq_process :: nat
  dci_tpc :: nat
  new_data_indicator_1 :: int
  mcs_1 :: nat
  redundancy_version_1 :: nat
  downlink_assignment_index :: nat
  dci_coding :: "nat option"

record dlsch =
  dls_rnti :: nat
  dls_TBS :: int
  dls_index :: "nat option"
  dls_rv :: nat
  dls_coding :: "nat option"

datatype request = Dci dci | Dlsch_Config dlsch | Tx_Req nat int mac_pdu | Ack_Nak nat

record hi_dci0 =
  is_dci0 :: bool
  hi_rnti :: nat
  dl_assignment_index :: nat

record 'r cell =
  ues :: "nat \<Rightarrow> 'r ue"
  out :: "request list"
  pdu_index :: nat
  infos :: "nat \<Rightarrow> dlsch_info"
  hi_dci0_list :: "hi_dci0 list"
  dlsch_bytes_tx :: int
  dlsch_pdus_tx :: nat
  cell_release_list :: "release_ctrl list"
  cell_ra_list :: "ra_proc list"

datatype dci_kind = format1 | format2A

record 'r cell_env =
  dl :: "'r dl_env"
  get_tmode :: "nat \<Rightarrow> nat"
  get_aggregation :: "nat \<Rightarrow> dci_kind \<Rightarrow> nat"
  CCE_allocation_infeasible :: "request list \<Rightarrow> nat \<Rightarrow> nat \<Rightarrow> bool"
  frame_subframe2_dl_harq_pid :: "nat \<Rightarrow> nat \<Rightarrow> nat"
  mac_eNB_get_rrc_status :: "nat \<Rightarrow> nat"
  RRC_CONNECTED :: nat
  RRC_RECONFIGURED :: nat
  cqi_to_mcs :: "nat \<Rightarrow> nat"
  monolithic :: bool
  maxmcs :: nat
  subframeAssignment :: "nat option"
  n_rb_dl :: nat
  n_rbg :: nat
  min_rb_unit :: nat
  puCch10xSnr :: int
  NFAPI_DL_DCI_FORMAT_1 :: nat
  allocate_prbs_sub :: "nat \<Rightarrow> bool list \<Rightarrow> nat"
  stack :: "nat \<Rightarrow> byte list"
  pre_processor :: "'r cell \<Rightarrow> 'r cell"

datatype sched_error = Build_Error build_error | Tmode_Assert nat | Pdsch_Config_Assert | Null_Deref | Endless_Loop

section \<open>Bookkeeping\<close>

definition add_ue_dlsch_info :: "nat \<Rightarrow> nat \<Rightarrow> dlsch_status \<Rightarrow> nat \<Rightarrow> 'r cell \<Rightarrow> 'r cell" where
  "add_ue_dlsch_info UE_id subframe status r c = c\<lparr>infos := (infos c)(UE_id :=
     (infos c UE_id)\<lparr>inf_rnti := r, inf_subframe := subframe, inf_status := status, serving_num := serving_num (infos c UE_id) + 1\<rparr>)\<rparr>"

text \<open>The next UE that waits; if none does, those with buffered data wait from now on.\<close>

definition schedule_next_dlue :: "nat list \<Rightarrow> (nat \<Rightarrow> dlsch_info) \<Rightarrow> int \<times> (nat \<Rightarrow> dlsch_info)" where
  "schedule_next_dlue ids tab =
     (case List.find (\<lambda>i. inf_status (tab i) = S_DL_WAITING) ids of
        Some i \<Rightarrow> (int i, tab)
      | None \<Rightarrow> (-1, fold (\<lambda>i f. if inf_status (f i) = S_DL_BUFFERED then f(i := (f i)\<lparr>inf_status := S_DL_WAITING\<rparr>) else f) ids tab))"

text \<open>In which subframes of a TDD frame there is nothing to schedule.\<close>

definition tdd_returns :: "nat option \<Rightarrow> nat \<Rightarrow> bool" where
  "tdd_returns tdd subframe = (case tdd of
     None \<Rightarrow> False
   | Some sfa \<Rightarrow>
       if subframe = 0 then False
       else if subframe = 1 \<or> subframe = 2 then True
       else if subframe = 3 then sfa \<noteq> 2 \<and> sfa \<noteq> 5
       else if subframe = 4 then sfa \<noteq> 1 \<and> sfa \<noteq> 2 \<and> sfa \<noteq> 4 \<and> sfa \<noteq> 5
       else if subframe = 5 then False
       else if subframe = 6 \<or> subframe = 7 then sfa \<noteq> 3 \<and> sfa \<noteq> 4 \<and> sfa \<noteq> 5
       else if subframe = 8 then sfa \<noteq> 2 \<and> sfa \<noteq> 3 \<and> sfa \<noteq> 4 \<and> sfa \<noteq> 5
       else if subframe = 9 then sfa = 0
       else False)"

definition set_ue_dai :: "nat \<Rightarrow> nat \<Rightarrow> 'r ue \<Rightarrow> 'r ue" where
  "set_ue_dai subframe tdd_config u =
     (if (tdd_config = 0 \<and> subframe \<notin> {0, 1, 3, 5, 6, 8} \<or>
          tdd_config = 1 \<and> subframe \<notin> {0, 4, 5, 9} \<or>
          tdd_config = 2 \<and> subframe \<notin> {4, 5} \<or>
          tdd_config = 3 \<and> subframe \<notin> {5, 7, 9} \<or>
          tdd_config = 4 \<and> subframe \<notin> {0, 6} \<or>
          tdd_config = 5 \<and> subframe \<noteq> 9 \<or>
          tdd_config = 6 \<and> subframe \<notin> {0, 1, 5, 6, 9})
      then u else u\<lparr>DAI := 0\<rparr>)"

text \<open>\<^verbatim>\<open>(DAI - 1) & 3\<close>\<close>

definition dai_field :: "nat \<Rightarrow> nat" where
  "dai_field d = (d + 3) mod 4"

definition set_ul_DAI :: "nat option \<Rightarrow> nat \<Rightarrow> 'r ue \<Rightarrow> 'r ue" where
  "set_ul_DAI tdd subframe u = (case tdd of
     None \<Rightarrow> u
   | Some sfa \<Rightarrow>
       let put = (\<lambda>i. u\<lparr>DAI_ul := (DAI_ul u)(i := dai_field (DAI u))\<rparr>) in
       if sfa = 1 then
         (if subframe = 0 \<or> subframe = 1 then put 7
          else if subframe = 4 then put 8
          else if subframe = 5 \<or> subframe = 6 then put 2
          else if subframe = 9 then put 3
          else u)
       else if sfa = 3 then
         (if subframe = 5 \<or> subframe = 6 \<or> subframe = 1 then put 2
          else if subframe = 7 \<or> subframe = 8 then put 3
          else if subframe = 9 \<or> subframe = 0 then put 4
          else u)
       else u)"

definition update_ul_dci :: "nat option \<Rightarrow> nat \<Rightarrow> nat \<Rightarrow> hi_dci0 list \<Rightarrow> hi_dci0 list" where
  "update_ul_dci tdd r dai hs =
     (if tdd \<noteq> None then map (\<lambda>h. if is_dci0 h \<and> hi_rnti h = r then h\<lparr>dl_assignment_index := dai_field dai\<rparr> else h) hs else hs)"

text \<open>The DAI counts the assignments of a TDD bundle; it has eight bits.\<close>

definition count_dai :: "nat option \<Rightarrow> nat \<Rightarrow> 'r cell \<Rightarrow> 'r cell" where
  "count_dai tdd i c = (if tdd = None then c else
     let u = (ues c i)\<lparr>DAI := (DAI (ues c i) + 1) mod 256\<rparr> in
     c\<lparr>ues := (ues c)(i := u), hi_dci0_list := update_ul_dci tdd (u_rnti u) (DAI u) (hi_dci0_list c)\<rparr>)"

section \<open>Power control\<close>

text \<open>Division of C.\<close>

definition tdiv :: "int \<Rightarrow> int \<Rightarrow> int" where
  "tdiv a b = sgn a * sgn b * (\<bar>a\<bar> div \<bar>b\<bar>)"

definition tpc_due :: "nat \<Rightarrow> nat \<Rightarrow> bool" where
  "tpc_due t0 now \<longleftrightarrow> t0 + 10 \<le> now \<or> now < t0 \<and> 10 \<le> 10240 - int t0 + int now"

definition pucch_tpc :: "int \<Rightarrow> nat \<Rightarrow> nat \<Rightarrow> 'r ue \<Rightarrow> nat \<times> 'r ue" where
  "pucch_tpc target10 frame subframe u =
     (let snr = tdiv (5 * pucch1_snr u - 640) 10; target = tdiv target10 10 in
      if tpc_due (pucch_tpc_tx_frame u * 10 + pucch_tpc_tx_subframe u) (frame * 10 + subframe) \<and> pucch1_cqi_update u = 1 then
        (if target + 4 < snr then 0 else if snr < target - 4 then 2 else 1,
         u\<lparr>pucch1_cqi_update := 0, pucch_tpc_tx_frame := frame, pucch_tpc_tx_subframe := subframe\<rparr>)
      else (1, u))"

section \<open>Retransmission\<close>

definition upd_ue :: "nat \<Rightarrow> ('r ue \<Rightarrow> 'r ue) \<Rightarrow> 'r cell \<Rightarrow> 'r cell" where
  "upd_ue i f c = c\<lparr>ues := (ues c)(i := f (ues c i))\<rparr>"

definition upd_harq :: "nat \<Rightarrow> (harq_proc \<Rightarrow> harq_proc) \<Rightarrow> 'r ue \<Rightarrow> 'r ue" where
  "upd_harq pid f u = u\<lparr>u_harq := (u_harq u)(pid := f (u_harq u pid))\<rparr>"

definition upd_stats :: "(ue_stats \<Rightarrow> ue_stats) \<Rightarrow> 'r ue \<Rightarrow> 'r ue" where
  "upd_stats f u = u\<lparr>u_stats := f (u_stats u)\<rparr>"

definition request_out :: "request list \<Rightarrow> 'r cell \<Rightarrow> 'r cell" where
  "request_out rs c = c\<lparr>out := out c @ rs\<rparr>"

definition restart_timers :: "'r ue \<Rightarrow> harq_proc \<Rightarrow> harq_proc" where
  "restart_timers u h = h\<lparr>harq_rtt_timer := 1,
     drx_retransmission_timer := (if cdrx_configured u then 0 else drx_retransmission_timer h)\<rparr>"

definition retx_dci :: "'r cell_env \<Rightarrow> nat \<Rightarrow> 'r ue \<Rightarrow> dci" where
  "retx_dci env pid u = (let h = u_harq u pid in
     \<lparr>dci_rnti = u_rnti u, dci_format = NFAPI_DL_DCI_FORMAT_1 env, aggregation_level = get_aggregation env (dl_cqi u) format1,
      harq_process = pid, dci_tpc = 1, new_data_indicator_1 = oldNDI h, mcs_1 = oldmcs1 h, redundancy_version_1 = hp_round h mod 4,
      downlink_assignment_index = (if subframeAssignment env = None then 0 else dai_field (DAI u)), dci_coding = None\<rparr>)"

definition retransmit :: "'r cell_env \<Rightarrow> nat \<Rightarrow> nat \<Rightarrow> nat \<Rightarrow> 'r cell \<Rightarrow> sched_error + 'r cell" where
  "retransmit env subframe pid i c =
     (let u = ues c i; h = u_harq u pid; nb_rb = hp_nb_rb h; tbs = get_TBS_DL (dl env) (oldmcs1 h) nb_rb in
      if nb_rb \<le> pre_nb_available_rbs u then
        let c1 = upd_ue i (upd_harq pid (\<lambda>h. (restart_timers u h)\<lparr>hp_subband :=
                   rballoc_subband (n_rb_dl env) (min_rb_unit env) (pre_nb_available_rbs u) nb_rb (rballoc_sub_UE u)\<rparr>)) c;
            c2 = count_dai (subframeAssignment env) i c1;
            d = retx_dci env pid (ues c2 i)
        in rbind
          (if CCE_allocation_infeasible env (out c2) (aggregation_level d) (u_rnti u) then Inr c2
           else if \<not> has_pdsch_config u then Inl Null_Deref
           else Inr (request_out [Dci d,
             Dlsch_Config \<lparr>dls_rnti = u_rnti u, dls_TBS = tbs, dls_index = None, dls_rv = hp_round h mod 4, dls_coding = None\<rparr>,
             Ack_Nak i] c2)) (\<lambda>c3.
          Inr (upd_ue i (upd_stats (\<lambda>s. s\<lparr>num_retransmission := num_retransmission s + 1, rbs_used_retx := nb_rb,
                 total_rbs_used_retx := total_rbs_used_retx s + nb_rb, dlsch_mcs2 := dlsch_mcs1 s\<rparr>))
               (add_ue_dlsch_info i subframe S_DL_SCHEDULED (u_rnti u) c3)))
      else Inr c)"

section \<open>New transmission\<close>

definition put_ctl :: "nat \<Rightarrow> 'r ue_ctl \<Rightarrow> 'r cell \<Rightarrow> 'r cell" where
  "put_ctl i ctl c = (upd_ue i (\<lambda>u. u\<lparr>u_ctl := ctl\<rparr>) c)\<lparr>cell_release_list := release_list ctl, cell_ra_list := ra_list ctl\<rparr>"

definition account :: "'r built \<Rightarrow> ue_stats \<Rightarrow> ue_stats" where
  "account b s = s\<lparr>st_sn := stats_sn (bt_sdus b), st_fi_ind := fi_ind (bt_sdus b),
     rbs_used := bt_nb_rb b, num_mac_sdu_tx := num_sdus (bt_sdus b), total_rbs_used := total_rbs_used s + bt_nb_rb b,
     dlsch_mcs2 := bt_mcs b, st_TBS := bt_TBS b, overhead_bytes := bt_TBS b - sdu_length_total (bt_sdus b),
     total_sdu_bytes := total_sdu_bytes s + sdu_length_total (bt_sdus b), total_pdu_bytes := total_pdu_bytes s + bt_TBS b,
     total_num_pdus := total_num_pdus s + 1\<rparr>"

definition new_dci :: "'r cell_env \<Rightarrow> nat \<Rightarrow> nat \<Rightarrow> nat \<Rightarrow> 'r ue \<Rightarrow> dci" where
  "new_dci env pid mcs tpc u = \<lparr>dci_rnti = u_rnti u, dci_format = NFAPI_DL_DCI_FORMAT_1 env,
     aggregation_level = get_aggregation env (dl_cqi u) format1, harq_process = pid, dci_tpc = tpc,
     new_data_indicator_1 = 1 - oldNDI (u_harq u pid), mcs_1 = mcs, redundancy_version_1 = 0,
     downlink_assignment_index = (if subframeAssignment env = None then 0 else dai_field (DAI u)), dci_coding = None\<rparr>"

text \<open>The part after the MAC PDU was built, up to the test for a place in the control region and from there on.\<close>

definition prepare_tx :: "'r cell_env \<Rightarrow> nat \<Rightarrow> nat \<Rightarrow> nat \<Rightarrow> nat \<Rightarrow> 'r built \<Rightarrow> 'r cell \<Rightarrow> nat \<times> 'r cell" where
  "prepare_tx env frame subframe pid i b c =
     (let c1 = upd_ue i (\<lambda>u. upd_stats (account b) (upd_harq pid (\<lambda>h. h\<lparr>hp_nb_rb := bt_nb_rb b, hp_subband := bt_subband b\<rparr>) u))
                 (put_ctl i (bt_ctl b) c);
          c2 = add_ue_dlsch_info i subframe S_DL_SCHEDULED (u_rnti (ues c i)) c1;
          c3 = count_dai (subframeAssignment env) i
                 (c2\<lparr>dlsch_bytes_tx := dlsch_bytes_tx c2 + sdu_length_total (bt_sdus b), dlsch_pdus_tx := dlsch_pdus_tx c2 + 1\<rparr>);
          (tpc, u) = pucch_tpc (puCch10xSnr env) frame subframe (ues c3 i)
      in (tpc, upd_ue i (\<lambda>_. u) c3))"

definition commit_tx :: "'r cell_env \<Rightarrow> nat \<Rightarrow> nat \<Rightarrow> 'r built \<Rightarrow> dci \<Rightarrow> 'r cell \<Rightarrow> 'r cell" where
  "commit_tx env pid i b d c =
     (let u = ues c i;
          u1 = upd_harq pid (\<lambda>h. (restart_timers u h)\<lparr>hp_round := 0, oldNDI := 1 - oldNDI h, oldmcs1 := bt_mcs b, oldmcs2 := 0\<rparr>) u;
          u2 = (if cdrx_configured u then u1\<lparr>drx_inactivity_timer := 1\<rparr> else u1)
      in (request_out [Dci d,
            Dlsch_Config \<lparr>dls_rnti = u_rnti u, dls_TBS = bt_TBS b, dls_index = Some (pdu_index c), dls_rv = 0, dls_coding = None\<rparr>,
            Tx_Req (pdu_index c) (bt_TBS b) (bt_pdu b), Ack_Nak i]
          (upd_ue i (\<lambda>_. u2) c))\<lparr>pdu_index := pdu_index c + 1\<rparr>)"

text \<open>The SDUs and the MAC PDU of UE \<open>i\<close>.\<close>

definition ue_new_sdu :: "'r cell_env \<Rightarrow> nat \<Rightarrow> nat \<Rightarrow> nat \<Rightarrow> nat \<Rightarrow> 'r cell \<Rightarrow> build_error + 'r new_result" where
  "ue_new_sdu env frame subframe pid i c =
     (let u = ues c i in
      new_sdu ((dl env)\<lparr>rnti := u_rnti u, harq_pid := pid\<rparr>) (dlsch_mcs1 (u_stats u)) (n_rb_dl env) (min_rb_unit env)
        (pre_nb_available_rbs u) (rballoc_sub_UE u) (dl_pow_off u) (frame * 10 + subframe) (st_fi_ind (u_stats u)) (st_sn (u_stats u))
        (stack env i) ((u_ctl u)\<lparr>release_list := cell_release_list c, ra_list := cell_ra_list c\<rparr>))"

definition new_tx :: "'r cell_env \<Rightarrow> nat \<Rightarrow> nat \<Rightarrow> nat \<Rightarrow> nat \<Rightarrow> 'r cell \<Rightarrow> sched_error + 'r cell" where
  "new_tx env frame subframe pid i c =
     (case ue_new_sdu env frame subframe pid i c of
        Inl e \<Rightarrow> Inl (Build_Error e)
      | Inr Does_Not_End \<Rightarrow> Inl Endless_Loop
      | Inr (No_Data ctl) \<Rightarrow> Inr (put_ctl i ctl c)
      | Inr (Built b) \<Rightarrow>
          (case prepare_tx env frame subframe pid i b c of (tpc, c1) \<Rightarrow>
             let d = new_dci env pid (bt_mcs b) tpc (ues c1 i) in
             if CCE_allocation_infeasible env (out c1) (aggregation_level d) (u_rnti (ues c i)) then Inr c1
             else if \<not> has_pdsch_config (ues c i) then Inl Pdsch_Config_Assert
             else Inr (commit_tx env pid i b d c1)))"

section \<open>One UE, and all of them\<close>

definition choose_aggregation :: "'r cell_env \<Rightarrow> nat \<Rightarrow> 'r ue \<Rightarrow> nat \<Rightarrow> sched_error + nat" where
  "choose_aggregation env i u agg =
     (if rach_resource_type u > 0 then Inr agg
      else let tm = get_tmode env i in
        if tm = 1 \<or> tm = 2 \<or> tm = 7 then Inr (get_aggregation env (dl_cqi u) format1)
        else if tm = 3 then Inr (get_aggregation env (dl_cqi u) format2A)
        else Inl (Tmode_Assert tm))"

definition begin_ue :: "'r cell_env \<Rightarrow> nat \<Rightarrow> nat \<Rightarrow> 'r ue \<Rightarrow> 'r ue" where
  "begin_ue env pid status u =
     (let u1 = upd_stats (\<lambda>s. s\<lparr>st_crnti := u_rnti u, st_rrc_status := status, st_harq_pid := pid, st_harq_round := hp_round (u_harq u pid)\<rparr>) u
      in if status < RRC_RECONFIGURED env then u1\<lparr>u_ctl := (u_ctl u1)\<lparr>uplane_inactivity_timer := 0\<rparr>\<rparr> else u1)"

definition choose_mcs :: "'r cell_env \<Rightarrow> nat \<Rightarrow> 'r ue \<Rightarrow> 'r ue" where
  "choose_mcs env pid u =
     upd_harq pid (\<lambda>h. h\<lparr>hp_subband := replicate (n_rbg env) False\<rparr>)
       (upd_stats (\<lambda>s. s\<lparr>dlsch_mcs1 := (if monolithic env then min (dlsch_mcs1 s) (maxmcs env) else cqi_to_mcs env (dl_cqi u))\<rparr>) u)"

definition tdd_dai :: "nat option \<Rightarrow> nat \<Rightarrow> 'r ue \<Rightarrow> 'r ue" where
  "tdd_dai tdd subframe u = (case tdd of None \<Rightarrow> u | Some sfa \<Rightarrow> set_ul_DAI tdd subframe (set_ue_dai subframe sfa u))"

definition schedule_ue :: "'r cell_env \<Rightarrow> nat \<Rightarrow> nat \<Rightarrow> nat \<Rightarrow> nat \<times> 'r cell \<Rightarrow> sched_error + nat \<times> 'r cell" where
  "schedule_ue env frame subframe i st = (case st of (agg0, c) \<Rightarrow>
     rbind (choose_aggregation env i (ues c i) agg0) (\<lambda>agg.
       let u = ues c i; tdd = subframeAssignment env;
           skip = (rach_resource_type u > 0 \<or> pre_nb_available_rbs u = 0 \<or> CCE_allocation_infeasible env (out c) agg (u_rnti u));
           c1 = upd_ue i (tdd_dai tdd subframe) c
       in if skip then Inr (agg, add_ue_dlsch_info i subframe S_DL_NONE (u_rnti u) c1)
          else
            let pid = frame_subframe2_dl_harq_pid env frame subframe; status = mac_eNB_get_rrc_status env (u_rnti u);
                c2 = upd_ue i (begin_ue env pid status) c1
            in if status < RRC_CONNECTED env then Inr (agg, c2)
               else
                 let c3 = upd_ue i (choose_mcs env pid) c2
                 in rbind (if hp_round (u_harq u pid) \<noteq> 8 then retransmit env subframe pid i c3
                           else new_tx env frame subframe pid i c3) (\<lambda>c4.
                      Inr (agg, upd_ue i (set_ul_DAI tdd subframe) c4))))"

text \<open>The frequency allocation of the requests of every UE that was scheduled. \<^verbatim>\<open>nb_rb\<close> has eight bits.\<close>

definition fill_request :: "nat \<Rightarrow> nat \<Rightarrow> request \<Rightarrow> request" where
  "fill_request r coding q = (case q of
     Dci d \<Rightarrow> if dci_rnti d = r \<and> dci_format d \<noteq> 1 then Dci (d\<lparr>dci_coding := Some coding\<rparr>) else q
   | Dlsch_Config d \<Rightarrow> if dls_rnti d = r then Dlsch_Config (d\<lparr>dls_coding := Some coding\<rparr>) else q
   | _ \<Rightarrow> q)"

definition fill_ue :: "'r cell_env \<Rightarrow> nat \<Rightarrow> nat \<Rightarrow> 'r cell \<Rightarrow> 'r cell" where
  "fill_ue env pid i c =
     (if inf_status (infos c i) = S_DL_SCHEDULED then
        let h = u_harq (ues c i) pid; coding = allocate_prbs_sub env (hp_nb_rb h mod 256) (hp_subband h) in
        c\<lparr>infos := (infos c)(i := (infos c i)\<lparr>inf_status := S_DL_WAITING\<rparr>),
          out := map (fill_request (u_rnti (ues c i)) coding) (out c)\<rparr>
      else c)"

definition fill_DLSCH_dci :: "'r cell_env \<Rightarrow> nat \<Rightarrow> nat \<Rightarrow> bool \<Rightarrow> nat list \<Rightarrow> 'r cell \<Rightarrow> 'r cell" where
  "fill_DLSCH_dci env frame subframe mbsfn ids c =
     (if mbsfn then c else fold (fill_ue env (frame_subframe2_dl_harq_pid env frame subframe)) ids c)"

definition schedule_ue_spec ::
  "'r cell_env \<Rightarrow> bool \<Rightarrow> nat \<Rightarrow> nat \<Rightarrow> bool \<Rightarrow> nat list \<Rightarrow> 'r cell \<Rightarrow> sched_error + 'r cell" where
  "schedule_ue_spec env pmch frame subframe mbsfn ids c =
     (if pmch \<or> tdd_returns (subframeAssignment env) subframe then Inr c
      else
        let c1 = pre_processor env (c\<lparr>dlsch_bytes_tx := 0, dlsch_pdus_tx := 0\<rparr>) in
        rbind (if mbsfn then Inr (2, c1) else rfold (schedule_ue env frame subframe) ids (2, c1)) (\<lambda>(agg, c2).
          Inr (fill_DLSCH_dci env frame subframe mbsfn ids c2)))"

text \<open>Where the physical layer finds the payload of a transmission.\<close>

datatype sdu_ptr = BCCH_pdu | PCCH_pdu | DLSCH_pdu nat nat

definition get_dlsch_sdu :: "nat \<Rightarrow> nat \<Rightarrow> (nat \<Rightarrow> nat option) \<Rightarrow> nat \<Rightarrow> nat \<Rightarrow> sdu_ptr option" where
  "get_dlsch_sdu SI_RNTI P_RNTI find_UE_id r TBindex =
     (if r = SI_RNTI then Some BCCH_pdu
      else if r = P_RNTI then Some PCCH_pdu
      else map_option (\<lambda>i. DLSCH_pdu i TBindex) (find_UE_id r))"

section \<open>Specification\<close>

text \<open>The DCI elements among the requests, without the frequency allocation that is filled in at the end.\<close>

fun dcis :: "request list \<Rightarrow> dci list" where
  "dcis [] = []"
| "dcis (Dci d # rs) = d\<lparr>dci_coding := None\<rparr> # dcis rs"
| "dcis (_ # rs) = dcis rs"

definition dcis_of :: "nat \<Rightarrow> request list \<Rightarrow> dci list" where
  "dcis_of r rs = filter (\<lambda>d. dci_rnti d = r) (dcis rs)"

text \<open>A DCI that fits the state of its HARQ process: a retransmission of the same block with the redundancy version
  of the round, or new data, announced by the other value of the indicator.\<close>

definition dci_ok :: "harq_proc \<Rightarrow> dci \<Rightarrow> bool" where
  "dci_ok h d \<longleftrightarrow>
     hp_round h \<noteq> 8 \<and> new_data_indicator_1 d = oldNDI h \<and> mcs_1 d = oldmcs1 h \<and> redundancy_version_1 d = hp_round h mod 4 \<or>
     hp_round h = 8 \<and> new_data_indicator_1 d = 1 - oldNDI h \<and> redundancy_version_1 d = 0"

definition ndi_mcs :: "harq_proc \<Rightarrow> int \<times> nat" where
  "ndi_mcs h = (oldNDI h, oldmcs1 h)"

text \<open>What one UE's turn may do: at most one DCI, for its own process, and the process remembers it.\<close>

definition turn_ok :: "nat \<Rightarrow> nat \<Rightarrow> 'r cell \<Rightarrow> 'r cell \<Rightarrow> bool" where
  "turn_ok pid i c c' \<longleftrightarrow>
     (\<forall>j. j \<noteq> i \<longrightarrow> ues c' j = ues c j) \<and> u_rnti (ues c' i) = u_rnti (ues c i) \<and>
     (\<exists>ds. dcis (out c') = dcis (out c) @ ds \<and>
        (ds = [] \<and> ndi_mcs (u_harq (ues c' i) pid) = ndi_mcs (u_harq (ues c i) pid) \<or>
         (\<exists>d. ds = [d] \<and> dci_rnti d = u_rnti (ues c i) \<and> harq_process d = pid \<and> dci_ok (u_harq (ues c i) pid) d \<and>
            ndi_mcs (u_harq (ues c' i) pid) = (new_data_indicator_1 d, mcs_1 d))))"

text \<open>What a UE sees of the cell, and how this changes in a subframe.\<close>

definition ue_view :: "nat \<Rightarrow> nat \<Rightarrow> 'r cell \<Rightarrow> (nat \<Rightarrow> harq_proc) \<times> dci list" where
  "ue_view i r c = (u_harq (ues c i), dcis_of r (out c))"

definition served :: "nat \<Rightarrow> (nat \<Rightarrow> harq_proc) \<times> dci list \<Rightarrow> (nat \<Rightarrow> harq_proc) \<times> dci list \<Rightarrow> bool" where
  "served pid v v' \<longleftrightarrow>
     (\<exists>ds. snd v' = snd v @ ds \<and>
        (ds = [] \<and> ndi_mcs (fst v' pid) = ndi_mcs (fst v pid) \<or>
         (\<exists>d. ds = [d] \<and> harq_process d = pid \<and> dci_ok (fst v pid) d \<and>
            ndi_mcs (fst v' pid) = (new_data_indicator_1 d, mcs_1 d))))"

text \<open>The pre-processor assigns resource blocks; it neither sends nor touches the HARQ processes.\<close>

definition pre_keeps :: "'r cell_env \<Rightarrow> bool" where
  "pre_keeps env \<longleftrightarrow> (\<forall>c. out (pre_processor env c) = out c \<and>
     (\<forall>i. u_rnti (ues (pre_processor env c) i) = u_rnti (ues c i) \<and> u_harq (ues (pre_processor env c) i) = u_harq (ues c i)))"

text \<open>The subframes of a TDD frame (TS 36.211, table 4.2-2): downlink, special and uplink.\<close>

definition tdd_table :: "string list" where
  "tdd_table = [''DSUUUDSUUU'', ''DSUUDDSUUD'', ''DSUDDDSUDD'', ''DSUUUDDDDD'', ''DSUUDDDDDD'', ''DSUDDDDDDD'', ''DSUUUDSUUD'']"

text \<open>Sample data: two UEs, the first with a block that was not acknowledged, the second with new data of bearer 5.\<close>

definition demo_stats :: ue_stats where
  "demo_stats = \<lparr>st_crnti = 0, st_rrc_status = 0, st_harq_pid = 0, st_harq_round = 0, dlsch_mcs1 = 9, dlsch_mcs2 = 0, st_sn = 41,
     st_fi_ind = 0, num_retransmission = 0, rbs_used_retx = 0, total_rbs_used_retx = 0, rbs_used = 0, num_mac_sdu_tx = 0,
     total_rbs_used = 0, st_TBS = 0, overhead_bytes = 0, total_sdu_bytes = 0, total_pdu_bytes = 0, total_num_pdus = 0\<rparr>"

definition demo_user :: "nat \<Rightarrow> nat \<Rightarrow> unit ue" where
  "demo_user i k = \<lparr>u_rnti = i, u_ctl = demo_ue,
     u_harq = (\<lambda>_. \<lparr>hp_round = k, hp_nb_rb = 4, oldNDI = 1, oldmcs1 = 5, oldmcs2 = 0, harq_rtt_timer = 0,
       drx_retransmission_timer = 0, hp_subband = []\<rparr>),
     u_stats = demo_stats, DAI = 0, DAI_ul = (\<lambda>_. 0), pucch_tpc_tx_frame = 0, pucch_tpc_tx_subframe = 0, pucch1_snr = 150,
     pucch1_cqi_update = 1, dl_cqi = 12, pre_nb_available_rbs = 6, rballoc_sub_UE = [True, True, False, True], dl_pow_off = 2,
     cdrx_configured = False, drx_inactivity_timer = 0, rach_resource_type = 0, has_pdsch_config = True\<rparr>"

definition demo_cell :: "unit cell" where
  "demo_cell = \<lparr>ues = (\<lambda>i. demo_user i (if i = 0 then 3 else 8)), out = [], pdu_index = 0,
     infos = (\<lambda>_. \<lparr>inf_rnti = 0, inf_subframe = 0, inf_status = S_DL_NONE, serving_num = 0\<rparr>), hi_dci0_list = [],
     dlsch_bytes_tx = 0, dlsch_pdus_tx = 0, cell_release_list = [], cell_ra_list = []\<rparr>"

definition demo_env :: "nat \<Rightarrow> (nat \<Rightarrow> bool) \<Rightarrow> unit cell_env" where
  "demo_env tm full = \<lparr>dl = demo_dl\<lparr>rlc_status := (\<lambda>c n r. (if c = 5 \<and> 3 \<le> n then 3 else 0, r)), rlc_data := (\<lambda>c r. ([0, 1, 9], r))\<rparr>,
     get_tmode = (\<lambda>_. tm), get_aggregation = (\<lambda>_ k. case k of format1 \<Rightarrow> 1 | format2A \<Rightarrow> 2), CCE_allocation_infeasible = (\<lambda>rs a r. full a),
     frame_subframe2_dl_harq_pid = (\<lambda>f sf. (10 * f + sf) mod 8), mac_eNB_get_rrc_status = (\<lambda>_. 4), RRC_CONNECTED = 3,
     RRC_RECONFIGURED = 4, cqi_to_mcs = (\<lambda>q. q), monolithic = True, maxmcs = 28, subframeAssignment = None, n_rb_dl = 25,
     n_rbg = 4, min_rb_unit = 2, puCch10xSnr = 200, NFAPI_DL_DCI_FORMAT_1 = 0, allocate_prbs_sub = (\<lambda>n b. n), stack = (\<lambda>_. replicate 64 0),
     pre_processor = (\<lambda>c. c)\<rparr>"

definition demo_picked :: pick where
  "demo_picked = \<lparr>pick_buf = [0, 1, 9, 0, 1, 9, 0, 1, 9] @ replicate 55 0, pick_sdus = [(5, 3), (5, 3), (5, 3)], header_length_last = 2,
      header_length_total = 6, pick_total = 9\<rparr>"

section \<open>Lemmas\<close>

lemma dcis_append [simp]: "dcis (xs @ ys) = dcis xs @ dcis ys"
  by (induction xs rule: dcis.induct) auto

lemma dcis_fill [simp]: "dcis (map (fill_request r coding) rs) = dcis rs"
  by (induction rs rule: dcis.induct) (auto simp: fill_request_def)

lemma upd_simps [simp]:
  "ues (upd_ue i f c) = (ues c)(i := f (ues c i))" "out (upd_ue i f c) = out c"
  "u_rnti (upd_harq pid g u) = u_rnti u" "u_harq (upd_harq pid g u) = (u_harq u)(pid := g (u_harq u pid))"
  "u_rnti (upd_stats k u) = u_rnti u" "u_harq (upd_stats k u) = u_harq u" "u_stats (upd_stats k u) = k (u_stats u)"
  "u_ctl (upd_stats k u) = u_ctl u" "u_ctl (upd_harq pid g u) = u_ctl u" "u_stats (upd_harq pid g u) = u_stats u"
  "dl_cqi (upd_stats k u) = dl_cqi u" "dl_cqi (upd_harq pid g u) = dl_cqi u"
  "out (add_ue_dlsch_info i sf s r c) = out c" "ues (add_ue_dlsch_info i sf s r c) = ues c"
  "out (request_out rs c) = out c @ rs" "ues (request_out rs c) = ues c"
  "out (put_ctl i ctl c) = out c" "ues (put_ctl i ctl c) = (ues c)(i := (ues c i)\<lparr>u_ctl := ctl\<rparr>)"
  "oldNDI (restart_timers u h) = oldNDI h" "oldmcs1 (restart_timers u h) = oldmcs1 h" "hp_round (restart_timers u h) = hp_round h"
  by (simp_all add: upd_ue_def upd_harq_def upd_stats_def add_ue_dlsch_info_def request_out_def put_ctl_def restart_timers_def)

lemma count_dai_simps [simp]:
  "out (count_dai tdd i c) = out c" "ues (count_dai tdd i c) j = (if j = i \<and> tdd \<noteq> None then (ues c i)\<lparr>DAI := (DAI (ues c i) + 1) mod 256\<rparr> else ues c j)"
  by (auto simp: count_dai_def Let_def)

lemma dai_keeps [simp]:
  "u_rnti (set_ul_DAI tdd sf u) = u_rnti u" "u_harq (set_ul_DAI tdd sf u) = u_harq u"
  "u_rnti (tdd_dai tdd sf u) = u_rnti u" "u_harq (tdd_dai tdd sf u) = u_harq u"
  "dl_cqi (tdd_dai tdd sf u) = dl_cqi u" "u_stats (tdd_dai tdd sf u) = u_stats u" "u_stats (set_ul_DAI tdd sf u) = u_stats u"
  by (auto simp: set_ul_DAI_def tdd_dai_def set_ue_dai_def Let_def split: option.splits)

lemma begin_keeps [simp]:
  "u_rnti (begin_ue env pid s u) = u_rnti u" "u_harq (begin_ue env pid s u) = u_harq u" "u_rnti (choose_mcs env pid u) = u_rnti u"
  "ndi_mcs (u_harq (choose_mcs env pid u) pid) = ndi_mcs (u_harq u pid)" "dci_ok (u_harq (choose_mcs env pid u) pid) d = dci_ok (u_harq u pid) d"
  "hp_round (u_harq (choose_mcs env pid u) pid) = hp_round (u_harq u pid)"
  "dl_cqi (choose_mcs env pid u) = dl_cqi u" "dl_cqi (begin_ue env pid s u) = dl_cqi u"
  "st_sn (u_stats (choose_mcs env pid u)) = st_sn (u_stats u)" "st_sn (u_stats (begin_ue env pid s u)) = st_sn (u_stats u)"
  by (simp_all add: begin_ue_def choose_mcs_def Let_def ndi_mcs_def dci_ok_def)

lemma pucch_keeps:
  assumes "pucch_tpc t f sf u = (tpc, u')"
  shows "u_rnti u' = u_rnti u" "u_harq u' = u_harq u" "u_ctl u' = u_ctl u" "u_stats u' = u_stats u" "dl_cqi u' = dl_cqi u"
  using assms by (auto simp: pucch_tpc_def Let_def split: if_splits)

lemma turn_ok_retransmit:
  assumes "retransmit env sf pid i c = Inr c'" and "hp_round (u_harq (ues c i) pid) \<noteq> 8"
  shows "turn_ok pid i c c'"
  using assms
  by (auto simp: retransmit_def Let_def rbind_Inr_conv turn_ok_def retx_dci_def ndi_mcs_def dci_ok_def split: if_splits)

lemma prepare_tx_keeps:
  assumes "prepare_tx env f sf pid i b c = (tpc, c1)"
  shows "out c1 = out c" "j \<noteq> i \<Longrightarrow> ues c1 j = ues c j" "u_rnti (ues c1 i) = u_rnti (ues c i)"
    "oldNDI (u_harq (ues c1 i) pid) = oldNDI (u_harq (ues c i) pid)" "oldmcs1 (u_harq (ues c1 i) pid) = oldmcs1 (u_harq (ues c i) pid)"
    "hp_round (u_harq (ues c1 i) pid) = hp_round (u_harq (ues c i) pid)"
    "u_ctl (ues c1 i) = bt_ctl b" "st_sn (u_stats (ues c1 i)) = stats_sn (bt_sdus b)"
    "dl_cqi (ues c1 i) = dl_cqi (ues c i)"
proof -
  obtain c3 u where 3: "pucch_tpc (puCch10xSnr env) f sf (ues c3 i) = (tpc, u)" "c1 = upd_ue i (\<lambda>_. u) c3" "out c3 = out c"
      "\<And>j. j \<noteq> i \<Longrightarrow> ues c3 j = ues c j" "u_rnti (ues c3 i) = u_rnti (ues c i)" "u_ctl (ues c3 i) = bt_ctl b"
      "st_sn (u_stats (ues c3 i)) = stats_sn (bt_sdus b)" "oldNDI (u_harq (ues c3 i) pid) = oldNDI (u_harq (ues c i) pid)"
      "oldmcs1 (u_harq (ues c3 i) pid) = oldmcs1 (u_harq (ues c i) pid)" "hp_round (u_harq (ues c3 i) pid) = hp_round (u_harq (ues c i) pid)"
      "dl_cqi (ues c3 i) = dl_cqi (ues c i)"
  proof (rule that)
    let ?c1 = "upd_ue i (\<lambda>u. upd_stats (account b) (upd_harq pid (\<lambda>h. h\<lparr>hp_nb_rb := bt_nb_rb b, hp_subband := bt_subband b\<rparr>) u))
      (put_ctl i (bt_ctl b) c)"
    let ?c2 = "add_ue_dlsch_info i sf S_DL_SCHEDULED (u_rnti (ues c i)) ?c1"
    let ?c3 = "count_dai (subframeAssignment env) i
      (?c2\<lparr>dlsch_bytes_tx := dlsch_bytes_tx ?c2 + sdu_length_total (bt_sdus b), dlsch_pdus_tx := dlsch_pdus_tx ?c2 + 1\<rparr>)"
    show "pucch_tpc (puCch10xSnr env) f sf (ues ?c3 i) = (tpc, snd (pucch_tpc (puCch10xSnr env) f sf (ues ?c3 i)))"
      "c1 = upd_ue i (\<lambda>_. snd (pucch_tpc (puCch10xSnr env) f sf (ues ?c3 i))) ?c3"
      using assms unfolding prepare_tx_def Let_def by (auto split: prod.splits)
  qed (simp_all add: account_def)
  note k = pucch_keeps [OF 3(1)]
  show "out c1 = out c" "j \<noteq> i \<Longrightarrow> ues c1 j = ues c j" "u_rnti (ues c1 i) = u_rnti (ues c i)"
    "oldNDI (u_harq (ues c1 i) pid) = oldNDI (u_harq (ues c i) pid)" "oldmcs1 (u_harq (ues c1 i) pid) = oldmcs1 (u_harq (ues c i) pid)"
    "hp_round (u_harq (ues c1 i) pid) = hp_round (u_harq (ues c i) pid)"
    "u_ctl (ues c1 i) = bt_ctl b" "st_sn (u_stats (ues c1 i)) = stats_sn (bt_sdus b)" "dl_cqi (ues c1 i) = dl_cqi (ues c i)"
    using 3 k by simp_all
qed

lemma turn_ok_new_tx:
  assumes "new_tx env f sf pid i c = Inr c'" and "hp_round (u_harq (ues c i) pid) = 8"
  shows "turn_ok pid i c c'"
proof -
  consider (none) ctl where "c' = put_ctl i ctl c"
    | (built) b tpc c1 where "prepare_tx env f sf pid i b c = (tpc, c1)" "c' = c1 \<or> c' = commit_tx env pid i b (new_dci env pid (bt_mcs b) tpc (ues c1 i)) c1"
    using assms(1) by (auto simp: new_tx_def Let_def split: sum.splits new_result.splits prod.splits if_splits)
  then show ?thesis
  proof cases
    case none
    then show ?thesis by (simp add: turn_ok_def)
  next
    case built
    note k = prepare_tx_keeps [OF built(1)]
    from built(2) show ?thesis
    proof
      assume "c' = c1"
      then show ?thesis using k by (simp add: turn_ok_def ndi_mcs_def)
    next
      assume "c' = commit_tx env pid i b (new_dci env pid (bt_mcs b) tpc (ues c1 i)) c1"
      then show ?thesis using k assms(2)
        by (auto simp: turn_ok_def commit_tx_def new_dci_def Let_def ndi_mcs_def dci_ok_def)
    qed
  qed
qed

text \<open>Changes before and after a turn that concern neither the process nor the requests.\<close>

lemma turn_ok_frame:
  assumes "turn_ok pid i c1 c2"
    and "out c1 = out c" "out c' = out c2" and "\<And>j. j \<noteq> i \<Longrightarrow> ues c1 j = ues c j \<and> ues c' j = ues c2 j"
    and "u_rnti (ues c1 i) = u_rnti (ues c i)" "u_rnti (ues c' i) = u_rnti (ues c2 i)"
    and "ndi_mcs (u_harq (ues c1 i) pid) = ndi_mcs (u_harq (ues c i) pid)" "ndi_mcs (u_harq (ues c' i) pid) = ndi_mcs (u_harq (ues c2 i) pid)"
    and "\<And>d. dci_ok (u_harq (ues c1 i) pid) d = dci_ok (u_harq (ues c i) pid) d"
  shows "turn_ok pid i c c'"
  using assms unfolding turn_ok_def by simp

text \<open>The four ways through a turn.\<close>

definition turn_start :: "'r cell_env \<Rightarrow> nat \<Rightarrow> nat \<Rightarrow> nat \<Rightarrow> 'r cell \<Rightarrow> 'r cell" where
  "turn_start env pid subframe i c = upd_ue i (choose_mcs env pid \<circ> begin_ue env pid (mac_eNB_get_rrc_status env (u_rnti (ues c i))) \<circ>
     tdd_dai (subframeAssignment env) subframe) c"

lemma turn_start_simps [simp]:
  "out (turn_start env pid sf i c) = out c" "j \<noteq> i \<Longrightarrow> ues (turn_start env pid sf i c) j = ues c j"
  "u_rnti (ues (turn_start env pid sf i c) i) = u_rnti (ues c i)"
  "ndi_mcs (u_harq (ues (turn_start env pid sf i c) i) pid) = ndi_mcs (u_harq (ues c i) pid)"
  "dci_ok (u_harq (ues (turn_start env pid sf i c) i) pid) d = dci_ok (u_harq (ues c i) pid) d"
  "hp_round (u_harq (ues (turn_start env pid sf i c) i) pid) = hp_round (u_harq (ues c i) pid)"
  "dl_cqi (ues (turn_start env pid sf i c) i) = dl_cqi (ues c i)"
  "st_sn (u_stats (ues (turn_start env pid sf i c) i)) = st_sn (u_stats (ues c i))"
  by (simp_all add: turn_start_def)

lemma schedule_ue_cases:
  assumes "schedule_ue env frame sf i (agg, c) = Inr (agg', c')" and "pid = frame_subframe2_dl_harq_pid env frame sf"
  obtains (idle) u where "c' = upd_ue i (\<lambda>_. u) c \<or> c' = add_ue_dlsch_info i sf S_DL_NONE (u_rnti (ues c i)) (upd_ue i (\<lambda>_. u) c)"
      "u_rnti u = u_rnti (ues c i)" "u_harq u = u_harq (ues c i)" "st_sn (u_stats u) = st_sn (u_stats (ues c i))"
  | (retx) c4 where "hp_round (u_harq (ues c i) pid) \<noteq> 8" "retransmit env sf pid i (turn_start env pid sf i c) = Inr c4"
      "c' = upd_ue i (set_ul_DAI (subframeAssignment env) sf) c4"
  | (new) c4 where "hp_round (u_harq (ues c i) pid) = 8" "new_tx env frame sf pid i (turn_start env pid sf i c) = Inr c4"
      "c' = upd_ue i (set_ul_DAI (subframeAssignment env) sf) c4" "\<not> CCE_allocation_infeasible env (out c) agg' (u_rnti (ues c i))"
      "choose_aggregation env i (ues c i) agg = Inr agg'" "rach_resource_type (ues c i) = 0"
proof -
  let ?tdd = "subframeAssignment env" and ?st = "mac_eNB_get_rrc_status env (u_rnti (ues c i))"
  let ?u1 = "tdd_dai ?tdd sf (ues c i)"
  let ?u2 = "begin_ue env pid ?st ?u1"
  have upd: "upd_ue i f (upd_ue i g c) = upd_ue i (f \<circ> g) c" "upd_ue i f c = upd_ue i (\<lambda>_. f (ues c i)) c" for f g by (simp_all add: upd_ue_def)
  let ?skip = "0 < rach_resource_type (ues c i) \<or> pre_nb_available_rbs (ues c i) = 0 \<or> CCE_allocation_infeasible env (out c) agg' (u_rnti (ues c i))"
  obtain agg1 where a: "choose_aggregation env i (ues c i) agg = Inr agg1"
    using assms(1) unfolding schedule_ue_def prod.case by (elim rbind_InrE)
  have start: "turn_start env pid sf i c = upd_ue i (choose_mcs env pid) (upd_ue i (begin_ue env pid ?st) (upd_ue i (tdd_dai ?tdd sf) c))"
    by (simp add: turn_start_def upd(1) comp_assoc)
  have idle_eq: "upd_ue i (begin_ue env pid ?st) (upd_ue i (tdd_dai ?tdd sf) c) = upd_ue i (\<lambda>_. ?u2) c" by (simp add: upd_ue_def)
  note body = assms(1) [unfolded schedule_ue_def prod.case a rbind_simps Let_def, folded assms(2) start]
  consider (skip) "?skip" "agg1 = agg'" | (idle) "\<not> ?skip" "?st < RRC_CONNECTED env" "agg1 = agg'" | (go) "\<not> ?skip" "\<not> ?st < RRC_CONNECTED env" "agg1 = agg'"
    using body by (auto simp: rbind_Inr_conv split: if_split_asm)
  then show ?thesis
  proof cases
    case skip
    then have "c' = add_ue_dlsch_info i sf S_DL_NONE (u_rnti (ues c i)) (upd_ue i (\<lambda>_. ?u1) c)"
      using body upd(2) [of "tdd_dai ?tdd sf"] by simp
    then show ?thesis using that(1) [of ?u1] by simp
  next
    case idle
    then have "c' = upd_ue i (\<lambda>_. ?u2) c" using body unfolding idle_eq by simp
    then show ?thesis using that(1) [of ?u2] by simp
  next
    case go
    then obtain c4 where c4: "(if hp_round (u_harq (ues c i) pid) \<noteq> 8 then retransmit env sf pid i (turn_start env pid sf i c)
        else new_tx env frame sf pid i (turn_start env pid sf i c)) = Inr c4" "c' = upd_ue i (set_ul_DAI ?tdd sf) c4"
      using body unfolding start [symmetric] by (auto simp: rbind_Inr_conv)
    show ?thesis
    proof (cases "hp_round (u_harq (ues c i) pid) = 8")
      case True
      then show ?thesis using that(3) [of c4] c4 go a by simp
    next
      case False
      then show ?thesis using that(2) [of c4] c4 by simp
    qed
  qed
qed

lemma turn_ok_schedule_ue:
  assumes "schedule_ue env frame sf i (agg, c) = Inr (agg', c')"
  shows "turn_ok (frame_subframe2_dl_harq_pid env frame sf) i c c'"
  using assms
proof (cases rule: schedule_ue_cases [OF assms refl, case_names idle retx new])
  case idle
  then show ?thesis by (auto simp: turn_ok_def)
next
  case (retx c4)
  then have "turn_ok (frame_subframe2_dl_harq_pid env frame sf) i (turn_start env (frame_subframe2_dl_harq_pid env frame sf) sf i c) c4"
    by (intro turn_ok_retransmit) simp_all
  then show ?thesis by (rule turn_ok_frame) (use retx(3) in simp_all)
next
  case (new c4)
  then have "turn_ok (frame_subframe2_dl_harq_pid env frame sf) i (turn_start env (frame_subframe2_dl_harq_pid env frame sf) sf i c) c4"
    by (intro turn_ok_new_tx) simp_all
  then show ?thesis by (rule turn_ok_frame) (use new(3) in simp_all)
qed

lemma turn_ok_other: "turn_ok pid j c c' \<Longrightarrow> j \<noteq> i \<Longrightarrow> r \<noteq> u_rnti (ues c j) \<Longrightarrow> ue_view i r c' = ue_view i r c"
  by (auto simp: turn_ok_def ue_view_def dcis_of_def)

lemma turn_ok_served: "turn_ok pid i c c' \<Longrightarrow> served pid (ue_view i (u_rnti (ues c i)) c) (ue_view i (u_rnti (ues c i)) c')"
  unfolding turn_ok_def served_def ue_view_def dcis_of_def by fastforce

lemma turn_ok_rnti: "turn_ok pid i c c' \<Longrightarrow> u_rnti (ues c' k) = u_rnti (ues c k)"
  by (cases "k = i") (simp_all add: turn_ok_def)

text \<open>The loop over the UEs, seen from UE \<open>i\<close>: \<open>rs\<close> are the RNTIs, and no other UE has that of \<open>i\<close>.\<close>

interpretation ue_loop: turns "schedule_ue env frame sf" "\<lambda>s. \<forall>k. u_rnti (ues (snd s) k) = rs k" "\<lambda>j. j = i \<or> rs j \<noteq> rs i" i
    "\<lambda>s. ue_view i (rs i) (snd s)" "served (frame_subframe2_dl_harq_pid env frame sf)" for env frame sf rs i
proof unfold_locales
  fix j s s' assume s: "\<forall>k. u_rnti (ues (snd s) k) = rs k" "schedule_ue env frame sf j s = Inr s'"
  then have t: "turn_ok (frame_subframe2_dl_harq_pid env frame sf) j (snd s) (snd s')"
    using turn_ok_schedule_ue [of env frame sf j "fst s" "snd s" "fst s'" "snd s'"] by simp
  then show "\<forall>k. u_rnti (ues (snd s') k) = rs k" using s(1) by (simp add: turn_ok_rnti)
  show "ue_view i (rs i) (snd s') = ue_view i (rs i) (snd s)" if "j = i \<or> rs j \<noteq> rs i" "j \<noteq> i"
    using turn_ok_other [OF t that(2), of "rs i"] that s(1) by auto
next
  fix s s' assume s: "\<forall>k. u_rnti (ues (snd s) k) = rs k" "schedule_ue env frame sf i s = Inr s'"
  then have "turn_ok (frame_subframe2_dl_harq_pid env frame sf) i (snd s) (snd s')"
    using turn_ok_schedule_ue [of env frame sf i "fst s" "snd s" "fst s'" "snd s'"] by simp
  then show "served (frame_subframe2_dl_harq_pid env frame sf) (ue_view i (rs i) (snd s)) (ue_view i (rs i) (snd s'))"
    using turn_ok_served s(1) by fastforce
qed

lemma fill_keeps: "ues (fold (fill_ue env pid) ids c) = ues c \<and> dcis (out (fold (fill_ue env pid) ids c)) = dcis (out c)"
  by (induction ids arbitrary: c) (simp_all add: fill_ue_def Let_def)

lemma fill_none_scheduled:
  "(\<forall>i\<in>set ids. inf_status (infos (fold (fill_ue env pid) ids c) i) \<noteq> S_DL_SCHEDULED) \<and>
   (\<forall>i. inf_status (infos c i) \<noteq> S_DL_SCHEDULED \<longrightarrow> inf_status (infos (fold (fill_ue env pid) ids c) i) \<noteq> S_DL_SCHEDULED)"
proof (induction ids arbitrary: c)
  case (Cons j ids)
  have "inf_status (infos (fill_ue env pid j c) j) \<noteq> S_DL_SCHEDULED"
    "\<And>i. inf_status (infos c i) \<noteq> S_DL_SCHEDULED \<Longrightarrow> inf_status (infos (fill_ue env pid j c) i) \<noteq> S_DL_SCHEDULED"
    by (simp_all add: fill_ue_def Let_def)
  then show ?case using Cons.IH [of "fill_ue env pid j c"] by simp
qed simp

section \<open>Properties\<close>

text \<open>C4. HARQ: in one subframe a UE gets at most one DCI, for the process of that subframe, and it fits the process:
  while a block is not acknowledged (its round is not 8) the DCI repeats new data indicator and scheme of the last one,
  with the redundancy version of the round; otherwise it announces new data by the other value of the indicator. The
  process remembers indicator and scheme of what was sent, so the next DCI is compared with this one. A UE without
  DCI keeps them. Afterwards no UE is marked as scheduled.\<close>

theorem harq_indicator:
  assumes "schedule_ue_spec env False frame subframe False ids c = Inr c'" and "\<not> tdd_returns (subframeAssignment env) subframe"
    and "pre_keeps env" and "distinct ids" and "i \<in> set ids" and "\<forall>j\<in>set ids. j \<noteq> i \<longrightarrow> u_rnti (ues c j) \<noteq> u_rnti (ues c i)"
    and "pid = frame_subframe2_dl_harq_pid env frame subframe" and "h = u_harq (ues c i) pid" and "h' = u_harq (ues c' i) pid"
  shows "(\<exists>ds. dcis_of (u_rnti (ues c i)) (out c') = dcis_of (u_rnti (ues c i)) (out c) @ ds \<and>
      (ds = [] \<and> oldNDI h' = oldNDI h \<and> oldmcs1 h' = oldmcs1 h \<or>
       (\<exists>d. ds = [d] \<and> harq_process d = pid \<and> oldNDI h' = new_data_indicator_1 d \<and> oldmcs1 h' = mcs_1 d \<and>
         (if hp_round h \<noteq> 8
          then new_data_indicator_1 d = oldNDI h \<and> mcs_1 d = oldmcs1 h \<and> redundancy_version_1 d = hp_round h mod 4
          else new_data_indicator_1 d = 1 - oldNDI h \<and> redundancy_version_1 d = 0)))) \<and>
    (\<forall>j\<in>set ids. inf_status (infos c' j) \<noteq> S_DL_SCHEDULED)"
proof -
  let ?c = "pre_processor env (c\<lparr>dlsch_bytes_tx := 0, dlsch_pdus_tx := 0\<rparr>)"
  have pre: "out ?c = out c" "u_rnti (ues ?c j) = u_rnti (ues c j)" "u_harq (ues ?c j) = u_harq (ues c j)" for j
    using assms(3) unfolding pre_keeps_def by simp_all
  obtain agg c2 where 2: "rfold (schedule_ue env frame subframe) ids (2, ?c) = Inr (agg, c2)" "c' = fold (fill_ue env pid) ids c2"
    using assms(1,2,7) by (auto simp: schedule_ue_spec_def rbind_Inr_conv fill_DLSCH_dci_def Let_def)
  let ?rs = "\<lambda>k. u_rnti (ues c k)"
  have "list_all (\<lambda>j. j = i \<or> ?rs j \<noteq> ?rs i) ids" using assms(6) by (auto simp: list_all_iff)
  from ue_loop.one_turn [OF this assms(4,5) _ 2(1)] have "served pid (ue_view i (?rs i) ?c) (ue_view i (?rs i) c2)"
    using pre unfolding assms(7) by simp
  moreover have "ues c' = ues c2" "dcis (out c') = dcis (out c2)" using fill_keeps 2(2) by auto
  ultimately have "served pid (ue_view i (?rs i) c) (ue_view i (?rs i) c')" using pre unfolding ue_view_def dcis_of_def by simp
  then show ?thesis using fill_none_scheduled [of ids env pid c2] 2(2)
    unfolding served_def ue_view_def dci_ok_def ndi_mcs_def assms(8,9) by fastforce
qed

text \<open>The transport block of the second UE.\<close>

lemma demo_pick:
  "\<exists>u. pick_all ((dl (demo_env tm f))\<lparr>rnti := 1, harq_pid := 5\<rparr>) 114 0 21 0 (no_sdus (replicate 64 0), demo_ue) = Inr (0, demo_picked, u)"
  by (simp add: pick_all_def dcch_def poll_def take_sdu_def room_def demo_env_def demo_dl_def demo_conf_def demo_ue_def Let_def put_bytes_def
        prio2lcid_array_def prio2lcid_gate_def prio2lcid_array2_def demo_picked_def)

lemma demo_search: "search_resources (\<lambda>m n. int n * (10 + int m)) 9 2 6 2 14 = Some (2, 0, 20)"
  by code_simp

lemma demo_build:
  "\<exists>pdu m. build_pdu demo_conf demo_lcids 20 5 31 0 (to_sdus demo_conf (last_header demo_picked) 41 0) = Inr (pdu, m) \<and> stats_sn m = 42"
proof -
  let ?us = "replicate 3 \<lparr>um_fi = 0, um_sn = 1, um_fields = [[9]]\<rparr>" and ?m = "to_sdus demo_conf (last_header demo_picked) 41 0"
  have l: "loaded demo_conf [] [5, 5, 5] ?us ?m" by code_simp
  have len: "length (um_encode (merged_pdu demo_conf ?m ?us)) = 8" "length (concat (map um_encode ?us)) = 9" by code_simp+
  have c: "memcpy_moves demo_conf" "sn_bits demo_conf = 16" "DTCH demo_conf = 3" "stats_sn ?m = 41"
    by (simp_all add: demo_conf_def to_sdus_def)
  have lc: "lcids_ok demo_lcids" "3 \<notin> controls demo_lcids" by (simp_all add: demo_lcids_def lcids_ok_def controls_def)
  show ?thesis
    using build_pdu_merged [OF l, of demo_lcids 31 _ 5 7 20] len c lc by (auto simp: ta_length_def)
qed

lemma demo_new_sdu:
  "\<exists>b. new_sdu ((dl (demo_env tm f))\<lparr>rnti := 1, harq_pid := 5\<rparr>) 9 25 2 6 bs 2 21 0 41 (replicate 64 0) demo_ue = Inr (Built b) \<and>
    stats_sn (bt_sdus b) = 42"
proof -
  have e: "get_TBS_DL (dl (demo_env tm f)) = (\<lambda>m n. int n * (10 + int m))"
    "conf (dl (demo_env tm f)) = demo_conf" "lcs (dl (demo_env tm f)) = demo_lcids"
    "take_ta demo_ue = (31, demo_ue)" "ta_length 31 = 0"
    by (simp_all add: demo_env_def demo_dl_def take_ta_def demo_ue_def ta_length_def)
  have h: "pick_total (last_header demo_picked) = 9" "header_length_total (last_header demo_picked) = 5"
    by (simp_all add: last_header_def demo_picked_def)
  obtain u where "pick_all ((dl (demo_env tm f))\<lparr>rnti := 1, harq_pid := 5\<rparr>) 114 0 21 0 (no_sdus (replicate 64 0), demo_ue) = Inr (0, demo_picked, u)"
    using demo_pick by blast
  then show ?thesis using demo_build demo_search by (auto simp: new_sdu_def Let_def e h)
qed

lemma demo_turn0:
  "\<exists>c1. schedule_ue (demo_env 1 (\<lambda>_. False)) 2 1 0 (2, demo_cell) = Inr (1, c1) \<and> ues c1 1 = demo_user 1 8 \<and>
    cell_release_list c1 = [] \<and> cell_ra_list c1 = []"
  by (simp add: schedule_ue_def choose_aggregation_def demo_env_def demo_cell_def demo_user_def Let_def tdd_dai_def set_ul_DAI_def
      retransmit_def begin_ue_def choose_mcs_def upd_ue_def upd_stats_def upd_harq_def restart_timers_def count_dai_def retx_dci_def
      add_ue_dlsch_info_def request_out_def demo_stats_def)

lemma demo_new_tx:
  assumes "u_rnti (ues c 1) = 1" "u_ctl (ues c 1) = demo_ue" "dlsch_mcs1 (u_stats (ues c 1)) = 9" "st_fi_ind (u_stats (ues c 1)) = 0"
    "st_sn (u_stats (ues c 1)) = 41" "pre_nb_available_rbs (ues c 1) = 6"
    "dl_pow_off (ues c 1) = 2" "cell_release_list c = []" "cell_ra_list c = []"
  shows "\<exists>b. ue_new_sdu (demo_env tm f) 2 1 5 1 c = Inr (Built b) \<and> stats_sn (bt_sdus b) = 42"
proof -
  have "demo_ue\<lparr>release_list := [], ra_list := []\<rparr> = demo_ue" by (simp add: demo_ue_def)
  moreover have "n_rb_dl (demo_env tm f) = 25" "min_rb_unit (demo_env tm f) = 2" "stack (demo_env tm f) 1 = replicate 64 0" by (simp_all add: demo_env_def)
  ultimately show ?thesis using demo_new_sdu [of tm f "rballoc_sub_UE (ues c 1)"] assms by (simp add: ue_new_sdu_def)
qed

lemma demo_turn1:
  assumes "ues c1 1 = demo_user 1 8" "cell_release_list c1 = []" "cell_ra_list c1 = []"
  shows "\<exists>c2. schedule_ue (demo_env 1 (\<lambda>_. False)) 2 1 1 (1, c1) = Inr (1, c2) \<and> st_sn (u_stats (ues c2 1)) = 42"
proof -
  let ?env = "demo_env 1 (\<lambda>_. False)"
  let ?u = "choose_mcs ?env 5 (begin_ue ?env 5 4 (tdd_dai None 1 (demo_user 1 8)))"
  let ?c = "upd_ue 1 (choose_mcs ?env 5) (upd_ue 1 (begin_ue ?env 5 4) (upd_ue 1 (tdd_dai None 1) c1))"
  have e: "subframeAssignment ?env = None" "frame_subframe2_dl_harq_pid ?env 2 1 = 5" "mac_eNB_get_rrc_status ?env r = 4" "RRC_CONNECTED ?env = 3"
    "CCE_allocation_infeasible ?env rs a r = False" "choose_aggregation ?env 1 (demo_user 1 8) 1 = Inr 1" for r rs a
    by (simp_all add: demo_env_def choose_aggregation_def demo_user_def)
  have u: "rach_resource_type (demo_user 1 8) = 0" "pre_nb_available_rbs (demo_user 1 8) = 6" "hp_round (u_harq (demo_user 1 8) 5) = 8"
    by (simp_all add: demo_user_def)
  have c: "ues ?c 1 = ?u" "cell_release_list ?c = []" "cell_ra_list ?c = []" using assms by (simp_all add: upd_ue_def)
  have u': "u_rnti ?u = 1" "u_ctl ?u = demo_ue" "dlsch_mcs1 (u_stats ?u) = 9" "st_fi_ind (u_stats ?u) = 0" "st_sn (u_stats ?u) = 41"
      "pre_nb_available_rbs ?u = 6" "dl_pow_off ?u = 2" "has_pdsch_config ?u"
    by (simp_all add: choose_mcs_def begin_ue_def tdd_dai_def demo_user_def demo_env_def upd_harq_def upd_stats_def demo_stats_def Let_def)
  obtain b where b: "ue_new_sdu ?env 2 1 5 1 ?c = Inr (Built b)" "stats_sn (bt_sdus b) = 42"
    using demo_new_tx [of ?c 1 "\<lambda>_. False"] c u' assms(1) by auto
  obtain tpc c3 where p: "prepare_tx ?env 2 1 5 1 b ?c = (tpc, c3)" by fastforce
  define c4 where "c4 = commit_tx ?env 5 1 b (new_dci ?env 5 (bt_mcs b) tpc (ues c3 1)) c3"
  have "new_tx ?env 2 1 5 1 ?c = Inr c4" unfolding new_tx_def b(1) c4_def
    using assms(1) p by (simp add: e u'(8) Let_def del: One_nat_def)
  moreover have "st_sn (u_stats (ues c4 1)) = 42"
    using prepare_tx_keeps(8) [OF p] b(2) by (simp add: c4_def commit_tx_def Let_def)
  ultimately show ?thesis using assms(1) u e by (simp add: schedule_ue_def Let_def)
qed

lemma demo_run: "\<exists>c'. schedule_ue_spec (demo_env 1 (\<lambda>_. False)) False 2 1 False [0, 1] demo_cell = Inr c'"
proof -
  let ?env = "demo_env 1 (\<lambda>_. False)"
  obtain c1 c2 where "schedule_ue ?env 2 1 0 (2, demo_cell) = Inr (1, c1)" "schedule_ue ?env 2 1 1 (1, c1) = Inr (1, c2)"
    using demo_turn0 demo_turn1 by blast
  moreover have "subframeAssignment ?env = None" "pre_processor ?env (demo_cell\<lparr>dlsch_bytes_tx := 0, dlsch_pdus_tx := 0\<rparr>) = demo_cell"
    by (simp_all add: demo_env_def demo_cell_def)
  ultimately show ?thesis by (simp add: schedule_ue_spec_def tdd_returns_def)
qed

lemma harq_indicator_witness:
  "\<exists>c'. schedule_ue_spec (demo_env 1 (\<lambda>_. False)) False 2 1 False [0, 1] demo_cell = Inr c' \<and>
    (\<forall>d\<in>set (dcis_of 0 (out c')). new_data_indicator_1 d = 1 \<and> redundancy_version_1 d = 3) \<and>
    (\<forall>d\<in>set (dcis_of 1 (out c')). new_data_indicator_1 d = 0 \<and> redundancy_version_1 d = 0)"
proof -
  obtain c' where c': "schedule_ue_spec (demo_env 1 (\<lambda>_. False)) False 2 1 False [0, 1] demo_cell = Inr c'" using demo_run by blast
  have e: "\<not> tdd_returns (subframeAssignment (demo_env 1 (\<lambda>_. False))) 1" "pre_keeps (demo_env 1 (\<lambda>_. False))"
    by (simp_all add: demo_env_def pre_keeps_def tdd_returns_def)
  have u: "u_rnti (ues demo_cell i) = i" "out demo_cell = []" "hp_round (u_harq (ues demo_cell 0) p) = 3" "hp_round (u_harq (ues demo_cell 1) p) = 8"
    "oldNDI (u_harq (ues demo_cell i) p) = 1" for i p by (simp_all add: demo_cell_def demo_user_def)
  note t = harq_indicator [OF c' e _ _ _ refl refl refl]
  have "dcis_of r [] = []" for r by (simp add: dcis_of_def)
  then show ?thesis using c' t [of 0] t [of 1] u by auto
qed

text \<open>C31. Power control: a command other than "keep" is given only if the last one is at least ten subframes ago, counted
  around the end of the 1024 frames, and only once for each measurement; the time of the command is recorded. At most one
  command is given in ten subframes.\<close>

theorem tpc_once_per_frame:
  assumes "pucch_tpc target frame subframe u = (tpc, u')"
    and "frame < 1024" and "subframe < 10" and "pucch_tpc_tx_frame u < 1024" and "pucch_tpc_tx_subframe u < 10"
    and "now = int (frame * 10 + subframe)" and "sent = int (pucch_tpc_tx_frame u * 10 + pucch_tpc_tx_subframe u)"
  shows "(u' \<noteq> u \<longrightarrow> 10 \<le> (now - sent) mod 10240 \<and> pucch1_cqi_update u = 1 \<and> pucch1_cqi_update u' = 0 \<and>
      int (pucch_tpc_tx_frame u' * 10 + pucch_tpc_tx_subframe u') = now) \<and>
    (tpc \<noteq> 1 \<longrightarrow> u' \<noteq> u) \<and> (10 \<le> (now - sent) mod 10240 \<and> pucch1_cqi_update u = 1 \<longrightarrow> u' \<noteq> u)"
proof -
  have range: "0 \<le> now" "now < 10240" "0 \<le> sent" "sent < 10240" using assms(2-7) by auto
  then have "(now - sent) mod 10240 = (if sent \<le> now then now - sent else now - sent + 10240)"
    using mod_pos_pos_trivial [of "now - sent" 10240] mod_pos_pos_trivial [of "now - sent + 10240" 10240] mod_add_self2 [of "now - sent" 10240] by auto
  then have "tpc_due (pucch_tpc_tx_frame u * 10 + pucch_tpc_tx_subframe u) (frame * 10 + subframe) \<longleftrightarrow> 10 \<le> (now - sent) mod 10240"
    using range assms(6,7) by (auto simp: tpc_due_def)
  moreover have "u\<lparr>pucch1_cqi_update := 0, pucch_tpc_tx_frame := frame, pucch_tpc_tx_subframe := subframe\<rparr> \<noteq> u" if "pucch1_cqi_update u = 1"
  proof
    assume eq: "u\<lparr>pucch1_cqi_update := 0, pucch_tpc_tx_frame := frame, pucch_tpc_tx_subframe := subframe\<rparr> = u"
    have "pucch1_cqi_update (u\<lparr>pucch1_cqi_update := 0, pucch_tpc_tx_frame := frame, pucch_tpc_tx_subframe := subframe\<rparr>) = 1"
      unfolding eq by (rule that)
    then show False by simp
  qed
  ultimately show ?thesis using assms(1,6) by (auto simp: pucch_tpc_def Let_def split: if_splits)
qed

lemma tpc_once_per_frame_witness:
  "\<exists>u'. pucch_tpc 200 3 1 (demo_user 0 8) = (2, u') \<and> u' \<noteq> demo_user 0 8 \<and> 10 \<le> (31 - 0 :: int) mod 10240"
proof -
  obtain tpc u' where t: "pucch_tpc 200 3 1 (demo_user 0 8) = (tpc, u')" by fastforce
  then have "tpc = 2" by (auto simp: pucch_tpc_def Let_def tpc_due_def tdiv_def demo_user_def split: if_splits)
  moreover have "pucch_tpc_tx_frame (demo_user 0 8) = 0" "pucch_tpc_tx_subframe (demo_user 0 8) = 0" by (simp_all add: demo_user_def)
  ultimately show ?thesis using t tpc_once_per_frame [OF t _ _ _ _ refl refl] by auto
qed

text \<open>C30. With transmission modes 1, 2 and 7 nothing that was taken from RLC is lost on the way to the physical layer:
  whenever a UE's turn uses a sequence number, it ends with a DCI, its configuration, the payload and the expected
  acknowledgement. (The place in the control region is searched for with the same aggregation level before and after
  the SDUs are taken.)\<close>

theorem used_number_is_sent:
  assumes "schedule_ue env frame subframe i (agg, c) = Inr (agg', c')" and "get_tmode env i \<in> {1, 2, 7}"
    and "st_sn (u_stats (ues c' i)) \<noteq> st_sn (u_stats (ues c i))"
  shows "\<exists>d e n tbs pdu. out c' = out c @ [Dci d, Dlsch_Config e, Tx_Req n tbs pdu, Ack_Nak i] \<and> dci_rnti d = u_rnti (ues c i) \<and>
    hp_round (u_harq (ues c' i) (harq_process d)) = 0"
proof -
  define pid where "pid = frame_subframe2_dl_harq_pid env frame subframe"
  let ?c = "turn_start env pid subframe i c"
  from assms(1) pid_def show ?thesis
  proof (cases rule: schedule_ue_cases)
    case idle
    then show ?thesis using assms(3) by auto
  next
    case (retx c4)
    then have "st_sn (u_stats (ues c4 i)) = st_sn (u_stats (ues c i))" by (auto simp: retransmit_def Let_def rbind_Inr_conv split: if_splits)
    then show ?thesis using assms(3) retx(3) by simp
  next
    case (new c4)
    have agg: "agg' = get_aggregation env (dl_cqi (ues c i)) format1"
      using new(5,6) assms(2) by (auto simp: choose_aggregation_def Let_def)
    have sn: "st_sn (u_stats (ues c4 i)) \<noteq> st_sn (u_stats (ues ?c i))" using assms(3) new(3) by simp
    obtain b tpc c1 where b: "prepare_tx env frame subframe pid i b ?c = (tpc, c1)"
        "c4 = c1 \<and> CCE_allocation_infeasible env (out c1) (aggregation_level (new_dci env pid (bt_mcs b) tpc (ues c1 i))) (u_rnti (ues ?c i)) \<or>
         c4 = commit_tx env pid i b (new_dci env pid (bt_mcs b) tpc (ues c1 i)) c1"
      using new(2) sn by (auto simp: new_tx_def Let_def split: sum.splits new_result.splits prod.splits if_splits)
    note k = prepare_tx_keeps [OF b(1)]
    have "\<not> CCE_allocation_infeasible env (out c1) (aggregation_level (new_dci env pid (bt_mcs b) tpc (ues c1 i))) (u_rnti (ues ?c i))"
      using new(4) agg k by (simp add: new_dci_def)
    then have "c4 = commit_tx env pid i b (new_dci env pid (bt_mcs b) tpc (ues c1 i)) c1" using b(2) by blast
    then show ?thesis using new(3) k by (simp add: commit_tx_def new_dci_def Let_def)
  qed
qed

lemma used_number_is_sent_witness:
  "\<exists>c' d e n tbs pdu. schedule_ue (demo_env 1 (\<lambda>_. False)) 2 1 1 (1, demo_cell) = Inr (1, c') \<and>
    out c' = [Dci d, Dlsch_Config e, Tx_Req n tbs pdu, Ack_Nak 1] \<and> dci_rnti d = 1"
proof -
  have d: "ues demo_cell 1 = demo_user 1 8" "cell_release_list demo_cell = []" "cell_ra_list demo_cell = []" "out demo_cell = []"
      "get_tmode (demo_env 1 (\<lambda>_. False)) 1 \<in> {1, 2, 7}" "u_rnti (demo_user 1 8) = 1" "st_sn (u_stats (demo_user 1 8)) = 41"
    by (simp_all add: demo_cell_def demo_env_def demo_user_def demo_stats_def)
  obtain c' where c': "schedule_ue (demo_env 1 (\<lambda>_. False)) 2 1 1 (1, demo_cell) = Inr (1, c')" "st_sn (u_stats (ues c' 1)) = 42"
    using demo_turn1 [OF d(1-3)] by blast
  then show ?thesis using used_number_is_sent [OF c'(1) d(5)] d by auto
qed

text \<open>A transport block can be lost: if there is no place in the control region for the DCI of format 1, the SDUs have
  already been taken from RLC and the sequence number of the merged PDU is used, but nothing is sent, and the HARQ
  process keeps its round and indicator, so nothing is sent again. (In transmission mode 3 the first test
  for a place is made for format 2A, so the second one can fail.)\<close>

theorem dropped_block:
  assumes "ue_new_sdu env frame subframe pid i c = Inr (Built b)"
    and "CCE_allocation_infeasible env (out c) (get_aggregation env (dl_cqi (ues c i)) format1) (u_rnti (ues c i))"
  shows "\<exists>c'. new_tx env frame subframe pid i c = Inr c' \<and> out c' = out c \<and> u_ctl (ues c' i) = bt_ctl b \<and>
    st_sn (u_stats (ues c' i)) = stats_sn (bt_sdus b) \<and> hp_round (u_harq (ues c' i) pid) = hp_round (u_harq (ues c i) pid) \<and>
    oldNDI (u_harq (ues c' i) pid) = oldNDI (u_harq (ues c i) pid)"
proof -
  obtain tpc c1 where p: "prepare_tx env frame subframe pid i b c = (tpc, c1)" by fastforce
  note k = prepare_tx_keeps [OF p]
  have "new_tx env frame subframe pid i c = Inr c1" using assms p k by (simp add: new_tx_def Let_def new_dci_def)
  then show ?thesis using k by simp
qed

lemma dropped_block_witness:
  "\<exists>c'. new_tx (demo_env 3 (\<lambda>a. a = 1)) 2 1 5 1 demo_cell = Inr c' \<and> out c' = [] \<and> st_sn (u_stats (ues c' 1)) = 42 \<and>
    choose_aggregation (demo_env 3 (\<lambda>a. a = 1)) 1 (ues demo_cell 1) 2 = Inr 2 \<and>
    \<not> CCE_allocation_infeasible (demo_env 3 (\<lambda>a. a = 1)) (out demo_cell) 2 1"
proof -
  obtain b where b: "ue_new_sdu (demo_env 3 (\<lambda>a. a = 1)) 2 1 5 1 demo_cell = Inr (Built b)" "stats_sn (bt_sdus b) = 42"
    using demo_new_tx [of demo_cell 3 "\<lambda>a. a = 1"] by (auto simp: demo_cell_def demo_user_def demo_stats_def)
  have "CCE_allocation_infeasible (demo_env 3 (\<lambda>a. a = 1)) (out demo_cell)
      (get_aggregation (demo_env 3 (\<lambda>a. a = 1)) (dl_cqi (ues demo_cell 1)) format1) (u_rnti (ues demo_cell 1))"
    by (simp add: demo_env_def)
  from dropped_block [OF b(1) this] b(2) show ?thesis
    by (auto simp: choose_aggregation_def demo_cell_def demo_env_def demo_user_def)
qed

text \<open>In TDD the scheduler acts in the downlink subframes of the standard's table and in no other; special subframes
  are not used.\<close>

theorem tdd_subframes:
  assumes "sfa < 7" and "subframe < 10"
  shows "tdd_returns (Some sfa) subframe \<longleftrightarrow> tdd_table ! sfa ! subframe \<noteq> CHR ''D''"
proof -
  have "list_all (\<lambda>a. list_all (\<lambda>s. tdd_returns (Some a) s = (tdd_table ! a ! s \<noteq> CHR ''D'')) [0..<10]) [0..<7]" by code_simp
  then show ?thesis using assms by (simp add: list_all_iff)
qed

lemma tdd_subframes_witness: "tdd_returns (Some 1) 6 \<and> \<not> tdd_returns (Some 1) 9"
  using tdd_subframes [of 1 6] tdd_subframes [of 1 9] by (simp add: tdd_table_def)

end
