(* ===== verification/Dl_Slices.thy ===== *)
theory Dl_Slices
  imports Ue_Spec
begin

text \<open>
  Slices of the downlink (\<^verbatim>\<open>schedule_dlsch\<close>, \<^verbatim>\<open>dlsch_scheduler_interslice_multiplexing\<close>, \<^verbatim>\<open>slice_priority_sort\<close> in
  \<^verbatim>\<open>openairinterface5g/openair2/LAYER2/MAC/eNB_scheduler_dlsch.c\<close>): after the pre-processor has given every slice its
  resource block groups, groups that are left over are lent to UEs of other slices, unless their slice is isolated.

  \<^item> One carrier. The order in which UEs of a slice are served (\<^verbatim>\<open>sort_UEs\<close>) is a parameter, as is \<^verbatim>\<open>qsort_r\<close> of the C
    library.
  \<^item> The map of free groups has no value for a group that belongs to no slice (\<^verbatim>\<open>free_rbgs_map\<close> is not initialised);
    reading it is an error.
\<close>

section \<open>Data\<close>

record slice =
  slice_allocation_mask :: "bool list"
  nb_rbs_remaining :: "nat \<Rightarrow> nat"
  nb_rbs_required :: "nat \<Rightarrow> nat"
  MIMO_mode_indicator :: "nat list"
  isol :: nat
  prio :: int

record 'r mux =
  rballoc_sub :: "bool list"
  free_rbgs_map :: "int option list"
  mx_ues :: "nat \<Rightarrow> 'r ue"
  mx_slices :: "slice list"

record mux_env =
  mx_tmode :: "nat \<Rightarrow> nat"
  mx_n_rb_dl :: nat
  mx_min_rb_unit :: nat
  sort_UEs :: "nat \<Rightarrow> nat list"
  qsort_r :: "(nat \<Rightarrow> nat \<Rightarrow> int) \<Rightarrow> nat list \<Rightarrow> nat list"
  MAX_MOBILES_PER_ENB :: nat

datatype mux_error = Uninitialised_Map

section \<open>Operations\<close>

definition slice_priority_compare :: "slice list \<Rightarrow> nat \<Rightarrow> nat \<Rightarrow> int" where
  "slice_priority_compare sl a b = (if prio (sl ! b) < prio (sl ! a) then -1 else 1)"

definition slice_priority_sort :: "mux_env \<Rightarrow> slice list \<Rightarrow> nat list" where
  "slice_priority_sort env sl = qsort_r env (slice_priority_compare sl) [0..<length sl]"

text \<open>The first slice that owns a group decides; \<open>-1\<close> is a group that is already used.\<close>

definition init_map :: "bool list \<Rightarrow> slice list \<Rightarrow> int option list" where
  "init_map rb sl = map (\<lambda>g. map_option (\<lambda>i. if rb ! g then -1 else int i)
     (List.find (\<lambda>i. slice_allocation_mask (sl ! i) ! g) [0..<length sl])) [0..<length rb]"

definition has_traffic :: "mux_env \<Rightarrow> slice \<Rightarrow> bool" where
  "has_traffic env k \<longleftrightarrow> list_ex (\<lambda>u. 0 < nb_rbs_remaining k u) [0..<MAX_MOBILES_PER_ENB env]"

text \<open>The groups a slice may take.\<close>

definition mask_bit :: "slice list \<Rightarrow> int option \<Rightarrow> mux_error + bool" where
  "mask_bit sl x = (case x of
     None \<Rightarrow> Inl Uninitialised_Map
   | Some i \<Rightarrow> Inr (i \<noteq> -1 \<and> isol (sl ! nat i) \<noteq> 1))"

fun allocation_mask :: "slice list \<Rightarrow> int option list \<Rightarrow> mux_error + bool list" where
  "allocation_mask sl [] = Inr []"
| "allocation_mask sl (x # xs) = rbind (mask_bit sl x) (\<lambda>b. rbind (allocation_mask sl xs) (\<lambda>bs. Inr (b # bs)))"

definition rbg_size :: "mux_env \<Rightarrow> nat \<Rightarrow> nat \<Rightarrow> nat" where
  "rbg_size env n g = (if g = n - 1 \<and> (mx_n_rb_dl env = 25 \<or> mx_n_rb_dl env = 50) then mx_min_rb_unit env - 1 else mx_min_rb_unit env)"

definition give_rbg :: "mux_env \<Rightarrow> nat \<Rightarrow> nat \<Rightarrow> nat \<Rightarrow> 'r mux \<Rightarrow> 'r mux" where
  "give_rbg env k u g s =
     (let n = rbg_size env (length (rballoc_sub s)) g; sl = mx_slices s ! k; v = mx_ues s u in
      s\<lparr>rballoc_sub := (rballoc_sub s)[g := True], free_rbgs_map := (free_rbgs_map s)[g := Some (-1)],
        mx_ues := (mx_ues s)(u := v\<lparr>rballoc_sub_UE := (rballoc_sub_UE v)[g := True],
          dl_pow_off := (if mx_tmode env u = 5 then 1 else dl_pow_off v), pre_nb_available_rbs := pre_nb_available_rbs v + n\<rparr>),
        mx_slices := (mx_slices s)[k := sl\<lparr>MIMO_mode_indicator := (MIMO_mode_indicator sl)[g := 1],
          nb_rbs_remaining := (nb_rbs_remaining sl)(u := nb_rbs_remaining sl u - n)\<rparr>]\<rparr>)"

definition mux_rbg :: "mux_env \<Rightarrow> bool list \<Rightarrow> nat \<Rightarrow> nat \<Rightarrow> nat \<Rightarrow> 'r mux \<Rightarrow> 'r mux" where
  "mux_rbg env msk k u g s =
     (let sl = mx_slices s ! k; v = mx_ues s u in
      if \<not> msk ! g then s
      else if rballoc_sub s ! g then s
      else if rballoc_sub_UE v ! g then s
      else if nb_rbs_remaining sl u \<le> 0 then s
      else if nb_rbs_required sl u \<le> pre_nb_available_rbs v then s
      else if dl_pow_off v = 0 then s
      else if rbg_size env (length (rballoc_sub s)) g \<le> nb_rbs_remaining sl u then give_rbg env k u g s
      else s)"

definition mux_ue :: "mux_env \<Rightarrow> bool list \<Rightarrow> nat \<Rightarrow> nat \<Rightarrow> 'r mux \<Rightarrow> 'r mux" where
  "mux_ue env msk k u s = fold (mux_rbg env msk k u) [0..<length (rballoc_sub s)] s"

definition mux_slice :: "mux_env \<Rightarrow> (nat \<Rightarrow> bool) \<Rightarrow> nat \<Rightarrow> 'r mux \<Rightarrow> mux_error + 'r mux" where
  "mux_slice env traffic k s =
     (if \<not> traffic k then Inr s
      else rbind (allocation_mask (mx_slices s) (free_rbgs_map s)) (\<lambda>msk.
        Inr (fold (mux_ue env msk k) (sort_UEs env k) s)))"

definition dlsch_scheduler_interslice_multiplexing :: "mux_env \<Rightarrow> 'r mux \<Rightarrow> mux_error + 'r mux" where
  "dlsch_scheduler_interslice_multiplexing env s =
     rfold (mux_slice env (\<lambda>k. has_traffic env (mx_slices s ! k))) (slice_priority_sort env (mx_slices s))
       (s\<lparr>free_rbgs_map := init_map (rballoc_sub s) (mx_slices s)\<rparr>)"

text \<open>The slices' schedulers run one after the other, with no group used at the start.\<close>

definition schedule_dlsch :: "('s \<Rightarrow> 's) \<Rightarrow> ('s \<Rightarrow> 'e + 's) list \<Rightarrow> 's \<Rightarrow> 'e + 's" where
  "schedule_dlsch clear_rballoc_sub sched_cbs s = rfold (\<lambda>cb. cb) sched_cbs (clear_rballoc_sub s)"

section \<open>Specification\<close>

text \<open>A group may be lent if it is free and its slice is not isolated.\<close>

definition lendable :: "bool list \<Rightarrow> slice list \<Rightarrow> nat \<Rightarrow> bool" where
  "lendable rb sl g \<longleftrightarrow> \<not> rb ! g \<and>
     (\<exists>i<length sl. slice_allocation_mask (sl ! i) ! g \<and> (\<forall>j<i. \<not> slice_allocation_mask (sl ! j) ! g) \<and> isol (sl ! i) \<noteq> 1)"

definition sub_bit :: "'r mux \<Rightarrow> nat \<Rightarrow> nat \<Rightarrow> bool" where
  "sub_bit s u g = rballoc_sub_UE (mx_ues s u) ! g"

text \<open>Every group is as it was, or it was lendable and now belongs to one UE.\<close>

definition lent_ok :: "'r mux \<Rightarrow> 'r mux \<Rightarrow> nat \<Rightarrow> bool" where
  "lent_ok s0 s g \<longleftrightarrow>
     rballoc_sub s ! g = rballoc_sub s0 ! g \<and> (\<forall>u. sub_bit s u g = sub_bit s0 u g) \<or>
     lendable (rballoc_sub s0) (mx_slices s0) g \<and> rballoc_sub s ! g \<and>
     (\<exists>u. \<not> sub_bit s0 u g \<and> sub_bit s u g \<and> (\<forall>v. v \<noteq> u \<longrightarrow> sub_bit s v g = sub_bit s0 v g))"

definition mux_shape :: "'r mux \<Rightarrow> bool" where
  "mux_shape s \<longleftrightarrow> length (free_rbgs_map s) = length (rballoc_sub s) \<and>
     (\<forall>u. length (rballoc_sub_UE (mx_ues s u)) = length (rballoc_sub s))"

text \<open>What holds throughout: a group is marked in the map exactly if it is used, and otherwise the map is as it was made.
  The blocks a UE has been given are those that the slices no longer owe it.\<close>

definition owed :: "'r mux \<Rightarrow> nat \<Rightarrow> nat" where
  "owed s u = (\<Sum>k<length (mx_slices s). nb_rbs_remaining (mx_slices s ! k) u)"

definition mux_inv :: "'r mux \<Rightarrow> 'r mux \<Rightarrow> bool" where
  "mux_inv s0 s \<longleftrightarrow> mux_shape s \<and> length (rballoc_sub s) = length (rballoc_sub s0) \<and> length (mx_slices s) = length (mx_slices s0) \<and>
     (\<forall>k<length (mx_slices s0). isol (mx_slices s ! k) = isol (mx_slices s0 ! k) \<and> nb_rbs_required (mx_slices s ! k) = nb_rbs_required (mx_slices s0 ! k)) \<and>
     (\<forall>g<length (rballoc_sub s0). lent_ok s0 s g \<and>
        (free_rbgs_map s ! g = Some (-1) \<or> free_rbgs_map s ! g = init_map (rballoc_sub s0) (mx_slices s0) ! g)) \<and>
     (\<forall>u. pre_nb_available_rbs (mx_ues s u) + owed s u = pre_nb_available_rbs (mx_ues s0 u) + owed s0 u)"

text \<open>Sample data: three groups, the first of a slice that lends, the second in use, the third of an isolated slice, and a
  UE of the second slice that needs more.\<close>

definition demo_slice :: "bool list \<Rightarrow> nat \<Rightarrow> nat \<Rightarrow> slice" where
  "demo_slice m i r = \<lparr>slice_allocation_mask = m, nb_rbs_remaining = (\<lambda>u. if u = 0 then r else 0), nb_rbs_required = (\<lambda>_. 6),
     MIMO_mode_indicator = [0, 0, 0], isol = i, prio = 0\<rparr>"

definition demo_mux_env :: mux_env where
  "demo_mux_env = \<lparr>mx_tmode = (\<lambda>_. 1), mx_n_rb_dl = 100, mx_min_rb_unit = 2, sort_UEs = (\<lambda>_. [0]), qsort_r = (\<lambda>c xs. xs), MAX_MOBILES_PER_ENB = 1\<rparr>"

definition demo_mux :: "unit mux" where
  "demo_mux = \<lparr>rballoc_sub = [False, True, False], free_rbgs_map = [],
     mx_ues = (\<lambda>_. (demo_user 0 8)\<lparr>rballoc_sub_UE := [False, False, False], pre_nb_available_rbs := 0\<rparr>),
     mx_slices = [demo_slice [True, True, False] 0 0, demo_slice [False, False, True] 1 4]\<rparr>"

section \<open>Lemmas\<close>

lemma allocation_mask_nth:
  assumes "allocation_mask sl xs = Inr msk"
  shows "length msk = length xs" "g < length xs \<Longrightarrow> msk ! g \<Longrightarrow> \<exists>i. xs ! g = Some i \<and> i \<noteq> -1 \<and> isol (sl ! nat i) \<noteq> 1"
proof -
  have "length msk = length xs \<and> (\<forall>g<length xs. msk ! g \<longrightarrow> (\<exists>i. xs ! g = Some i \<and> i \<noteq> -1 \<and> isol (sl ! nat i) \<noteq> 1))"
    using assms
  proof (induction xs arbitrary: msk)
    case (Cons x xs)
    then obtain b bs where b: "mask_bit sl x = Inr b" "allocation_mask sl xs = Inr bs" "msk = b # bs" by (auto simp: rbind_Inr_conv)
    then have "b \<Longrightarrow> \<exists>i. x = Some i \<and> i \<noteq> -1 \<and> isol (sl ! nat i) \<noteq> 1" by (auto simp: mask_bit_def split: option.splits)
    then show ?case using Cons.IH [OF b(2)] b(3) by (auto simp: nth_Cons split: nat.splits)
  qed simp
  then show "length msk = length xs" "g < length xs \<Longrightarrow> msk ! g \<Longrightarrow> \<exists>i. xs ! g = Some i \<and> i \<noteq> -1 \<and> isol (sl ! nat i) \<noteq> 1" by blast+
qed

lemma allocation_mask_total: "None \<notin> set xs \<Longrightarrow> \<exists>msk. allocation_mask sl xs = Inr msk"
proof (induction xs)
  case (Cons x xs)
  then show ?case by (cases x) (auto simp: mask_bit_def)
qed simp

lemma init_map_nth:
  assumes "g < length rb"
  shows "init_map rb sl ! g = map_option (\<lambda>i. if rb ! g then -1 else int i) (List.find (\<lambda>i. slice_allocation_mask (sl ! i) ! g) [0..<length sl])"
  using assms by (simp add: init_map_def)

lemma init_map_lendable:
  assumes "init_map rb sl ! g = Some i" "i \<noteq> -1" "g < length rb" "isol (sl ! nat i) \<noteq> 1"
  shows "lendable rb sl g"
proof -
  obtain j where j: "List.find (\<lambda>i. slice_allocation_mask (sl ! i) ! g) [0..<length sl] = Some j" "\<not> rb ! g" "i = int j"
    using assms(1,2) unfolding init_map_nth [OF assms(3)] by (auto split: if_splits)
  then show ?thesis using assms(4) unfolding find_Some_iff lendable_def by auto
qed

lemma owed_split:
  assumes "k < length (mx_slices s)"
  shows "owed s u = nb_rbs_remaining (mx_slices s ! k) u + (\<Sum>j\<in>{..<length (mx_slices s)} - {k}. nb_rbs_remaining (mx_slices s ! j) u)"
  using assms by (simp add: owed_def sum.remove)

lemma owed_give:
  assumes "k < length (mx_slices s)" "rbg_size env (length (rballoc_sub s)) g \<le> nb_rbs_remaining (mx_slices s ! k) u"
  shows "owed (give_rbg env k u g s) v + (if v = u then rbg_size env (length (rballoc_sub s)) g else 0) = owed s v"
proof -
  let ?s = "give_rbg env k u g s"
  have "k < length (mx_slices ?s)" using assms(1) by (simp add: give_rbg_def Let_def)
  moreover have "(\<Sum>j\<in>{..<length (mx_slices ?s)} - {k}. nb_rbs_remaining (mx_slices ?s ! j) v) =
      (\<Sum>j\<in>{..<length (mx_slices s)} - {k}. nb_rbs_remaining (mx_slices s ! j) v)"
    by (rule sum.cong) (auto simp: give_rbg_def Let_def)
  moreover have "nb_rbs_remaining (mx_slices ?s ! k) v + (if v = u then rbg_size env (length (rballoc_sub s)) g else 0) = nb_rbs_remaining (mx_slices s ! k) v"
    using assms by (simp add: give_rbg_def Let_def)
  ultimately show ?thesis using owed_split [of k ?s v] owed_split [OF assms(1), of v] by simp
qed

lemma give_rbg_inv:
  assumes inv: "mux_inv s0 s" and k: "k < length (mx_slices s0)" and g: "g < length (rballoc_sub s0)"
    and free: "\<not> rballoc_sub s ! g" "\<not> rballoc_sub_UE (mx_ues s u) ! g" and "lendable (rballoc_sub s0) (mx_slices s0) g"
    and "rbg_size env (length (rballoc_sub s)) g \<le> nb_rbs_remaining (mx_slices s ! k) u"
  shows "mux_inv s0 (give_rbg env k u g s)"
proof -
  let ?s = "give_rbg env k u g s" and ?n = "length (rballoc_sub s0)"
  have len: "length (rballoc_sub s) = ?n" "length (mx_slices s) = length (mx_slices s0)" "length (free_rbgs_map s) = ?n"
      "\<And>v. length (rballoc_sub_UE (mx_ues s v)) = ?n" using inv by (simp_all add: mux_inv_def mux_shape_def)
  have bits: "rballoc_sub ?s = (rballoc_sub s)[g := True]" "free_rbgs_map ?s = (free_rbgs_map s)[g := Some (-1)]"
      "\<And>v h. h < ?n \<Longrightarrow> sub_bit ?s v h = (if v = u \<and> h = g then True else sub_bit s v h)"
    using len(4) by (auto simp: give_rbg_def Let_def sub_bit_def nth_list_update)
  have "lent_ok s0 s g" using inv g by (simp add: mux_inv_def)
  then have "rballoc_sub s0 ! g = rballoc_sub s ! g" "\<And>v. sub_bit s v g = sub_bit s0 v g" using free(1) by (auto simp: lent_ok_def)
  then have lent: "lent_ok s0 ?s h" if "h < ?n" for h
    using that inv free(2) assms(6) g len(1) bits(1) bits(3) [of h]
    by (cases "h = g") (auto simp: lent_ok_def mux_inv_def sub_bit_def [of s u g, symmetric])
  have shape: "mux_shape ?s" using len by (auto simp: mux_shape_def give_rbg_def Let_def)
  have sl: "\<forall>j<length (mx_slices s0). isol (mx_slices ?s ! j) = isol (mx_slices s ! j) \<and> nb_rbs_required (mx_slices ?s ! j) = nb_rbs_required (mx_slices s ! j)"
      "length (mx_slices ?s) = length (mx_slices s0)" "length (rballoc_sub ?s) = ?n"
    using len k by (auto simp: give_rbg_def Let_def nth_list_update)
  have av: "pre_nb_available_rbs (mx_ues ?s v) = pre_nb_available_rbs (mx_ues s v) + (if v = u then rbg_size env (length (rballoc_sub s)) g else 0)" for v
    by (simp add: give_rbg_def Let_def)
  have "pre_nb_available_rbs (mx_ues ?s v) + owed ?s v = pre_nb_available_rbs (mx_ues s v) + owed s v" for v
    using av [of v] owed_give [of k s env g u v] k len(2) assms(7) by simp
  moreover have "free_rbgs_map ?s ! h = Some (-1) \<or> free_rbgs_map ?s ! h = free_rbgs_map s ! h" if "h < ?n" for h
    using that bits(2) len(3) by (cases "h = g") simp_all
  ultimately show ?thesis using inv shape sl lent unfolding mux_inv_def by metis
qed

lemma mux_rbg_inv:
  assumes "mux_inv s0 s" and "k < length (mx_slices s0)" and "g < length (rballoc_sub s0)"
    and "msk ! g \<Longrightarrow> lendable (rballoc_sub s0) (mx_slices s0) g"
  shows "mux_inv s0 (mux_rbg env msk k u g s)"
  using assms give_rbg_inv [OF assms(1-3), of u env] by (auto simp: mux_rbg_def Let_def)

text \<open>The mask given to \<open>mux_rbg\<close> names groups that may be lent.\<close>

interpretation mux_rbgs: keeps_on "mux_rbg env msk k u" "mux_inv s0"
    "\<lambda>g. k < length (mx_slices s0) \<and> g < length (rballoc_sub s0) \<and> (msk ! g \<longrightarrow> lendable (rballoc_sub s0) (mx_slices s0) g)" for env msk k u s0
  by unfold_locales (blast intro: mux_rbg_inv)

lemma mux_ue_inv:
  assumes "mux_inv s0 s" and "k < length (mx_slices s0)" and "\<And>g. g < length (rballoc_sub s0) \<Longrightarrow> msk ! g \<Longrightarrow> lendable (rballoc_sub s0) (mx_slices s0) g"
  shows "mux_inv s0 (mux_ue env msk k u s)"
proof -
  have n: "length (rballoc_sub s) = length (rballoc_sub s0)" using assms(1) by (simp add: mux_inv_def)
  show ?thesis unfolding mux_ue_def n by (rule mux_rbgs.run_on_inv) (use assms in \<open>auto simp: list_all_iff\<close>)
qed

lemma mux_mask_lendable:
  assumes "mux_inv s0 s" and "allocation_mask (mx_slices s) (free_rbgs_map s) = Inr msk" and "g < length (rballoc_sub s0)" and "msk ! g"
  shows "lendable (rballoc_sub s0) (mx_slices s0) g"
proof -
  have n: "length (free_rbgs_map s) = length (rballoc_sub s0)" using assms(1) by (simp add: mux_inv_def mux_shape_def)
  obtain i where i: "free_rbgs_map s ! g = Some i" "i \<noteq> -1" "isol (mx_slices s ! nat i) \<noteq> 1"
    using allocation_mask_nth(2) [OF assms(2), of g] assms(3,4) n by auto
  then have m: "init_map (rballoc_sub s0) (mx_slices s0) ! g = Some i" using assms(1,3) by (auto simp: mux_inv_def)
  then have "nat i < length (mx_slices s0)"
    using i(2) unfolding init_map_nth [OF assms(3)] by (auto simp: find_Some_iff split: if_splits)
  then have "isol (mx_slices s0 ! nat i) \<noteq> 1" using i(3) assms(1) by (simp add: mux_inv_def)
  from init_map_lendable [OF m i(2) assms(3) this] show ?thesis .
qed

interpretation mux_ues: keeps_on "mux_ue env msk k" "mux_inv s0"
    "\<lambda>_. k < length (mx_slices s0) \<and> (\<forall>g<length (rballoc_sub s0). msk ! g \<longrightarrow> lendable (rballoc_sub s0) (mx_slices s0) g)" for env msk k s0
  by unfold_locales (blast intro: mux_ue_inv)

lemma mux_slice_inv:
  assumes "mux_inv s0 s" and "k < length (mx_slices s0)" and "\<And>g. g < length (rballoc_sub s0) \<Longrightarrow> init_map (rballoc_sub s0) (mx_slices s0) ! g \<noteq> None"
  shows "\<exists>s'. mux_slice env traffic k s = Inr s' \<and> mux_inv s0 s'"
proof (cases "traffic k")
  case True
  have "None \<notin> set (free_rbgs_map s)"
    using assms(1,3) unfolding mux_inv_def mux_shape_def in_set_conv_nth by (metis option.distinct(1))
  then obtain msk where m: "allocation_mask (mx_slices s) (free_rbgs_map s) = Inr msk" using allocation_mask_total by blast
  have "mux_inv s0 (fold (mux_ue env msk k) (sort_UEs env k) s)"
    by (rule mux_ues.run_on_inv) (use assms mux_mask_lendable [OF assms(1) m] in \<open>auto simp: list_all_iff\<close>)
  then show ?thesis using True m by (simp add: mux_slice_def)
qed (use assms(1) in \<open>simp add: mux_slice_def\<close>)

lemma mux_slices_inv:
  assumes "mux_inv s0 s" and "\<And>k. k \<in> set ks \<Longrightarrow> k < length (mx_slices s0)"
    and "\<And>g. g < length (rballoc_sub s0) \<Longrightarrow> init_map (rballoc_sub s0) (mx_slices s0) ! g \<noteq> None"
  shows "\<exists>s'. rfold (mux_slice env traffic) ks s = Inr s' \<and> mux_inv s0 s'"
  using assms(1,2)
proof (induction ks arbitrary: s)
  case (Cons k ks)
  then obtain s1 where "mux_slice env traffic k s = Inr s1" "mux_inv s0 s1" using mux_slice_inv [OF _ _ assms(3), of s k env traffic] by auto
  then show ?case using Cons by simp
qed simp

text \<open>The comparison is not an order: of two slices with the same priority each is to come after the other.\<close>

lemma compare_equal_priorities:
  "prio (sl ! a) = prio (sl ! b) \<Longrightarrow> slice_priority_compare sl a b = 1 \<and> slice_priority_compare sl b a = 1"
  by (simp add: slice_priority_compare_def)

section \<open>Properties\<close>

text \<open>C32. Isolation of slices: if every group belongs to a slice, the multiplexing ends, and every resource block group is
  as before, or it was free and of a slice that is not isolated, and exactly one UE has got it. For every UE the
  resource blocks it may use and those the slices still owe it add up to what they were before.\<close>

theorem multiplexing_isolation:
  assumes "\<And>u. length (rballoc_sub_UE (mx_ues s u)) = length (rballoc_sub s)"
    and "\<And>g. g < length (rballoc_sub s) \<Longrightarrow> \<exists>k<length (mx_slices s). slice_allocation_mask (mx_slices s ! k) ! g"
    and "\<And>k. k \<in> set (slice_priority_sort env (mx_slices s)) \<Longrightarrow> k < length (mx_slices s)"
  shows "\<exists>s'. dlsch_scheduler_interslice_multiplexing env s = Inr s' \<and>
    (\<forall>g<length (rballoc_sub s).
       rballoc_sub s' ! g = rballoc_sub s ! g \<and> (\<forall>u. sub_bit s' u g = sub_bit s u g) \<or>
       lendable (rballoc_sub s) (mx_slices s) g \<and> rballoc_sub s' ! g \<and>
       (\<exists>u. \<not> sub_bit s u g \<and> sub_bit s' u g \<and> (\<forall>v. v \<noteq> u \<longrightarrow> sub_bit s' v g = sub_bit s v g))) \<and>
    (\<forall>u. pre_nb_available_rbs (mx_ues s' u) + owed s' u = pre_nb_available_rbs (mx_ues s u) + owed s u)"
proof -
  let ?s = "s\<lparr>free_rbgs_map := init_map (rballoc_sub s) (mx_slices s)\<rparr>"
  have "mux_inv s ?s"
    using assms(1) by (auto simp: mux_inv_def mux_shape_def lent_ok_def sub_bit_def owed_def init_map_def)
  moreover have "init_map (rballoc_sub s) (mx_slices s) ! g \<noteq> None" if "g < length (rballoc_sub s)" for g
    using assms(2) [OF that] unfolding init_map_nth [OF that] by (auto simp: find_None_iff)
  ultimately obtain s' where "dlsch_scheduler_interslice_multiplexing env s = Inr s'" "mux_inv s s'"
    using mux_slices_inv [of s ?s] assms(3) unfolding dlsch_scheduler_interslice_multiplexing_def by blast
  then show ?thesis unfolding mux_inv_def lent_ok_def by blast
qed

lemma multiplexing_isolation_witness:
  "\<exists>s'. dlsch_scheduler_interslice_multiplexing demo_mux_env demo_mux = Inr s' \<and> rballoc_sub s' ! 1 \<and> \<not> rballoc_sub s' ! 2 \<and> \<not> sub_bit s' 0 2"
proof -
  have n: "length (rballoc_sub demo_mux) = 3" "length (mx_slices demo_mux) = 2" by (simp_all add: demo_mux_def)
  have shape: "length (rballoc_sub_UE (mx_ues demo_mux u)) = length (rballoc_sub demo_mux)" for u by (simp add: demo_mux_def)
  have owner: "\<exists>k<length (mx_slices demo_mux). slice_allocation_mask (mx_slices demo_mux ! k) ! g" if "g < length (rballoc_sub demo_mux)" for g
  proof -
    have "g = 0 \<or> g = 1 \<or> g = 2" using that n by auto
    then show ?thesis by (auto simp: demo_mux_def demo_slice_def)
  qed
  have order: "k < length (mx_slices demo_mux)" if "k \<in> set (slice_priority_sort demo_mux_env (mx_slices demo_mux))" for k
    using that by (simp add: slice_priority_sort_def demo_mux_env_def)
  have "\<not> lendable (rballoc_sub demo_mux) (mx_slices demo_mux) 2" "\<not> lendable (rballoc_sub demo_mux) (mx_slices demo_mux) 1"
      "rballoc_sub demo_mux ! 1" "\<not> rballoc_sub demo_mux ! 2" "\<not> sub_bit demo_mux 0 2"
    by (auto simp: lendable_def demo_mux_def demo_slice_def less_Suc_eq sub_bit_def)
  note f = this
  obtain s' where s': "dlsch_scheduler_interslice_multiplexing demo_mux_env demo_mux = Inr s'"
      "\<forall>g<length (rballoc_sub demo_mux). rballoc_sub s' ! g = rballoc_sub demo_mux ! g \<and> (\<forall>u. sub_bit s' u g = sub_bit demo_mux u g) \<or>
        lendable (rballoc_sub demo_mux) (mx_slices demo_mux) g"
    using multiplexing_isolation [of demo_mux demo_mux_env] shape owner order by blast
  then show ?thesis using f n by (intro exI [of _ s']) (metis lessI numeral_2_eq_2 numeral_3_eq_3 one_less_numeral_iff semiring_norm(77))
qed

end
