(* ===== verification/Paging.thy ===== *)
theory Paging
  imports Prelude
begin

text \<open>
  Paging (\<^verbatim>\<open>schedule_PCH\<close> in \<^verbatim>\<open>openairinterface5g/openair2/LAYER2/MAC/eNB_scheduler_dlsch.c\<close>, compiled without \<^verbatim>\<open>FORMAT1C\<close>):
  for every UE with a pending page whose paging occasion is the current subframe, RRC is asked for the paging
  message, four resource blocks are taken, and a DCI, its configuration and the payload are handed to the
  physical layer; then the entry of the UE is cleared.

  \<^item> One carrier. RRC is a function with a state of its own (\<open>rrc_page\<close> is \<^verbatim>\<open>mac_rrc_data_req\<close>, which writes the message to
    the one PCCH buffer of the carrier and returns its length).
  \<^item> A transmit request holds a pointer to that buffer, not the bytes; here it holds index and length.
  \<^item> \<^verbatim>\<open>mcs\<close> and \<^verbatim>\<open>first_rb\<close> are variables of the function that keep their values from one UE to the next.
\<close>

section \<open>Data\<close>

record pf_po =
  enable_flag :: bool
  pf_T :: nat
  PF_min :: nat
  PO :: nat

datatype pch_request = Pch_Dci int nat | Pch_Dlsch nat nat | Pch_Tx nat nat

record 'r pch =
  UE_PF_PO :: "pf_po list"
  vrb_map :: "nat list"
  PCCH_pdu :: "byte list"
  pch_out :: "pch_request list"
  pch_pdu_index :: nat
  total_num_pcch_pdu :: nat
  pcch_buffer :: nat
  total_pcch_buffer :: nat
  pcch_mcs :: int
  pch_mcs :: int
  first_rb :: int
  rrc :: 'r

record 'r pch_env =
  rrc_page :: "nat \<Rightarrow> 'r \<Rightarrow> byte list \<times> 'r"
  pch_TBS :: "nat \<Rightarrow> nat \<Rightarrow> int"
  pch_infeasible :: "pch_request list \<Rightarrow> bool"
  getRIV :: "nat \<Rightarrow> int \<Rightarrow> nat \<Rightarrow> nat"
  pch_n_rb_dl :: nat

datatype pch_error = Division_By_Zero | Vrb_Map_Bounds

definition no_page :: pf_po where
  "no_page = \<lparr>enable_flag = False, pf_T = 0, PF_min = 0, PO = 0\<rparr>"

section \<open>Operations\<close>

text \<open>The first resource block, which depends on whether system information is sent in the same subframe; it stays as
  it was for other subframes and bandwidths.\<close>

definition pch_first_rb :: "nat \<Rightarrow> nat \<Rightarrow> nat \<Rightarrow> int \<Rightarrow> int" where
  "pch_first_rb frame subframe n_rb_dl old =
     (if subframe \<in> {0, 1, 2, 4, 6, 9} \<or> subframe = 5 \<and> frame mod 2 \<noteq> 0 \<and> frame mod 8 \<noteq> 1 then
        (if n_rb_dl = 25 then 10 else if n_rb_dl = 50 then 24 else if n_rb_dl = 100 then 48 else old)
      else if subframe = 5 \<and> (frame mod 2 = 0 \<or> frame mod 8 = 1) then
        (if n_rb_dl = 25 then 14 else if n_rb_dl = 50 then 28 else if n_rb_dl = 100 then 52 else old)
      else old)"

text \<open>The lowest of the schemes 0 to 9 with a transport block of three resource blocks that holds the message; if there is
  none, the scheme stays as it was.\<close>

definition choose_pch_mcs :: "(nat \<Rightarrow> nat \<Rightarrow> int) \<Rightarrow> nat \<Rightarrow> int \<Rightarrow> int" where
  "choose_pch_mcs tb len old =
     (case List.find (\<lambda>m. int len \<le> tb m 3) [0..<10] of Some m \<Rightarrow> int m | None \<Rightarrow> old)"

definition mark_vrbs :: "int \<Rightarrow> nat list \<Rightarrow> pch_error + nat list" where
  "mark_vrbs f m =
     (if 0 \<le> f \<and> nat f + 3 < length m
      then Inr (m[nat f := 1, nat f + 1 := 1, nat f + 2 := 1, nat f + 3 := 1]) else Inl Vrb_Map_Bounds)"

definition page_due :: "nat \<Rightarrow> nat \<Rightarrow> pf_po \<Rightarrow> bool" where
  "page_due frame subframe p \<longleftrightarrow> enable_flag p \<and> frame mod pf_T p = PF_min p \<and> subframe = PO p"

definition send_page :: "'r pch_env \<Rightarrow> nat \<Rightarrow> nat \<Rightarrow> nat \<Rightarrow> nat \<Rightarrow> 'r pch \<Rightarrow> pch_error + 'r pch" where
  "send_page env frame subframe i len s =
     (let f = pch_first_rb frame subframe (pch_n_rb_dl env) (first_rb s) in
      rbind (mark_vrbs f (vrb_map s)) (\<lambda>vm.
        let mcs = choose_pch_mcs (pch_TBS env) len (pch_mcs s); riv = getRIV env (pch_n_rb_dl env) f 4;
            s1 = s\<lparr>first_rb := f, vrb_map := vm, pch_mcs := mcs\<rparr>
        in if pch_infeasible env (pch_out s1) then Inr s1
           else Inr (s1\<lparr>pch_out := pch_out s1 @ [Pch_Dci mcs riv, Pch_Dlsch (pch_pdu_index s1) riv, Pch_Tx (pch_pdu_index s1) len],
                  pch_pdu_index := pch_pdu_index s1 + 1, total_num_pcch_pdu := total_num_pcch_pdu s1 + 1, pcch_buffer := len,
                  total_pcch_buffer := total_pcch_buffer s1 + len, pcch_mcs := mcs, UE_PF_PO := (UE_PF_PO s1)[i := no_page]\<rparr>)))"

definition page_ue :: "'r pch_env \<Rightarrow> nat \<Rightarrow> nat \<Rightarrow> nat \<Rightarrow> 'r pch \<Rightarrow> pch_error + 'r pch" where
  "page_ue env frame subframe i s =
     (let p = UE_PF_PO s ! i in
      if \<not> enable_flag p then Inr s
      else if pf_T p = 0 then Inl Division_By_Zero
      else if page_due frame subframe p then
        (case rrc_page env i (rrc s) of (d, r) \<Rightarrow>
           let len = length d mod 2 ^ 16; s1 = s\<lparr>PCCH_pdu := put_bytes 0 d (PCCH_pdu s), rrc := r\<rparr> in
           if len = 0 then Inr s1 else send_page env frame subframe i len s1)
      else Inr s)"

definition schedule_PCH :: "'r pch_env \<Rightarrow> nat \<Rightarrow> nat \<Rightarrow> 'r pch \<Rightarrow> pch_error + 'r pch" where
  "schedule_PCH env frame subframe s =
     rfold (page_ue env frame subframe) [0..<length (UE_PF_PO s)] (s\<lparr>pch_mcs := -1, first_rb := -1\<rparr>)"

section \<open>Specification\<close>

text \<open>A bandwidth and subframe for which the code chooses resource blocks.\<close>

definition pch_place :: "nat \<Rightarrow> nat \<Rightarrow> bool" where
  "pch_place n_rb_dl subframe \<longleftrightarrow> n_rb_dl \<in> {25, 50, 100} \<and> subframe \<in> {0, 1, 2, 4, 5, 6, 9}"

definition tx_count :: "'r pch \<Rightarrow> nat" where
  "tx_count s = length (filter (\<lambda>r. case r of Pch_Tx _ _ \<Rightarrow> True | _ \<Rightarrow> False) (pch_out s))"

text \<open>Entries that were cleared.\<close>

definition served_pages :: "pf_po list \<Rightarrow> pf_po list \<Rightarrow> nat set" where
  "served_pages ps qs = {i. i < length ps \<and> enable_flag (ps ! i) \<and> \<not> enable_flag (qs ! i)}"

text \<open>The resource block map: blocks are only marked, never freed.\<close>

definition marked :: "nat list \<Rightarrow> nat list \<Rightarrow> bool" where
  "marked m0 m \<longleftrightarrow> length m = length m0 \<and> (\<forall>k<length m0. m ! k = m0 ! k \<or> m ! k = 1)"

text \<open>The state between two entries of the loop.\<close>

definition pch_inv :: "nat \<Rightarrow> nat \<Rightarrow> 'r pch \<Rightarrow> 'r pch \<Rightarrow> bool" where
  "pch_inv frame subframe s0 s \<longleftrightarrow>
     length (UE_PF_PO s) = length (UE_PF_PO s0) \<and> marked (vrb_map s0) (vrb_map s) \<and>
     (\<forall>i<length (UE_PF_PO s0). UE_PF_PO s ! i = UE_PF_PO s0 ! i \<or> UE_PF_PO s ! i = no_page \<and> page_due frame subframe (UE_PF_PO s0 ! i)) \<and>
     tx_count s = tx_count s0 + card (served_pages (UE_PF_PO s0) (UE_PF_PO s)) \<and>
     total_num_pcch_pdu s = total_num_pcch_pdu s0 + card (served_pages (UE_PF_PO s0) (UE_PF_PO s)) \<and>
     pch_pdu_index s = pch_pdu_index s0 + card (served_pages (UE_PF_PO s0) (UE_PF_PO s))"

text \<open>The UEs whose page is due, the messages RRC has for them, one after the other, and the state RRC is left in.\<close>

definition due_ues :: "nat \<Rightarrow> nat \<Rightarrow> 'r pch \<Rightarrow> nat list" where
  "due_ues frame subframe s = filter (\<lambda>i. page_due frame subframe (UE_PF_PO s ! i)) [0..<length (UE_PF_PO s)]"

fun rrc_pages :: "'r pch_env \<Rightarrow> nat list \<Rightarrow> 'r \<Rightarrow> byte list list \<times> 'r" where
  "rrc_pages env [] r = ([], r)"
| "rrc_pages env (i # is) r = (let (d, r1) = rrc_page env i r; (ds, r2) = rrc_pages env is r1 in (d # ds, r2))"

definition page_msgs :: "'r pch_env \<Rightarrow> nat \<Rightarrow> nat \<Rightarrow> 'r pch \<Rightarrow> byte list list" where
  "page_msgs env frame subframe s = fst (rrc_pages env (due_ues frame subframe s) (rrc s))"

text \<open>Index and length of the transmit requests.\<close>

definition tx_list :: "pch_request list \<Rightarrow> (nat \<times> nat) list" where
  "tx_list rs = concat (map (\<lambda>r. case r of Pch_Tx i l \<Rightarrow> [(i, l)] | _ \<Rightarrow> []) rs)"

text \<open>What it takes for the pages that are due to be sent: the code has a place for them, the control channel has room for
  the requests of so many pages besides those already made, and RRC has a message for each of these UEs that fits the buffer.\<close>

definition can_page :: "'r pch_env \<Rightarrow> nat \<Rightarrow> nat \<Rightarrow> 'r pch \<Rightarrow> bool" where
  "can_page env frame subframe s \<longleftrightarrow> pch_place (pch_n_rb_dl env) subframe \<and> pch_n_rb_dl env \<le> length (vrb_map s) \<and>
     (\<forall>p\<in>set (UE_PF_PO s). enable_flag p \<longrightarrow> 0 < pf_T p) \<and>
     (\<forall>rs. length rs < 3 * length (due_ues frame subframe s) \<longrightarrow> \<not> pch_infeasible env (pch_out s @ rs)) \<and>
     (\<forall>d\<in>set (page_msgs env frame subframe s). 0 < length d \<and> length d < 2 ^ 16 \<and> length d \<le> length (PCCH_pdu s))"

text \<open>The state after the pages of the UEs \<open>D\<close> were sent.\<close>

definition pages_done :: "'r pch_env \<Rightarrow> nat \<Rightarrow> nat \<Rightarrow> 'r pch \<Rightarrow> nat list \<Rightarrow> 'r pch \<Rightarrow> bool" where
  "pages_done env frame sf s D s' \<longleftrightarrow> length (vrb_map s') = length (vrb_map s) \<and> rrc s' = snd (rrc_pages env D (rrc s)) \<and>
     PCCH_pdu s' = fold (put_bytes 0) (fst (rrc_pages env D (rrc s))) (PCCH_pdu s) \<and>
     pch_pdu_index s' = pch_pdu_index s + length D \<and>
     (\<exists>rs. pch_out s' = pch_out s @ rs \<and> length rs = 3 * length D \<and>
        tx_list rs = zip [pch_pdu_index s..<pch_pdu_index s + length D] (map length (fst (rrc_pages env D (rrc s)))))"

text \<open>Sample data: two UEs with the same paging occasion and one with another.\<close>

definition demo_pch :: "unit pch" where
  "demo_pch = \<lparr>UE_PF_PO = [\<lparr>enable_flag = True, pf_T = 32, PF_min = 5, PO = 9\<rparr>, \<lparr>enable_flag = True, pf_T = 32, PF_min = 6, PO = 9\<rparr>,
       \<lparr>enable_flag = True, pf_T = 64, PF_min = 5, PO = 9\<rparr>], vrb_map = replicate 25 0, PCCH_pdu = replicate 8 0, pch_out = [],
     pch_pdu_index = 0, total_num_pcch_pdu = 0, pcch_buffer = 0, total_pcch_buffer = 0, pcch_mcs = 0, pch_mcs = 0, first_rb = 0, rrc = ()\<rparr>"

definition demo_pch_env :: "unit pch_env" where
  "demo_pch_env = \<lparr>rrc_page = (\<lambda>i r. (replicate 3 (of_nat i), r)), pch_TBS = (\<lambda>m n. int (m * n)), pch_infeasible = (\<lambda>rs. 6 \<le> length rs),
     getRIV = (\<lambda>n f l. n), pch_n_rb_dl = 25\<rparr>"

section \<open>Lemmas\<close>

lemma pch_first_rb_place:
  assumes "pch_place n sf"
  shows "0 \<le> pch_first_rb frame sf n old" "nat (pch_first_rb frame sf n old) + 3 < n"
  using assms by (auto simp: pch_place_def pch_first_rb_def)

lemma served_pages_snoc:
  assumes "i < length ps" "length qs = length ps" "qs ! i = ps ! i" "enable_flag (ps ! i)"
  shows "card (served_pages ps (qs[i := no_page])) = Suc (card (served_pages ps qs))"
proof -
  have "served_pages ps (qs[i := no_page]) = insert i (served_pages ps qs)"
    using assms by (auto simp: served_pages_def nth_list_update no_page_def)
  moreover have "i \<notin> served_pages ps qs" "finite (served_pages ps qs)" using assms by (auto simp: served_pages_def)
  ultimately show ?thesis by simp
qed

lemma mark_vrbs_Inr:
  assumes "mark_vrbs f m = Inr m'"
  shows "marked m0 m \<Longrightarrow> marked m0 m'"
  using assms by (auto simp: mark_vrbs_def marked_def nth_list_update split: if_splits)

lemma send_page_Inr:
  assumes "send_page env frame sf i len s = Inr s'"
  obtains (drop) vm where "mark_vrbs (pch_first_rb frame sf (pch_n_rb_dl env) (first_rb s)) (vrb_map s) = Inr vm" "vrb_map s' = vm"
      "UE_PF_PO s' = UE_PF_PO s" "pch_out s' = pch_out s" "pch_pdu_index s' = pch_pdu_index s" "total_num_pcch_pdu s' = total_num_pcch_pdu s"
      "pch_infeasible env (pch_out s)" "rrc s' = rrc s" "PCCH_pdu s' = PCCH_pdu s"
  | (sent) vm mcs riv where "mark_vrbs (pch_first_rb frame sf (pch_n_rb_dl env) (first_rb s)) (vrb_map s) = Inr vm" "vrb_map s' = vm"
      "UE_PF_PO s' = (UE_PF_PO s)[i := no_page]"
      "pch_out s' = pch_out s @ [Pch_Dci mcs riv, Pch_Dlsch (pch_pdu_index s) riv, Pch_Tx (pch_pdu_index s) len]"
      "pch_pdu_index s' = pch_pdu_index s + 1" "total_num_pcch_pdu s' = total_num_pcch_pdu s + 1" "rrc s' = rrc s" "PCCH_pdu s' = PCCH_pdu s"
  using assms by (auto simp: send_page_def Let_def rbind_Inr_conv split: if_splits)

lemma page_ue_inv:
  assumes "page_ue env frame sf i s = Inr s'" and "pch_inv frame sf s0 s" and "i < length (UE_PF_PO s0)"
  shows "pch_inv frame sf s0 s'"
proof -
  let ?p = "UE_PF_PO s ! i"
  obtain d r where d: "rrc_page env i (rrc s) = (d, r)" by fastforce
  define s1 where "s1 = s\<lparr>PCCH_pdu := put_bytes 0 d (PCCH_pdu s), rrc := r\<rparr>"
  have inv1: "pch_inv frame sf s0 s1" using assms(2) by (simp add: pch_inv_def s1_def tx_count_def)
  consider (same) "s' = s \<or> s' = s1" | (send) len where "page_due frame sf ?p" "send_page env frame sf i len s1 = Inr s'"
    using assms(1) d by (auto simp: page_ue_def s1_def Let_def split: if_splits)
  then show ?thesis
  proof cases
    case same
    then show ?thesis using assms(2) inv1 by blast
  next
    case send
    have on: "enable_flag ?p" using send(1) by (simp add: page_due_def)
    then have p: "?p = UE_PF_PO s0 ! i" using assms(2,3) by (auto simp: pch_inv_def no_page_def)
    have len: "length (UE_PF_PO s) = length (UE_PF_PO s0)" using assms(2) by (simp add: pch_inv_def)
    note card = served_pages_snoc [OF assms(3) len p] 
    from send(2) show ?thesis
    proof (cases rule: send_page_Inr)
      case (drop vm)
      then show ?thesis using inv1 mark_vrbs_Inr [OF drop(1), of "vrb_map s0"] by (simp add: pch_inv_def tx_count_def)
    next
      case (sent vm mcs riv)
      have "pch_inv frame sf s0 s" by fact
      then show ?thesis using sent mark_vrbs_Inr [OF sent(1), of "vrb_map s0"] card p on send(1) assms(3)
        by (auto simp: pch_inv_def tx_count_def s1_def nth_list_update)
    qed
  qed
qed

interpretation pch_loop: keeps_err_on "page_ue env frame sf" "pch_inv frame sf s0" "\<lambda>i. i < length (UE_PF_PO s0)" for env frame sf s0
  by unfold_locales (rule page_ue_inv)

lemma schedule_PCH_inv:
  assumes "schedule_PCH env frame sf s = Inr s'"
  shows "pch_inv frame sf s s'"
proof (rule pch_loop.run_on_inv)
  show "pch_inv frame sf s (s\<lparr>pch_mcs := -1, first_rb := -1\<rparr>)"
    by (auto simp: pch_inv_def marked_def tx_count_def served_pages_def)
qed (use assms in \<open>auto simp: schedule_PCH_def list_all_iff\<close>)

lemma send_page_ok:
  assumes "pch_place (pch_n_rb_dl env) sf" and "pch_n_rb_dl env \<le> length (vrb_map s)" and "\<not> pch_infeasible env (pch_out s)"
  shows "\<exists>s'. send_page env frame sf i len s = Inr s' \<and> UE_PF_PO s' = (UE_PF_PO s)[i := no_page] \<and> length (vrb_map s') = length (vrb_map s) \<and>
    PCCH_pdu s' = PCCH_pdu s \<and> rrc s' = rrc s \<and> pch_pdu_index s' = pch_pdu_index s + 1 \<and>
    (\<exists>mcs riv. pch_out s' = pch_out s @ [Pch_Dci mcs riv, Pch_Dlsch (pch_pdu_index s) riv, Pch_Tx (pch_pdu_index s) len])"
  using pch_first_rb_place [OF assms(1), of frame "first_rb s"] assms(2,3)
  by (auto simp: send_page_def Let_def mark_vrbs_def)

lemma rrc_pages_append:
  "rrc_pages env (is @ [i]) r =
     (case rrc_pages env is r of (ds, r1) \<Rightarrow> case rrc_page env i r1 of (d, r2) \<Rightarrow> (ds @ [d], r2))"
  by (induction "is" arbitrary: r) (auto split: prod.splits)

lemma rrc_pages_prefix: "\<exists>es. fst (rrc_pages env (is @ js) r) = fst (rrc_pages env is r) @ es"
  by (induction "is" arbitrary: r) (auto split: prod.splits, metis fst_conv)

lemma length_rrc_pages: "length (fst (rrc_pages env is r)) = length is"
  by (induction "is" arbitrary: r) (auto split: prod.splits, metis fst_conv)

lemma tx_list_append [simp]: "tx_list (rs @ qs) = tx_list rs @ tx_list qs"
  by (simp add: tx_list_def)

lemma page_ue_due:
  assumes "pch_place (pch_n_rb_dl env) sf" and "pch_n_rb_dl env \<le> length (vrb_map s)" and "\<not> pch_infeasible env (pch_out s)"
    and "page_due frame sf (UE_PF_PO s ! i)" and "0 < pf_T (UE_PF_PO s ! i)"
    and d: "rrc_page env i (rrc s) = (d, r)" "0 < length d" "length d < 2 ^ 16"
  shows "\<exists>s'. page_ue env frame sf i s = Inr s' \<and> UE_PF_PO s' = (UE_PF_PO s)[i := no_page] \<and> length (vrb_map s') = length (vrb_map s) \<and>
    PCCH_pdu s' = put_bytes 0 d (PCCH_pdu s) \<and> rrc s' = r \<and> pch_pdu_index s' = pch_pdu_index s + 1 \<and>
    (\<exists>mcs riv. pch_out s' = pch_out s @ [Pch_Dci mcs riv, Pch_Dlsch (pch_pdu_index s) riv, Pch_Tx (pch_pdu_index s) (length d)])"
proof -
  let ?s = "s\<lparr>PCCH_pdu := put_bytes 0 d (PCCH_pdu s), rrc := r\<rparr>"
  have "page_ue env frame sf i s = send_page env frame sf i (length d) ?s"
    using assms(4,5) d by (simp add: page_ue_def page_due_def Let_def)
  then show ?thesis using send_page_ok [of env sf ?s frame i "length d"] assms(1-3) by simp
qed

lemma pages_done_step:
  assumes "can_page env frame sf s" and "pages_done env frame sf s D s1" and "due_ues frame sf s = D @ i # E"
    and "UE_PF_PO s1 ! i = UE_PF_PO s ! i" and "i < length (UE_PF_PO s)"
  shows "\<exists>s2. page_ue env frame sf i s1 = Inr s2 \<and> UE_PF_PO s2 = (UE_PF_PO s1)[i := no_page] \<and> pages_done env frame sf s (D @ [i]) s2"
proof -
  obtain ds r1 where ds: "rrc_pages env D (rrc s) = (ds, r1)" by fastforce
  obtain d r where d: "rrc_page env i r1 = (d, r)" by fastforce
  obtain rs where s1: "length (vrb_map s1) = length (vrb_map s)" "rrc s1 = r1" "PCCH_pdu s1 = fold (put_bytes 0) ds (PCCH_pdu s)"
      "pch_pdu_index s1 = pch_pdu_index s + length D" "pch_out s1 = pch_out s @ rs" "length rs = 3 * length D"
      "tx_list rs = zip [pch_pdu_index s..<pch_pdu_index s + length D] (map length ds)"
    using assms(2) ds by (auto simp: pages_done_def)
  have di: "rrc_pages env (D @ [i]) (rrc s) = (ds @ [d], r)" using ds d by (simp add: rrc_pages_append)
  obtain es where "page_msgs env frame sf s = (ds @ [d]) @ es"
    using rrc_pages_prefix [of env "D @ [i]" E "rrc s"] di assms(3) by (auto simp: page_msgs_def)
  then have len: "0 < length d" "length d < 2 ^ 16" using assms(1) by (auto simp: can_page_def)
  have "length rs < 3 * length (due_ues frame sf s)" using s1(6) assms(3) by simp
  then have room: "\<not> pch_infeasible env (pch_out s1)" using assms(1) s1(5) by (simp add: can_page_def)
  have "i \<in> set (due_ues frame sf s)" using assms(3) by simp
  then have due: "page_due frame sf (UE_PF_PO s ! i)" by (simp add: due_ues_def)
  moreover have "UE_PF_PO s ! i \<in> set (UE_PF_PO s)" using assms(5) by simp
  ultimately have T: "0 < pf_T (UE_PF_PO s ! i)" using assms(1) by (auto simp: can_page_def page_due_def)
  have lds: "length ds = length D" using length_rrc_pages [of env D "rrc s"] ds by simp
  obtain s2 mcs riv where s2: "page_ue env frame sf i s1 = Inr s2" "UE_PF_PO s2 = (UE_PF_PO s1)[i := no_page]"
      "length (vrb_map s2) = length (vrb_map s1)" "PCCH_pdu s2 = put_bytes 0 d (PCCH_pdu s1)" "rrc s2 = r"
      "pch_pdu_index s2 = pch_pdu_index s1 + 1"
      "pch_out s2 = pch_out s1 @ [Pch_Dci mcs riv, Pch_Dlsch (pch_pdu_index s1) riv, Pch_Tx (pch_pdu_index s1) (length d)]"
    using page_ue_due [of env sf s1 frame i d r] assms(1) room due T d len s1(1,2) assms(4) by (auto simp: can_page_def)
  let ?rs = "rs @ [Pch_Dci mcs riv, Pch_Dlsch (pch_pdu_index s1) riv, Pch_Tx (pch_pdu_index s1) (length d)]"
  have "tx_list ?rs = zip [pch_pdu_index s..<pch_pdu_index s + length (D @ [i])] (map length (ds @ [d]))"
    using s1(4,7) lds by (simp add: tx_list_def)
  then have "\<exists>rs. pch_out s2 = pch_out s @ rs \<and> length rs = 3 * length (D @ [i]) \<and>
        tx_list rs = zip [pch_pdu_index s..<pch_pdu_index s + length (D @ [i])] (map length (ds @ [d]))"
    using s2(7) s1(5,6) by (intro exI [of _ ?rs]) simp
  then have "pages_done env frame sf s (D @ [i]) s2" using s1 s2 by (simp add: pages_done_def di)
  with s2(1,2) show ?thesis by blast
qed

lemma pch_loop_ok:
  assumes "can_page env frame sf s" and "n \<le> length (UE_PF_PO s)"
  shows "\<exists>s'. rfold (page_ue env frame sf) [0..<n] s = Inr s' \<and>
    pages_done env frame sf s (filter (\<lambda>i. page_due frame sf (UE_PF_PO s ! i)) [0..<n]) s' \<and>
    UE_PF_PO s' = map (\<lambda>p. if page_due frame sf p then no_page else p) (take n (UE_PF_PO s)) @ drop n (UE_PF_PO s)"
  using assms(2)
proof (induction n)
  case 0
  then show ?case by (simp add: pages_done_def tx_list_def)
next
  case (Suc n)
  let ?D = "\<lambda>n. filter (\<lambda>i. page_due frame sf (UE_PF_PO s ! i)) [0..<n]"
  obtain s1 where 1: "rfold (page_ue env frame sf) [0..<n] s = Inr s1" "pages_done env frame sf s (?D n) s1"
      "UE_PF_PO s1 = map (\<lambda>p. if page_due frame sf p then no_page else p) (take n (UE_PF_PO s)) @ drop n (UE_PF_PO s)"
    using Suc by auto
  have n: "n < length (UE_PF_PO s)" "UE_PF_PO s1 ! n = UE_PF_PO s ! n" using 1(3) Suc.prems by (simp_all add: nth_append)
  have upd: "(UE_PF_PO s1)[n := x] = map (\<lambda>p. if page_due frame sf p then no_page else p) (take n (UE_PF_PO s)) @ x # drop (Suc n) (UE_PF_PO s)" for x
    using 1(3) Suc.prems by (simp add: list_update_append Cons_nth_drop_Suc [symmetric])
  have tk: "take (Suc n) (UE_PF_PO s) = take n (UE_PF_PO s) @ [UE_PF_PO s ! n]" using Suc.prems by (simp add: take_Suc_conv_app_nth)
  show ?case
  proof (cases "page_due frame sf (UE_PF_PO s ! n)")
    case True
    have "[0..<length (UE_PF_PO s)] = [0..<n] @ n # [Suc n..<length (UE_PF_PO s)]"
      using n(1) by (metis le_add1 less_imp_le plus_nat.add_0 upt_add_eq_append upt_conv_Cons le_add_diff_inverse)
    then have "due_ues frame sf s = ?D n @ n # filter (\<lambda>i. page_due frame sf (UE_PF_PO s ! i)) [Suc n..<length (UE_PF_PO s)]"
      using True by (simp add: due_ues_def)
    from pages_done_step [OF assms(1) 1(2) this n(2) n(1)] show ?thesis using 1(1) upd True tk by (auto simp: rfold_append)
  next
    case False
    have "UE_PF_PO s ! n \<in> set (UE_PF_PO s)" using n(1) by simp
    then have "page_ue env frame sf n s1 = Inr s1" using False n(2) assms(1) by (auto simp: page_ue_def can_page_def Let_def)
    then show ?thesis using 1 False tk Cons_nth_drop_Suc [of n "UE_PF_PO s"] Suc.prems by (simp add: rfold_append)
  qed
qed

lemma fold_put_last: "ds \<noteq> [] \<Longrightarrow> take (length (last ds)) (fold (put_bytes 0) ds b) = last ds"
  by (cases ds rule: rev_cases) (simp_all add: put_bytes_def)

section \<open>Properties\<close>

text \<open>C33. Paging requests: if there is a place for the pages that are due and RRC has their messages, exactly the entries whose
  frame and subframe this is are cleared, the others stay, and the physical layer gets one transmit request for each
  of them, in order, with consecutive indices and the lengths of the messages; resource blocks are marked but
  never freed. All these requests point to the one buffer of the carrier, which in the end holds the last message. So a page
  that is the only one of its subframe is transmitted as RRC gave it; of several the last is, and a request for a message that is not
  longer than the last transmits bytes of the last.\<close>

theorem pages_requested_when_due:
  assumes "can_page env frame subframe s" and "ds = page_msgs env frame subframe s"
  shows "\<exists>s' rs. schedule_PCH env frame subframe s = Inr s' \<and>
    UE_PF_PO s' = map (\<lambda>p. if page_due frame subframe p then no_page else p) (UE_PF_PO s) \<and>
    length ds = length (due_ues frame subframe s) \<and> pch_out s' = pch_out s @ rs \<and>
    tx_list rs = zip [pch_pdu_index s..<pch_pdu_index s + length ds] (map length ds) \<and> marked (vrb_map s) (vrb_map s') \<and>
    (ds \<noteq> [] \<longrightarrow> take (length (last ds)) (PCCH_pdu s') = last ds \<and>
       (\<forall>d\<in>set ds. length d \<le> length (last ds) \<longrightarrow> take (length d) (PCCH_pdu s') = take (length d) (last ds)))"
proof -
  let ?s = "s\<lparr>pch_mcs := -1, first_rb := -1\<rparr>"
  have eq: "due_ues frame subframe ?s = due_ues frame subframe s" "page_msgs env frame subframe ?s = ds"
    using assms(2) by (simp_all add: due_ues_def page_msgs_def)
  have "can_page env frame subframe ?s" using assms eq by (simp add: can_page_def)
  from pch_loop_ok [OF this, of "length (UE_PF_PO s)"] obtain s' where s': "schedule_PCH env frame subframe s = Inr s'"
      "UE_PF_PO s' = map (\<lambda>p. if page_due frame subframe p then no_page else p) (UE_PF_PO s)"
      "pages_done env frame subframe ?s (due_ues frame subframe s) s'" by (auto simp: schedule_PCH_def due_ues_def)
  have ds: "fst (rrc_pages env (due_ues frame subframe s) (rrc s)) = ds" using assms(2) by (simp add: page_msgs_def)
  have len: "length ds = length (due_ues frame subframe s)" using length_rrc_pages ds by metis
  obtain rs where rs: "PCCH_pdu s' = fold (put_bytes 0) ds (PCCH_pdu s)" "pch_out s' = pch_out s @ rs"
      "tx_list rs = zip [pch_pdu_index s..<pch_pdu_index s + length ds] (map length ds)"
    using s'(3) ds len by (auto simp: pages_done_def)
  have last: "take (length (last ds)) (PCCH_pdu s') = last ds" if "ds \<noteq> []" using fold_put_last [OF that] rs(1) by simp
  moreover have "\<forall>d\<in>set ds. length d \<le> length (last ds) \<longrightarrow> take (length d) (PCCH_pdu s') = take (length d) (last ds)" if "ds \<noteq> []"
    using last [OF that] by (metis min.absorb1 take_take)
  moreover have "marked (vrb_map s) (vrb_map s')" using schedule_PCH_inv [OF s'(1)] by (simp add: pch_inv_def)
  ultimately show ?thesis using s'(1,2) rs(2,3) len by (intro exI [of _ s'] exI [of _ rs]) simp
qed

lemma demo_can_page: "can_page demo_pch_env 69 9 demo_pch"
  "page_msgs demo_pch_env 69 9 demo_pch = [[0, 0, 0], [2, 2, 2]]"
  by (auto simp: can_page_def page_msgs_def due_ues_def page_due_def demo_pch_env_def demo_pch_def pch_place_def numeral_3_eq_3)

lemma pages_requested_when_due_witness:
  "\<exists>s' rs. schedule_PCH demo_pch_env 69 9 demo_pch = Inr s' \<and> map enable_flag (UE_PF_PO s') = [False, True, False] \<and>
    pch_out s' = rs \<and> tx_list rs = [(0, 3), (1, 3)] \<and> take 3 (PCCH_pdu s') = [2, 2, 2]"
  using pages_requested_when_due [OF demo_can_page(1) refl] unfolding demo_can_page(2)
  by (auto simp: demo_pch_def page_due_def no_page_def upt_rec numeral_3_eq_3)

text \<open>A message that is too long for all ten schemes is sent with the scheme of the page before, or with \<^verbatim>\<open>-1\<close>.\<close>

lemma oversized_page_keeps_mcs:
  assumes "\<forall>m<10. tb m 3 < int len"
  shows "choose_pch_mcs tb len old = old"
proof -
  have "List.find (\<lambda>m. int len \<le> tb m 3) [0..<10] = None" using assms unfolding find_None_iff by auto
  then show ?thesis by (simp add: choose_pch_mcs_def)
qed

end
