(* ===== verification/Lte_M.thy ===== *)
theory Lte_M
  imports Ue_Spec
begin

text \<open>
  The downlink scheduler for LTE-M devices (\<^verbatim>\<open>schedule_ue_spec_br\<close> in
  \<^verbatim>\<open>openairinterface5g/openair2/LAYER2/MAC/eNB_scheduler_dlsch.c\<close>): in subframe 5 of an odd frame a UE is told on MPDCCH what it
  gets, in subframe 7 the block is sent and an acknowledgement is asked for.

  \<^item> The local variables of the function that keep a value from one UE to the next are the record \<open>br_locals\<close>; the elements
    of the arrays that were not written yet are zero in it.
  \<^item> \<^verbatim>\<open>dl_slots\<close> is the array of downlink requests, of which the first \<^verbatim>\<open>number_pdu\<close> are sent. The request of subframe 5 is written
    to the element that was free when the function was called.
  \<^item> The chain of tests for null pointers in the configuration of a UE is one test: the configuration is there or not.
  \<^item> Fields of requests that are always the same are left out.
\<close>

section \<open>Data\<close>

record mpdcch_conf =
  mpdcch_Narrowband_r13 :: nat
  transmissionType_r11 :: nat
  dmrs_ScramblingSequenceInt_r11 :: nat
  startSymbol_r11 :: "nat option"

record 'r br_ue =
  br_ue :: "'r ue"
  br_mcs :: nat
  br_payload :: "mac_pdu option"
  br_mpdcch :: "mpdcch_conf option"

record mpdcch =
  mp_rnti :: nat
  mp_dci_format :: nat
  mpdcch_narrow_band :: nat
  mpdcch_transmission_type :: nat
  mp_start_symbol :: nat
  mp_ce_mode :: nat
  drms_scrambling_init :: nat
  mp_initial_transmission_sf_io :: nat
  mp_resource_block_coding :: nat
  mp_mcs :: nat
  mp_redundancy_version :: nat
  mp_new_data_indicator :: int

record br_dlsch =
  bd_pdu_index :: nat
  bd_rnti :: nat
  bd_resource_block_coding :: nat
  bd_transmission_scheme :: nat
  bd_transmission_mode :: nat
  bd_pdsch_start :: nat
  bd_ue_type :: nat
  bd_initial_transmission_sf_io :: nat

datatype br_pdu = Mpdcch mpdcch | Br_Dlsch br_dlsch

record br_tx =
  tx_length :: int
  tx_index :: nat
  tx_data :: "mac_pdu option"

record uci_harq =
  uci_rnti :: nat
  uci_ue_type :: nat
  total_number_of_repetitions :: nat
  n_pucch_1_0 :: int

record 'r br_cell =
  br_ues :: "nat \<Rightarrow> 'r br_ue"
  dl_slots :: "nat \<Rightarrow> br_pdu option"
  number_pdu :: nat
  br_pdu_index :: nat
  tx_list :: "br_tx list"
  UL_req_tmp :: "nat \<Rightarrow> uci_harq list"

text \<open>The coverage levels of SIB2: how many there are in the two lists, the PUCCH resources, and the exponents of the numbers of
  repetitions for levels 0 to 3, which may be missing.\<close>

record ce_conf =
  prach_count :: nat
  n1PUCCH_AN_InfoList :: "int list"
  pucch_NumRepetitionCE :: "nat option list"

record 'r br_env =
  bdl :: "'r dl_env"
  schedulingInfoSIB1_BR_r13 :: nat
  radioResourceConfigCommon_BR :: "ce_conf option"
  NOT_A_RNTI :: nat
  br_rrc_status :: "nat \<Rightarrow> nat"
  BR_RRC_CONNECTED :: nat
  br_puCch10xSnr :: int
  br_tdd_Config :: bool
  p_eNB :: nat
  to_prb :: nat
  getRIV :: "nat \<Rightarrow> nat \<Rightarrow> nat \<Rightarrow> nat"
  narrowband_to_first_rb :: "nat \<Rightarrow> nat"
  taus :: "nat \<Rightarrow> byte"

datatype br_error = Br_Assert | Br_Null | Br_Bounds | Br_Header hdr_error | Br_Endless

record br_locals =
  lo_mcs :: nat
  lo_num :: nat
  lo_lengths :: "nat list"
  lo_lcids :: "nat list"
  lo_total :: nat
  lo_buf :: "byte list"

definition rvseq :: "nat list" where "rvseq = [0, 2, 3, 1]"

section \<open>Configuration\<close>

text \<open>The switch over the number of levels falls through from the highest level to level 0.\<close>

definition ce_level :: "ce_conf \<Rightarrow> nat \<Rightarrow> (nat \<Rightarrow> int) \<times> (nat \<Rightarrow> nat) \<Rightarrow> br_error + (nat \<Rightarrow> int) \<times> (nat \<Rightarrow> nat)" where
  "ce_level cf k st = (case st of (an, reps) \<Rightarrow>
     if length (n1PUCCH_AN_InfoList cf) \<le> k then Inl Br_Bounds
     else case (if k < length (pucch_NumRepetitionCE cf) then pucch_NumRepetitionCE cf ! k else None) of
         None \<Rightarrow> Inl Br_Assert
       | Some e \<Rightarrow> Inr (an(k := n1PUCCH_AN_InfoList cf ! k), reps(k := (if k < 2 then 1 else 4) * 2 ^ e)))"

definition ce_levels :: "ce_conf option \<Rightarrow> br_error + (nat \<Rightarrow> int) \<times> (nat \<Rightarrow> nat)" where
  "ce_levels sib = (case sib of
     None \<Rightarrow> Inr (\<lambda>_. 0, \<lambda>_. 1)
   | Some cf \<Rightarrow>
       if prach_count cf \<noteq> length (n1PUCCH_AN_InfoList cf) \<or> prach_count cf \<notin> {1, 2, 3, 4} then Inl Br_Assert
       else rfold (ce_level cf) (rev [0..<prach_count cf]) (\<lambda>_. 0, \<lambda>_. 1))"

section \<open>Taking SDUs from RLC\<close>

text \<open>\<^verbatim>\<open>mac_rlc_data_req\<close>: the data goes behind the \<^verbatim>\<open>off\<close> bytes that are in the buffer, its length and channel to element \<open>k\<close> of the
  arrays, which has \<open>base\<close> in it.\<close>

definition br_take :: "'r br_env \<Rightarrow> nat \<Rightarrow> nat \<Rightarrow> nat \<Rightarrow> br_locals \<times> 'r ue_ctl \<Rightarrow> br_error + nat \<times> br_locals \<times> 'r ue_ctl" where
  "br_take env off k lcid st = (case st of (lo, u) \<Rightarrow>
     case rlc_data (bdl env) lcid (rlc u) of (d, r) \<Rightarrow>
       let n = length d mod 2 ^ 16 in
       if k < length (lo_lengths lo) \<and> k < length (lo_lcids lo) \<and> off + length d \<le> length (lo_buf lo) then
         Inr (n, lo\<lparr>lo_buf := put_bytes off d (lo_buf lo), lo_lengths := (lo_lengths lo)[k := n], lo_lcids := (lo_lcids lo)[k := lcid]\<rparr>,
              u\<lparr>rlc := r\<rparr>)
       else Inl Br_Bounds)"

definition count_tx :: "nat \<Rightarrow> nat \<Rightarrow> 'r ue_ctl \<Rightarrow> 'r ue_ctl" where
  "count_tx lcid n u = u\<lparr>num_pdu_tx := (num_pdu_tx u)(lcid := num_pdu_tx u lcid + 1), num_bytes_tx := (num_bytes_tx u)(lcid := num_bytes_tx u lcid + n)\<rparr>"

text \<open>DCCH: it always takes element 0, and with data the number of SDUs becomes 1. The result is \<^verbatim>\<open>header_len_dcch\<close>.\<close>

definition br_dcch :: "'r br_env \<Rightarrow> int \<Rightarrow> br_locals \<times> 'r ue_ctl \<Rightarrow> br_error + int \<times> br_locals \<times> 'r ue_ctl" where
  "br_dcch env free st = (case st of (lo, u) \<Rightarrow>
     if 0 < free then
       (case rlc_status (bdl env) (DCCH (bdl env)) free (rlc u) of (b, r) \<Rightarrow>
          if lo_lengths lo = [] then Inl Br_Bounds
          else let lo1 = lo\<lparr>lo_lengths := (lo_lengths lo)[0 := 0]\<rparr>; u1 = u\<lparr>rlc := r\<rparr> in
            if 0 < b then
              rbind (br_take env 0 0 (DCCH (bdl env)) (lo1, u1)) (\<lambda>(n, lo2, u2).
                Inr (2, lo2\<lparr>lo_total := n, lo_num := 1\<rparr>, count_tx (DCCH (bdl env)) n u2))
            else Inr (0, lo1\<lparr>lo_total := 0\<rparr>, u1))
     else Inr (2, lo, u))"

definition br_dcch1 :: "'r br_env \<Rightarrow> int \<Rightarrow> int \<times> br_locals \<times> 'r ue_ctl \<Rightarrow> br_error + int \<times> br_locals \<times> 'r ue_ctl" where
  "br_dcch1 env rest st = (case st of (hc, lo, u) \<Rightarrow>
     let free = rest - hc - int (lo_total lo) in
     if 0 < free then
       (case rlc_status (bdl env) (DCCH (bdl env) + 1) free (rlc u) of (b, r) \<Rightarrow>
          if length (lo_lengths lo) \<le> lo_num lo then Inl Br_Bounds
          else let lo1 = lo\<lparr>lo_lengths := (lo_lengths lo)[lo_num lo := 0]\<rparr>; u1 = u\<lparr>rlc := r\<rparr> in
            if 0 < b then
              rbind (br_take env (lo_total lo1) (lo_num lo1) (DCCH (bdl env) + 1) (lo1, u1)) (\<lambda>(n, lo2, u2).
                Inr (hc + 2, lo2\<lparr>lo_total := (lo_total lo2 + n) mod 2 ^ 16, lo_num := lo_num lo2 + 1\<rparr>, count_tx (DCCH (bdl env) + 1) n u2))
            else Inr (hc, lo1, u1))
     else Inr st)"

text \<open>The user plane, from the highest channel downwards. \<open>ht\<close> is \<^verbatim>\<open>header_len_dtch\<close>, \<open>hl\<close> is \<^verbatim>\<open>header_len_dtch_last\<close>, which is set to 3 also
  for a channel without data.\<close>

fun br_dtch_loop :: "'r br_env \<Rightarrow> int \<Rightarrow> nat list \<Rightarrow> int \<Rightarrow> int \<Rightarrow> br_locals \<times> 'r ue_ctl \<Rightarrow>
    br_error + int \<times> int \<times> br_locals \<times> 'r ue_ctl" where
  "br_dtch_loop env rest [] ht hl st = Inr (ht, hl, st)"
| "br_dtch_loop env rest (lcid # lcids) ht hl st = (case st of (lo, u) \<Rightarrow>
     let free = rest - int (lo_total lo) - (ht + 3) in
     if 0 < free then
       (case rlc_status (bdl env) lcid free (rlc u) of (b, r) \<Rightarrow>
          let u1 = u\<lparr>rlc := r\<rparr> in
          if 0 < b then
            rbind (br_take env (lo_total lo) (lo_num lo) lcid
                     (lo, u1\<lparr>ue_rrc_inactivity_timer := (if rrc_context (bdl env) then 1 else ue_rrc_inactivity_timer u1)\<rparr>)) (\<lambda>(n, lo2, u2).
              let s = (if n < 128 then 2 else 3) in
              br_dtch_loop env rest lcids (ht + s) s
                (lo2\<lparr>lo_total := (lo_total lo2 + n) mod 2 ^ 16, lo_num := lo_num lo2 + 1\<rparr>, u2))
          else br_dtch_loop env rest lcids ht 3 (lo, u1))
     else Inr (ht, 3, st))"

text \<open>All channels: \<^verbatim>\<open>header_len_dcch\<close>, \<^verbatim>\<open>header_len_dtch\<close>, \<^verbatim>\<open>header_len_dtch_last\<close>.\<close>

definition br_pick :: "'r br_env \<Rightarrow> int \<Rightarrow> int \<Rightarrow> br_locals \<times> 'r ue_ctl \<Rightarrow> br_error + int \<times> int \<times> int \<times> br_locals \<times> 'r ue_ctl" where
  "br_pick env tbs ta_len st =
     rbind (br_dcch env (tbs - ta_len - 2) st) (\<lambda>s1.
     rbind (br_dcch1 env (tbs - ta_len) s1) (\<lambda>(hc, st2).
     rbind (br_dtch_loop env (tbs - ta_len - hc) (rev [DTCH (conf (bdl env))..<NB_RB_MAX (conf (bdl env))]) 0 0 st2) (\<lambda>(ht, hl, st3).
       Inr (hc, ht, if ht = 0 then 0 else hl, st3))))"

section \<open>The transport block\<close>

text \<open>\<^verbatim>\<open>TBS\<close> has 16 bits.\<close>

definition tbs6 :: "'r br_env \<Rightarrow> nat \<Rightarrow> nat \<Rightarrow> int" where
  "tbs6 env mcs nb_rb = get_TBS_DL (bdl env) mcs nb_rb mod 2 ^ 16"

text \<open>The second loop over the schemes; it has no upper end. \<open>None\<close>: it does not return.\<close>

partial_function (option) br_mcs_up :: "(nat \<Rightarrow> int) \<Rightarrow> int \<Rightarrow> nat \<Rightarrow> int \<Rightarrow> (nat \<times> int) option" where
  "br_mcs_up tb need mcs tbs = (if tbs < need then br_mcs_up tb need (mcs + 1) (tb (mcs + 1)) else Some (mcs, tbs))"

definition br_search :: "'r br_env \<Rightarrow> int \<Rightarrow> int \<Rightarrow> (nat \<times> int) option" where
  "br_search env tbs need =
     (case mcs_down (tbs6 env) need 6 9 tbs of (mcs, tbs1) \<Rightarrow> br_mcs_up (\<lambda>m. tbs6 env m 6) need mcs tbs1)"

text \<open>The header lengths without the length field of the last SDU.\<close>

definition br_headers :: "int \<Rightarrow> int \<Rightarrow> int \<Rightarrow> int \<times> int" where
  "br_headers hc ht hl = (if ht = 0 then (if 0 < hc then 1 else 0, ht) else (hc, ht - (hl - 1)))"

definition br_padding :: "int \<Rightarrow> int \<Rightarrow> int \<Rightarrow> int \<Rightarrow> int \<Rightarrow> int \<Rightarrow> int \<times> int" where
  "br_padding tbs tot ta_len hc ht hl =
     (let (hc', ht') = br_headers hc ht hl; rest = tbs - hc' - ht' - tot - ta_len in
      if rest \<le> 2 then (rest, 0)
      else (0, tbs - tot - (if ht' = 0 then hc else hc') - (if ht' = 0 then ht' else ht) - ta_len))"

definition br_build :: "'r br_env \<Rightarrow> int \<Rightarrow> nat \<Rightarrow> int \<Rightarrow> int \<Rightarrow> int \<Rightarrow> br_locals \<Rightarrow> br_error + mac_pdu" where
  "br_build env tbs ta hc ht hl lo =
     (let (p, pp) = br_padding tbs (int (lo_total lo)) (ta_length ta) hc ht hl in
      if length (lo_lengths lo) < lo_num lo \<or> length (lo_lcids lo) < lo_num lo \<or> length (lo_buf lo) < lo_total lo then Inl Br_Bounds
      else case generate_dlsch_header (lcs (bdl env)) (zip (take (lo_num lo) (lo_lcids lo)) (take (lo_num lo) (lo_lengths lo)))
             255 ta None (nat (p mod 256)) (nat (pp mod 2 ^ 16)) of
          Inl e \<Rightarrow> Inl (Br_Header e)
        | Inr (hs, ce, offset) \<Rightarrow>
            Inr \<lparr>pdu_subs = hs, pdu_ce = ce, pdu_offset = offset,
                 pdu_body = take (lo_total lo) (lo_buf lo) @ map (taus env) [0..<nat (tbs - int (lo_total lo) - int offset)]\<rparr>)"

text \<open>The branch for round 8: there is nothing to repeat. The result says whether a block was built.\<close>

definition br_new :: "'r br_env \<Rightarrow> nat \<Rightarrow> nat \<Rightarrow> br_locals \<times> 'r br_ue \<Rightarrow> br_error + bool \<times> br_locals \<times> 'r br_ue" where
  "br_new env frame subframe st = (case st of (lo, u) \<Rightarrow>
     let tbs = tbs6 env 9 6; (ta, ctl) = take_ta (u_ctl (br_ue u)); ta_len = ta_length ta in
     rbind (br_pick env tbs ta_len (lo, ctl)) (\<lambda>(hc, ht, hl, lo', ctl').
       let u1 = u\<lparr>br_ue := (br_ue u)\<lparr>u_ctl := ctl'\<rparr>\<rparr>; tot = int (lo_total lo'); (hc', ht') = br_headers hc ht hl in
       if 0 < tot + hc + ht then
         (case br_search env tbs (tot + hc' + ht' + ta_len) of
            None \<Rightarrow> Inl Br_Endless
          | Some (mcs, tbs') \<Rightarrow>
              rbind (br_build env tbs' ta hc ht hl lo') (\<lambda>pdu.
                let (tpc, v) = pucch_tpc (br_puCch10xSnr env) frame subframe (br_ue u1) in
                Inr (True, lo'\<lparr>lo_mcs := mcs\<rparr>,
                  u1\<lparr>br_payload := Some pdu, br_ue := upd_harq 0 (\<lambda>h. h\<lparr>hp_round := 0, oldNDI := 1 - oldNDI h\<rparr>) v\<rparr>)))
       else Inr (False, lo', u1)))"

section \<open>Subframes 5 and 7\<close>

definition upd_br :: "nat \<Rightarrow> ('r br_ue \<Rightarrow> 'r br_ue) \<Rightarrow> 'r br_cell \<Rightarrow> 'r br_cell" where
  "upd_br i f c = c\<lparr>br_ues := (br_ues c)(i := f (br_ues c i))\<rparr>"

definition mpdcch_of :: "'r br_env \<Rightarrow> nat \<Rightarrow> nat \<Rightarrow> nat \<Rightarrow> nat \<Rightarrow> mpdcch_conf \<Rightarrow> nat \<Rightarrow> 'r ue \<Rightarrow> mpdcch" where
  "mpdcch_of env frame subframe mcs rnd mc start u =
     \<lparr>mp_rnti = u_rnti u, mp_dci_format = (if 1 < rach_resource_type u then 11 else 10), mpdcch_narrow_band = mpdcch_Narrowband_r13 mc - 1,
      mpdcch_transmission_type = transmissionType_r11 mc, mp_start_symbol = start, mp_ce_mode = (if rach_resource_type u < 3 then 1 else 2),
      drms_scrambling_init = dmrs_ScramblingSequenceInt_r11 mc, mp_initial_transmission_sf_io = frame * 10 + subframe,
      mp_resource_block_coding = getRIV env 6 0 6 OR push_bit 5 (mpdcch_Narrowband_r13 mc - 1), mp_mcs = mcs,
      mp_redundancy_version = rvseq ! (rnd mod 4), mp_new_data_indicator = oldNDI (u_harq u 0)\<rparr>"

text \<open>The MPDCCH request goes to element \<open>slot\<close> of the array, which was the first free one when the function was called.\<close>

definition br_announce :: "'r br_env \<Rightarrow> nat \<Rightarrow> nat \<Rightarrow> nat \<Rightarrow> nat \<Rightarrow> mpdcch_conf \<Rightarrow> nat \<Rightarrow> nat \<Rightarrow> 'r br_cell \<Rightarrow> br_error + 'r br_cell" where
  "br_announce env slot frame subframe i mc mcs rnd c = (case startSymbol_r11 mc of
     None \<Rightarrow> Inl Br_Assert
   | Some start \<Rightarrow>
       Inr (upd_br i (\<lambda>u. u\<lparr>br_mcs := mcs\<rparr>)
         (c\<lparr>dl_slots := (dl_slots c)(slot := Some (Mpdcch (mpdcch_of env frame subframe mcs rnd mc start (br_ue (br_ues c i))))),
            number_pdu := number_pdu c + 1\<rparr>)))"

definition br_subframe5 :: "'r br_env \<Rightarrow> nat \<Rightarrow> nat \<Rightarrow> nat \<Rightarrow> nat \<Rightarrow> mpdcch_conf \<Rightarrow> br_locals \<times> 'r br_cell \<Rightarrow> br_error + br_locals \<times> 'r br_cell" where
  "br_subframe5 env slot frame subframe i mc st = (case st of (lo, c) \<Rightarrow>
     let rnd = hp_round (u_harq (br_ue (br_ues c i)) 0) in
     rbind (if rnd = 8
            then rbind (br_new env frame subframe (lo, br_ues c i)) (\<lambda>(built, lo1, u). Inr (if built then 0 else 8, lo1, upd_br i (\<lambda>_. u) c))
            else Inr (rnd, lo, c)) (\<lambda>(rnd1, lo1, c1).
       if rnd1 < 8 then rbind (br_announce env slot frame subframe i mc (lo_mcs lo1) rnd1 c1) (\<lambda>c2. Inr (lo1, c2))
       else Inr (lo1, c1)))"

definition br_dlsch_of :: "'r br_env \<Rightarrow> nat \<Rightarrow> nat \<Rightarrow> nat \<Rightarrow> mpdcch_conf \<Rightarrow> nat \<Rightarrow> 'r ue \<Rightarrow> br_dlsch" where
  "br_dlsch_of env frame subframe idx mc start u =
     \<lparr>bd_pdu_index = idx, bd_rnti = u_rnti u,
      bd_resource_block_coding = getRIV env (to_prb env) (narrowband_to_first_rb env (mpdcch_Narrowband_r13 mc - 1)) 6,
      bd_transmission_scheme = (if p_eNB env = 1 then 0 else 1), bd_transmission_mode = (if p_eNB env = 1 then 1 else 2), bd_pdsch_start = start,
      bd_ue_type = (if rach_resource_type u < 3 then 1 else 2), bd_initial_transmission_sf_io = 10 * frame + subframe\<rparr>"

definition br_subframe7 ::
  "'r br_env \<Rightarrow> (nat \<Rightarrow> int) \<times> (nat \<Rightarrow> nat) \<Rightarrow> nat \<Rightarrow> nat \<Rightarrow> nat \<Rightarrow> mpdcch_conf \<Rightarrow> 'r br_cell \<Rightarrow> br_error + 'r br_cell" where
  "br_subframe7 env ce frame subframe i mc c =
     (let u = br_ues c i; v = br_ue u; level = rach_resource_type v - 1; ack_sf = (frame * 10 + subframe + 4) mod 10 in
      case startSymbol_r11 mc of
        None \<Rightarrow> Inl Br_Null
      | Some start \<Rightarrow>
          if 4 \<le> level then Inl Br_Bounds
          else if br_tdd_Config env then Inl Br_Assert
          else Inr (c\<lparr>dl_slots := (dl_slots c)(number_pdu c := Some (Br_Dlsch (br_dlsch_of env frame subframe (br_pdu_index c) mc start v))),
                      number_pdu := number_pdu c + 1, br_pdu_index := br_pdu_index c + 1,
                      tx_list := tx_list c @ [\<lparr>tx_length = get_TBS_DL (bdl env) (br_mcs u) 6, tx_index = br_pdu_index c, tx_data = br_payload u\<rparr>],
                      UL_req_tmp := (UL_req_tmp c)(ack_sf := UL_req_tmp c ack_sf @
                        [\<lparr>uci_rnti = u_rnti v, uci_ue_type = (if rach_resource_type v < 3 then 1 else 2),
                          total_number_of_repetitions = snd ce level, n_pucch_1_0 = fst ce level\<rparr>])\<rparr>))"

definition schedule_br_ue ::
  "'r br_env \<Rightarrow> (nat \<Rightarrow> int) \<times> (nat \<Rightarrow> nat) \<Rightarrow> nat \<Rightarrow> nat \<Rightarrow> nat \<Rightarrow> nat \<Rightarrow> br_locals \<times> 'r br_cell \<Rightarrow> br_error + br_locals \<times> 'r br_cell" where
  "schedule_br_ue env ce slot frame subframe i st = (case st of (lo, c) \<Rightarrow>
     let u = br_ues c i; v = br_ue u in
     if u_rnti v = NOT_A_RNTI env \<or> rach_resource_type v = 0 \<or> br_rrc_status env (u_rnti v) < BR_RRC_CONNECTED env then Inr st
     else case br_mpdcch u of
         None \<Rightarrow> Inl Br_Assert
       | Some mc \<Rightarrow>
           if subframe = 5 then br_subframe5 env slot frame subframe i mc st
           else if subframe = 7 \<and> hp_round (u_harq v 0) < 8 then rbind (br_subframe7 env ce frame subframe i mc c) (\<lambda>c'. Inr (lo, c'))
           else Inr st)"

definition no_locals :: "'r br_env \<Rightarrow> byte list \<Rightarrow> br_locals" where
  "no_locals env junk = \<lparr>lo_mcs = 0, lo_num = 0, lo_lengths = replicate (NB_RB_MAX (conf (bdl env))) 0,
     lo_lcids = replicate (NB_RB_MAX (conf (bdl env))) 0, lo_total = 0, lo_buf = junk\<rparr>"

definition schedule_ue_spec_br :: "'r br_env \<Rightarrow> byte list \<Rightarrow> nat \<Rightarrow> nat \<Rightarrow> nat list \<Rightarrow> 'r br_cell \<Rightarrow> br_error + 'r br_cell" where
  "schedule_ue_spec_br env junk frame subframe ids c =
     (if even frame \<or> schedulingInfoSIB1_BR_r13 env = 0 then Inr c
      else rbind (ce_levels (radioResourceConfigCommon_BR env)) (\<lambda>ce.
        rbind (rfold (schedule_br_ue env ce (number_pdu c) frame subframe) ids (no_locals env junk, c)) (\<lambda>(lo, c'). Inr c')))"

section \<open>Specification\<close>

text \<open>The SDUs \<open>ds\<close> (channel and data) are in the local variables; the arrays have \<open>n\<close> elements.\<close>

definition br_has :: "nat \<Rightarrow> (nat \<times> byte list) list \<Rightarrow> br_locals \<Rightarrow> bool" where
  "br_has n ds lo \<longleftrightarrow> lo_num lo = length ds \<and> length ds \<le> n \<and> length (lo_lengths lo) = n \<and> length (lo_lcids lo) = n \<and>
     take (length ds) (lo_lcids lo) = map fst ds \<and> take (length ds) (lo_lengths lo) = map (\<lambda>x. length (snd x)) ds \<and>
     lo_total lo = length (concat (map snd ds)) \<and> take (length (concat (map snd ds))) (lo_buf lo) = concat (map snd ds) \<and> lo_total lo \<le> length (lo_buf lo)"

text \<open>The size of a subheader with length.\<close>

definition sub_bytes :: "nat \<times> byte list \<Rightarrow> int" where
  "sub_bytes x = (if length (snd x) < 128 then 2 else 3)"

definition header_bytes :: "(nat \<times> byte list) list \<Rightarrow> int" where
  "header_bytes ds = sum_list (map sub_bytes ds)"

text \<open>A block that is filled exactly and whose SDUs the UE finds.\<close>

definition exact_block :: "'r br_env \<Rightarrow> int \<Rightarrow> (nat \<times> byte list) list \<Rightarrow> mac_pdu \<Rightarrow> bool" where
  "exact_block env tbs ds pdu \<longleftrightarrow> int (pdu_offset pdu + length (pdu_body pdu)) = tbs \<and>
     ue_sdus (controls (lcs (bdl env))) (pdu_subs pdu) (pdu_body pdu) = ds"

text \<open>What the scheduler relies on: RLC keeps to the announced size, the second signalling bearer is idle, the timing advance element has
  one byte, the arrays and the buffer are large enough, and no block of scheme 9 has room for a signalling SDU of 128 bytes.\<close>

definition br_ok :: "'r br_env \<Rightarrow> br_locals \<Rightarrow> bool" where
  "br_ok env lo \<longleftrightarrow> rlc_keeps_size (bdl env) \<and> (\<forall>n r. fst (rlc_status (bdl env) (DCCH (bdl env) + 1) n r) \<le> 0) \<and>
     (\<forall>t. length (ta_element (lcs (bdl env)) t) = 1) \<and> lcids_ok (lcs (bdl env)) \<and>
     (\<forall>c. c \<in> insert (DCCH (bdl env)) {DTCH (conf (bdl env))..<NB_RB_MAX (conf (bdl env))} \<longrightarrow> c < 32 \<and> c \<notin> controls (lcs (bdl env))) \<and>
     DCCH (bdl env) < DTCH (conf (bdl env)) \<and> 1 < DTCH (conf (bdl env)) \<and> DTCH (conf (bdl env)) < NB_RB_MAX (conf (bdl env)) \<and> length (lo_lengths lo) = NB_RB_MAX (conf (bdl env)) \<and>
     length (lo_lcids lo) = NB_RB_MAX (conf (bdl env)) \<and> tbs6 env 9 6 \<le> int (length (lo_buf lo)) \<and> 4 < tbs6 env 9 6 \<and> tbs6 env 9 6 < 130"

text \<open>Who is served in subframe 7, and what is then sent.\<close>

definition br_waits :: "'r br_env \<Rightarrow> 'r br_ue \<Rightarrow> bool" where
  "br_waits env u \<longleftrightarrow> u_rnti (br_ue u) \<noteq> NOT_A_RNTI env \<and> rach_resource_type (br_ue u) \<noteq> 0 \<and>
     \<not> br_rrc_status env (u_rnti (br_ue u)) < BR_RRC_CONNECTED env \<and> hp_round (u_harq (br_ue u) 0) < 8"

definition br_sent :: "'r br_env \<Rightarrow> 'r br_ue \<Rightarrow> int \<times> mac_pdu option" where
  "br_sent env u = (get_TBS_DL (bdl env) (br_mcs u) 6, br_payload u)"

text \<open>A UE with data on the default bearer only.\<close>

definition demo_br :: "unit br_env" where
  "demo_br = \<lparr>bdl = demo_dl\<lparr>rlc_status := (\<lambda>c n r. (if c = 3 \<and> 5 \<le> n then 5 else 0, r)), rlc_data := (\<lambda>c r. ([1, 2, 3, 4, 5], r))\<rparr>,
     schedulingInfoSIB1_BR_r13 = 1, radioResourceConfigCommon_BR = Some \<lparr>prach_count = 2, n1PUCCH_AN_InfoList = [8, 9], pucch_NumRepetitionCE = [Some 0, Some 1, None, None]\<rparr>,
     NOT_A_RNTI = 0, br_rrc_status = (\<lambda>_. 3), BR_RRC_CONNECTED = 3, br_puCch10xSnr = 100, br_tdd_Config = False, p_eNB = 1, to_prb = 25,
     getRIV = (\<lambda>a b c. a * b + c), narrowband_to_first_rb = (\<lambda>n. 6 * n), taus = (\<lambda>_. 0)\<rparr>"

definition demo_br_ue :: "nat \<Rightarrow> unit br_ue" where
  "demo_br_ue r = \<lparr>br_ue = (demo_user 7 r)\<lparr>rach_resource_type := 1\<rparr>, br_mcs = 5, br_payload = None,
     br_mpdcch = Some \<lparr>mpdcch_Narrowband_r13 = 2, transmissionType_r11 = 0, dmrs_ScramblingSequenceInt_r11 = 0, startSymbol_r11 = Some 1\<rparr>\<rparr>"

definition demo_br_cell :: "nat \<Rightarrow> unit br_cell" where
  "demo_br_cell r = \<lparr>br_ues = (\<lambda>_. demo_br_ue r), dl_slots = (\<lambda>_. None), number_pdu = 2, br_pdu_index = 0, tx_list = [], UL_req_tmp = (\<lambda>_. [])\<rparr>"

section \<open>Lemmas\<close>

subsection \<open>Taking SDUs\<close>

lemma header_bytes_pos: "2 * int (length ds) \<le> header_bytes ds"
  by (induction ds) (auto simp: header_bytes_def sub_bytes_def)

lemma sub_bytes_last: "ds \<noteq> [] \<Longrightarrow> sub_bytes (last ds) \<le> header_bytes ds"
  using header_bytes_pos [of "butlast ds"] by (cases ds rule: rev_cases) (auto simp: header_bytes_def)

lemma br_take_has:
  assumes "br_has n ds lo" and "length ds < n" and "rlc_data (bdl env) lcid (rlc u) = (d, r)" and "lo_total lo + length d \<le> length (lo_buf lo)"
    and "lo_total lo + length d < 2 ^ 16"
  shows "\<exists>lo2. br_take env (lo_total lo) (lo_num lo) lcid (lo, u) = Inr (length d, lo2, u\<lparr>rlc := r\<rparr>) \<and> lo_total lo2 = lo_total lo \<and> lo_num lo2 = lo_num lo \<and>
    lo_mcs lo2 = lo_mcs lo \<and> length (lo_buf lo2) = length (lo_buf lo) \<and>
    br_has n (ds @ [(lcid, d)]) (lo2\<lparr>lo_total := (lo_total lo2 + length d) mod 2 ^ 16, lo_num := lo_num lo2 + 1\<rparr>)"
proof -
  let ?lo = "lo\<lparr>lo_buf := put_bytes (lo_total lo) d (lo_buf lo), lo_lengths := (lo_lengths lo)[lo_num lo := length d], lo_lcids := (lo_lcids lo)[lo_num lo := lcid]\<rparr>"
  have "length d mod 2 ^ 16 = length d" using assms(5) by simp
  then have "br_take env (lo_total lo) (lo_num lo) lcid (lo, u) = Inr (length d, ?lo, u\<lparr>rlc := r\<rparr>)"
    using assms by (simp add: br_take_def br_has_def Let_def)
  moreover have "take (Suc k) (xs[k := x]) = take k xs @ [x]" if "k < length xs" for k x and xs :: "nat list"
    using that by (simp add: take_Suc_conv_app_nth)
  moreover have "take (lo_total lo + length d) (put_bytes (lo_total lo) d (lo_buf lo)) = take (lo_total lo) (lo_buf lo) @ d"
    using assms(4) by (simp add: put_bytes_def)
  ultimately show ?thesis using assms by (simp add: br_has_def)
qed

lemma rlc_keeps_sizeD:
  "rlc_keeps_size env \<Longrightarrow> rlc_status env lcid n r = (b, r') \<Longrightarrow> 0 < b \<Longrightarrow> int (length (fst (rlc_data env lcid r'))) \<le> n"
  unfolding rlc_keeps_size_def by (metis (mono_tags, lifting) case_prod_conv)

text \<open>The user plane: if the lowest channel had data, the last header length is that of the last SDU.\<close>

lemma br_dtch_loop_has:
  assumes "br_has n ds lo" and "rlc_keeps_size (bdl env)" and "rest \<le> int (length (lo_buf lo))" and "rest < 2 ^ 16" and "length ds + length lcids \<le> n"
    and "0 \<le> ht" and "int (lo_total lo) + ht \<le> rest" and "distinct lcids"
  shows "\<exists>es hl' lo' u'. br_dtch_loop env rest lcids ht hl (lo, u) = Inr (ht + header_bytes es, hl', lo', u') \<and> br_has n (ds @ es) lo' \<and>
    int (lo_total lo') + ht + header_bytes es \<le> rest \<and> fst ` set es \<subseteq> set lcids \<and> lo_mcs lo' = lo_mcs lo \<and> length (lo_buf lo') = length (lo_buf lo) \<and>
    (es \<noteq> [] \<and> fst (last es) = last lcids \<longrightarrow> hl' = sub_bytes (last es))"
  using assms
proof (induction lcids arbitrary: ds lo u ht hl)
  case Nil
  then show ?case by (intro exI [of _ "[]"]) (simp add: header_bytes_def)
next
  case (Cons c lcids)
  let ?free = "rest - int (lo_total lo) - (ht + 3)"
  obtain b r where br: "rlc_status (bdl env) c ?free (rlc u) = (b, r)" by fastforce
  consider (full) "?free \<le> 0" | (idle) "0 < ?free" "b \<le> 0" | (data) "0 < ?free" "0 < b" by linarith
  then show ?case
  proof cases
    case full
    then show ?thesis using Cons.prems by (intro exI [of _ "[]"]) (simp add: header_bytes_def)
  next
    case idle
    from Cons.IH [OF Cons.prems(1-4) _ Cons.prems(6,7), of 3 "u\<lparr>rlc := r\<rparr>"] Cons.prems(5,8) obtain es hl' lo' u' where
      es: "br_dtch_loop env rest lcids ht 3 (lo, u\<lparr>rlc := r\<rparr>) = Inr (ht + header_bytes es, hl', lo', u')" "br_has n (ds @ es) lo'"
        "int (lo_total lo') + ht + header_bytes es \<le> rest" "fst ` set es \<subseteq> set lcids" "lo_mcs lo' = lo_mcs lo" "length (lo_buf lo') = length (lo_buf lo)"
        "es \<noteq> [] \<and> fst (last es) = last lcids \<longrightarrow> hl' = sub_bytes (last es)" by auto
    moreover have "es \<noteq> [] \<Longrightarrow> lcids \<noteq> []" using es(4) by auto
    ultimately show ?thesis using idle br by (intro exI [of _ es] exI [of _ hl'] exI [of _ lo'] exI [of _ u']) auto
  next
    case data
    obtain d r2 where d: "rlc_data (bdl env) c r = (d, r2)" by fastforce
    have n: "int (length d) \<le> ?free" using rlc_keeps_sizeD [OF Cons.prems(2) br data(2)] d by simp
    define t where "t = (if rrc_context (bdl env) then 1 else ue_rrc_inactivity_timer u)"
    let ?u = "u\<lparr>rlc := r, ue_rrc_inactivity_timer := t\<rparr>"
    have "\<exists>lo2. br_take env (lo_total lo) (lo_num lo) c (lo, ?u) = Inr (length d, lo2, ?u\<lparr>rlc := r2\<rparr>) \<and> lo_total lo2 = lo_total lo \<and> lo_num lo2 = lo_num lo \<and>
        lo_mcs lo2 = lo_mcs lo \<and> length (lo_buf lo2) = length (lo_buf lo) \<and>
        br_has n (ds @ [(c, d)]) (lo2\<lparr>lo_total := (lo_total lo2 + length d) mod 2 ^ 16, lo_num := lo_num lo2 + 1\<rparr>)"
      using Cons.prems(1,3-7) n d by (intro br_take_has) auto
    then obtain lo2 where lo2: "br_take env (lo_total lo) (lo_num lo) c (lo, ?u) = Inr (length d, lo2, ?u\<lparr>rlc := r2\<rparr>)" "lo_total lo2 = lo_total lo"
        "lo_mcs lo2 = lo_mcs lo" "length (lo_buf lo2) = length (lo_buf lo)"
        "br_has n (ds @ [(c, d)]) (lo2\<lparr>lo_total := (lo_total lo2 + length d) mod 2 ^ 16, lo_num := lo_num lo2 + 1\<rparr>)" by blast
    let ?lo = "lo2\<lparr>lo_total := (lo_total lo2 + length d) mod 2 ^ 16, lo_num := lo_num lo2 + 1\<rparr>" and ?s = "sub_bytes (c, d)"
    have tot: "(lo_total lo2 + length d) mod 2 ^ 16 = lo_total lo + length d" using lo2(2) n Cons.prems(4,6,7) by simp
    have s: "2 \<le> ?s" "?s \<le> 3" by (simp_all add: sub_bytes_def)
    from Cons.IH [OF lo2(5) Cons.prems(2), of "ht + ?s" ?s "?u\<lparr>rlc := r2\<rparr>"] Cons.prems(3-8) tot n s lo2(4) obtain es hl' lo' u' where
      es: "br_dtch_loop env rest lcids (ht + ?s) ?s (?lo, ?u\<lparr>rlc := r2\<rparr>) = Inr (ht + ?s + header_bytes es, hl', lo', u')" "br_has n ((ds @ [(c, d)]) @ es) lo'"
        "int (lo_total lo') + (ht + ?s) + header_bytes es \<le> rest" "fst ` set es \<subseteq> set lcids" "lo_mcs lo' = lo_mcs ?lo" "length (lo_buf lo') = length (lo_buf ?lo)"
        "es \<noteq> [] \<and> fst (last es) = last lcids \<longrightarrow> hl' = sub_bytes (last es)" by auto
    have step: "br_dtch_loop env rest (c # lcids) ht hl (lo, u) = br_dtch_loop env rest lcids (ht + ?s) ?s (?lo, ?u\<lparr>rlc := r2\<rparr>)"
      using data br lo2(1) by (cases "rrc_context (bdl env)") (simp_all add: sub_bytes_def t_def Let_def)
    have last: "hl' = sub_bytes (last ((c, d) # es))" if "fst (last ((c, d) # es)) = last (c # lcids)"
    proof (cases es)
      case Nil
      then have "lcids = []" using that Cons.prems(8) by (metis distinct.simps(2) fst_conv last.simps last_in_set)
      then show ?thesis using es(1) Nil by (simp add: header_bytes_def)
    next
      case (Cons e es')
      then have "lcids \<noteq> []" using es(4) by auto
      then show ?thesis using es(7) that Cons by simp
    qed
    show ?thesis using step es lo2(3,4) last
      by (intro exI [of _ "(c, d) # es"] exI [of _ hl'] exI [of _ lo'] exI [of _ u']) (auto simp: header_bytes_def)
  qed
qed

lemma br_dtch_loop_last:
  "br_dtch_loop env rest lcids ht hl st = Inr (ht', hl', st') \<Longrightarrow> lcids \<noteq> [] \<or> hl \<in> {2, 3} \<Longrightarrow> hl' \<in> {2, 3}"
  by (induction lcids arbitrary: ht hl st) (auto simp: rbind_Inr_conv Let_def split: if_splits prod.splits)

lemma br_dcch_has:
  assumes "br_ok env lo" and "lo_num lo = 0" and "0 < rest" and "rest + 2 \<le> tbs6 env 9 6"
  shows "\<exists>ds lo' u'. br_dcch env rest (lo, u) = Inr (header_bytes ds, lo', u') \<and> br_has (NB_RB_MAX (conf (bdl env))) ds lo' \<and>
    (ds = [] \<or> (\<exists>d. ds = [(DCCH (bdl env), d)] \<and> length d < 128)) \<and> int (lo_total lo') \<le> rest \<and> lo_mcs lo' = lo_mcs lo \<and> length (lo_buf lo') = length (lo_buf lo)"
proof -
  let ?n = "NB_RB_MAX (conf (bdl env))" and ?c = "DCCH (bdl env)"
  obtain b r where br: "rlc_status (bdl env) ?c rest (rlc u) = (b, r)" by fastforce
  let ?lo = "lo\<lparr>lo_lengths := (lo_lengths lo)[0 := 0]\<rparr>" and ?u = "u\<lparr>rlc := r\<rparr>"
  have n: "length (lo_lengths lo) = ?n" "length (lo_lcids lo) = ?n" "0 < ?n" "rest \<le> int (length (lo_buf lo))" "rest < 128" "rlc_keeps_size (bdl env)" "lo_lengths lo \<noteq> []"
    using assms unfolding br_ok_def by auto
  have has: "br_has ?n [] (?lo\<lparr>lo_total := 0\<rparr>)" using n assms(2) by (simp add: br_has_def)
  show ?thesis
  proof (cases "0 < b")
    case False
    then have "br_dcch env rest (lo, u) = Inr (0, ?lo\<lparr>lo_total := 0\<rparr>, ?u)" using br n assms(3) by (simp add: br_dcch_def Let_def)
    then show ?thesis using has assms(3) by (intro exI [of _ "[]"] exI [of _ "?lo\<lparr>lo_total := 0\<rparr>"] exI [of _ ?u]) (simp add: header_bytes_def)
  next
    case True
    obtain d r2 where d: "rlc_data (bdl env) ?c r = (d, r2)" by fastforce
    have len: "int (length d) \<le> rest" using rlc_keeps_sizeD [OF n(6) br True] d by simp
    have "\<exists>lo2. br_take env 0 0 ?c (?lo\<lparr>lo_total := 0\<rparr>, ?u) = Inr (length d, lo2, ?u\<lparr>rlc := r2\<rparr>) \<and> lo_total lo2 = 0 \<and> lo_num lo2 = 0 \<and>
        lo_mcs lo2 = lo_mcs lo \<and> length (lo_buf lo2) = length (lo_buf lo) \<and>
        br_has ?n ([] @ [(?c, d)]) (lo2\<lparr>lo_total := (lo_total lo2 + length d) mod 2 ^ 16, lo_num := lo_num lo2 + 1\<rparr>)"
      using br_take_has [OF has, of env ?c ?u d r2] n len d assms(2) by simp
    then obtain lo2 where lo2: "br_take env 0 0 ?c (?lo\<lparr>lo_total := 0\<rparr>, ?u) = Inr (length d, lo2, ?u\<lparr>rlc := r2\<rparr>)" "lo_total lo2 = 0" "lo_num lo2 = 0"
        "lo_mcs lo2 = lo_mcs lo" "length (lo_buf lo2) = length (lo_buf lo)"
        "br_has ?n [(?c, d)] (lo2\<lparr>lo_total := (lo_total lo2 + length d) mod 2 ^ 16, lo_num := lo_num lo2 + 1\<rparr>)" by auto
    have "br_take env 0 0 ?c (?lo, ?u) = Inr (length d, lo2\<lparr>lo_total := lo_total lo\<rparr>, ?u\<lparr>rlc := r2\<rparr>)"
      using lo2(1) d by (auto simp: br_take_def Let_def split: if_splits)
    then have "br_dcch env rest (lo, u) = Inr (2, lo2\<lparr>lo_total := length d, lo_num := 1\<rparr>, count_tx ?c (length d) (?u\<lparr>rlc := r2\<rparr>))"
      using br True n assms(3) by (simp add: br_dcch_def Let_def)
    then show ?thesis using lo2 len n(5)
      by (intro exI [of _ "[(?c, d)]"] exI [of _ "lo2\<lparr>lo_total := length d, lo_num := 1\<rparr>"] exI) (simp add: header_bytes_def sub_bytes_def)
  qed
qed

lemma br_dcch1_idle:
  assumes "\<And>m r. fst (rlc_status (bdl env) (DCCH (bdl env) + 1) m r) \<le> 0" and "br_has n ds lo" and "lo_num lo < n"
  shows "\<exists>lo' u'. br_dcch1 env rest (hc, lo, u) = Inr (hc, lo', u') \<and> br_has n ds lo' \<and> lo_total lo' = lo_total lo \<and> lo_mcs lo' = lo_mcs lo \<and>
    length (lo_buf lo') = length (lo_buf lo)"
proof (cases "0 < rest - hc - int (lo_total lo)")
  case True
  let ?lo = "lo\<lparr>lo_lengths := (lo_lengths lo)[lo_num lo := 0]\<rparr>"
  obtain b r where br: "rlc_status (bdl env) (DCCH (bdl env) + 1) (rest - hc - int (lo_total lo)) (rlc u) = (b, r)" by fastforce
  have "b \<le> 0" using assms(1) br by (metis fst_conv)
  moreover have "br_has n ds ?lo" "length (lo_lengths lo) = n" using assms(2) by (simp_all add: br_has_def)
  ultimately show ?thesis using True br assms(3) by (intro exI [of _ ?lo] exI [of _ "u\<lparr>rlc := r\<rparr>"]) (simp add: br_dcch1_def Let_def)
next
  case False
  then show ?thesis using assms(2) by (simp add: br_dcch1_def Let_def)
qed

text \<open>All SDUs: the header lengths the code computes are right if the last SDU is of the lowest channel, or the only one is signalling.\<close>

lemma br_pick_has:
  assumes "br_ok env lo" and "lo_num lo = 0" and "ta_len \<in> {0, 2}"
  obtains hc ht hl lo' u' ds where "br_pick env (tbs6 env 9 6) ta_len (lo, u) = Inr (hc, ht, hl, lo', u')" "br_has (NB_RB_MAX (conf (bdl env))) ds lo'"
    "hc + ht = header_bytes ds" "0 \<le> hc" "0 \<le> ht" "int (lo_total lo') + hc + ht + ta_len \<le> tbs6 env 9 6" "lo_mcs lo' = lo_mcs lo"
    "fst ` set ds \<subseteq> insert (DCCH (bdl env)) {DTCH (conf (bdl env))..<NB_RB_MAX (conf (bdl env))}"
    "ht = 0 \<longrightarrow> length ds \<le> 1 \<and> list_all (\<lambda>x. length (snd x) < 128) ds"
    "ht \<noteq> 0 \<longrightarrow> fst (last ds) \<noteq> DCCH (bdl env) \<and> hl \<le> 3 \<and> 2 \<le> hl \<and> sub_bytes (last ds) \<le> ht"
    "ht \<noteq> 0 \<longrightarrow> fst (last ds) = DTCH (conf (bdl env)) \<longrightarrow> hl = sub_bytes (last ds)"
proof -
  let ?n = "NB_RB_MAX (conf (bdl env))" and ?tbs = "tbs6 env 9 6" and ?d = "DTCH (conf (bdl env))"
  let ?lcids = "rev [?d..<?n]"
  have ok: "rlc_keeps_size (bdl env)" "4 < ?tbs" "?tbs < 130" "?tbs \<le> int (length (lo_buf lo))" "1 < ?d" "?d < ?n"
      "fst (rlc_status (bdl env) (DCCH (bdl env) + 1) m r) \<le> 0" for m r
    using assms(1) unfolding br_ok_def by auto
  obtain ds1 lo1 u1 where 1: "br_dcch env (?tbs - ta_len - 2) (lo, u) = Inr (header_bytes ds1, lo1, u1)" "br_has ?n ds1 lo1"
      "ds1 = [] \<or> (\<exists>d. ds1 = [(DCCH (bdl env), d)] \<and> length d < 128)" "int (lo_total lo1) \<le> ?tbs - ta_len - 2" "lo_mcs lo1 = lo_mcs lo" "length (lo_buf lo1) = length (lo_buf lo)"
    using br_dcch_has [OF assms(1,2), of "?tbs - ta_len - 2" u] ok(2) assms(3) by auto
  have h1: "header_bytes ds1 = 2 * int (length ds1)" "length ds1 \<le> 1" using 1(3) by (auto simp: header_bytes_def sub_bytes_def)
  have tot0: "ds1 = [] \<Longrightarrow> lo_total lo1 = 0" using 1(2) by (simp add: br_has_def)
  have fit: "int (lo_total lo1) + header_bytes ds1 + ta_len \<le> ?tbs" using 1(4) h1 tot0 by (cases ds1) auto
  have num: "lo_num lo1 < ?n" using 1(2) h1(2) ok(5,6) by (auto simp: br_has_def)
  obtain lo2 u2 where 2: "br_dcch1 env (?tbs - ta_len) (header_bytes ds1, lo1, u1) = Inr (header_bytes ds1, lo2, u2)" "br_has ?n ds1 lo2"
      "lo_total lo2 = lo_total lo1" "lo_mcs lo2 = lo_mcs lo1" "length (lo_buf lo2) = length (lo_buf lo1)"
    using br_dcch1_idle [OF ok(7) 1(2) num(1)] by blast
  have "\<exists>es hl' lo' u'. br_dtch_loop env (?tbs - ta_len - header_bytes ds1) ?lcids 0 0 (lo2, u2) = Inr (0 + header_bytes es, hl', lo', u') \<and> br_has ?n (ds1 @ es) lo' \<and>
    int (lo_total lo') + 0 + header_bytes es \<le> ?tbs - ta_len - header_bytes ds1 \<and> fst ` set es \<subseteq> set ?lcids \<and> lo_mcs lo' = lo_mcs lo2 \<and> length (lo_buf lo') = length (lo_buf lo2) \<and>
    (es \<noteq> [] \<and> fst (last es) = last ?lcids \<longrightarrow> hl' = sub_bytes (last es))"
    using 1(6) 2(3,5) ok h1 fit assms(3) by (intro br_dtch_loop_has [OF 2(2) ok(1)]) auto
  then obtain es hl lo3 u3 where 3: "br_dtch_loop env (?tbs - ta_len - header_bytes ds1) ?lcids 0 0 (lo2, u2) = Inr (header_bytes es, hl, lo3, u3)" "br_has ?n (ds1 @ es) lo3"
      "int (lo_total lo3) + header_bytes es \<le> ?tbs - ta_len - header_bytes ds1" "fst ` set es \<subseteq> set ?lcids" "lo_mcs lo3 = lo_mcs lo2" "length (lo_buf lo3) = length (lo_buf lo2)"
      "es \<noteq> [] \<and> fst (last es) = last ?lcids \<longrightarrow> hl = sub_bytes (last es)" by auto
  have pos: "0 \<le> header_bytes es" "header_bytes es = 0 \<longleftrightarrow> es = []"
    using header_bytes_pos [of es] by (auto simp: header_bytes_def)
  have l: "last ?lcids = ?d" using ok(6) by (simp add: last_rev upt_conv_Cons)
  have all: "header_bytes (ds1 @ es) = header_bytes ds1 + header_bytes es" by (simp add: header_bytes_def)
  show thesis
  proof (rule that)
    show "br_pick env ?tbs ta_len (lo, u) = Inr (header_bytes ds1, header_bytes es, if header_bytes es = 0 then 0 else hl, lo3, u3)"
      using 1(1) 2(1) 3(1) by (simp add: br_pick_def)
    show "br_has ?n (ds1 @ es) lo3" by fact
    show "header_bytes ds1 + header_bytes es = header_bytes (ds1 @ es)" using all by simp
    show "int (lo_total lo3) + header_bytes ds1 + header_bytes es + ta_len \<le> ?tbs" using 3(3) by simp
    show "lo_mcs lo3 = lo_mcs lo" using 1(5) 2(4) 3(5) by simp
    show "fst ` set (ds1 @ es) \<subseteq> insert (DCCH (bdl env)) {?d..<?n}" using 1(3) 3(4) by auto
    show "header_bytes es = 0 \<longrightarrow> length (ds1 @ es) \<le> 1 \<and> list_all (\<lambda>x. length (snd x) < 128) (ds1 @ es)" using pos(2) 1(3) by auto
    let ?hl = "if header_bytes es = 0 then 0 else hl"
    have "fst (last (ds1 @ es)) \<noteq> DCCH (bdl env) \<and> ?hl \<le> 3 \<and> 2 \<le> ?hl \<and> sub_bytes (last (ds1 @ es)) \<le> header_bytes es" if "header_bytes es \<noteq> 0"
    proof -
      have "es \<noteq> []" using that pos(2) by simp
      moreover from this have "fst (last es) \<in> {?d..<?n}" using 3(4) last_in_set by fastforce
      moreover have "DCCH (bdl env) < ?d" using assms(1) by (simp add: br_ok_def)
      ultimately show ?thesis using br_dtch_loop_last [OF 3(1)] ok(6) that sub_bytes_last [of es] by auto
    qed
    then show "header_bytes es \<noteq> 0 \<longrightarrow> fst (last (ds1 @ es)) \<noteq> DCCH (bdl env) \<and> ?hl \<le> 3 \<and> 2 \<le> ?hl \<and> sub_bytes (last (ds1 @ es)) \<le> header_bytes es" by blast
    show "header_bytes es \<noteq> 0 \<longrightarrow> fst (last (ds1 @ es)) = ?d \<longrightarrow> ?hl = sub_bytes (last (ds1 @ es))" using pos(2) 3(7) l by auto
  qed (use h1(1) pos(1) in simp_all)
qed

subsection \<open>The transport block\<close>

text \<open>The search ends with a scheme of at most 9 if the block of scheme 9 is large enough.\<close>

lemma br_search_ok:
  assumes "need \<le> tbs6 env 9 6"
  shows "\<exists>k\<le>9. br_search env (tbs6 env 9 6) need = Some (k, tbs6 env k 6) \<and> need \<le> tbs6 env k 6"
proof -
  obtain k where k: "mcs_down (tbs6 env) need 6 9 (tbs6 env 9 6) = (k, tbs6 env k 6)" "k \<le> 9" "k = 9 \<or> need < tbs6 env (Suc k) 6"
    using mcs_down_ok [of "tbs6 env" need 6 9] by auto
  show ?thesis
  proof (cases "tbs6 env k 6 < need")
    case True
    then have "k \<noteq> 9" using assms by auto
    then have "br_mcs_up (\<lambda>m. tbs6 env m 6) need k (tbs6 env k 6) = Some (Suc k, tbs6 env (Suc k) 6)"
      using True k(3) by (subst br_mcs_up.simps) (simp add: br_mcs_up.simps)
    then show ?thesis using k \<open>k \<noteq> 9\<close> by (intro exI [of _ "Suc k"]) (auto simp: br_search_def)
  next
    case False
    then have "br_mcs_up (\<lambda>m. tbs6 env m 6) need k (tbs6 env k 6) = Some (k, tbs6 env k 6)" by (subst br_mcs_up.simps) simp
    then show ?thesis using k False by (intro exI [of _ k]) (auto simp: br_search_def)
  qed
qed

lemma sum_sub_size:
  "int (sum_list (map (\<lambda>x. sub_size (sdu_len (length (snd x)))) ds)) = header_bytes ds"
  by (induction ds) (auto simp: header_bytes_def sub_bytes_def sdu_len_def)

lemma br_build_exact:
  assumes "br_ok env lo0" and "br_has n ds lo" and "ds = es @ [(c, d)]" and sdus: "sdus_ok (lcs (bdl env)) ds" and "ta = 31 \<or> ta < 64"
    and hdr: "hc + ht = header_bytes ds" "br_headers hc ht hl = (hc', ht')" "hc' + ht' = header_bytes es + 1" "ht' = 0 \<longleftrightarrow> ht = 0" "ht \<noteq> 0 \<Longrightarrow> hc' = hc"
    and need: "int (lo_total lo) + hc' + ht' + ta_length ta \<le> tbs" and "tbs < 2 ^ 16"
  shows "\<exists>pdu. br_build env tbs ta hc ht hl lo = Inr pdu \<and> exact_block env tbs ds pdu"
proof -
  let ?lc = "lcs (bdl env)" and ?ta = "ta_length ta"
  define tot where "tot = int (lo_total lo)"
  define left where "left = tbs - hc' - ht' - tot - ?ta"
  have ok: "lcids_ok ?lc" "length (ta_element ?lc t) = 1" for t using assms(1) by (auto simp: br_ok_def)
  have has: "lo_num lo = length ds" "zip (take (length ds) (lo_lcids lo)) (take (length ds) (lo_lengths lo)) = map (\<lambda>(c, d). (c, length d)) ds"
      "take (lo_total lo) (lo_buf lo) = concat (map snd ds)" "lo_total lo \<le> length (lo_buf lo)" "lo_num lo \<le> length (lo_lengths lo)" "lo_num lo \<le> length (lo_lcids lo)"
    using assms(2) by (simp_all add: br_has_def zip_map_map zip_same_conv_map split_def comp_def)
  have sz: "header_bytes ds = header_bytes es + sub_bytes (c, d)" "2 \<le> sub_bytes (c, d)" "sub_bytes (c, d) \<le> 3" "0 \<le> left"
    using need by (simp_all add: assms(3) header_bytes_def sub_bytes_def left_def tot_def)
  define p where "p = (if left \<le> 2 then nat left else 0)"
  define pp where "pp = (if left \<le> 2 then 0 else nat (tbs - tot - header_bytes ds - ?ta))"
  have pos: "0 < pp \<longleftrightarrow> \<not> left \<le> 2" using hdr(3) sz by (auto simp: pp_def left_def)
  have pad: "br_padding tbs tot ?ta hc ht hl = (int p, int pp)"
    using hdr sz pos by (auto simp: br_padding_def p_def pp_def left_def)
  have small: "nat (int p mod 256) = p" "nat (int pp mod 2 ^ 16) = pp"
    using assms(12) sz(1,2) header_bytes_pos [of es] by (auto simp: p_def pp_def tot_def ta_length_def nat_mod_distrib)
  let ?pre = "pads ?lc p @ ces ?lc 255 ta None @ map (\<lambda>(c, d). (c, sdu_len (length d))) es"
  let ?tail = "if 0 < pp then [(c, sdu_len (length d)), (SHORT_PADDING ?lc, No_Length)] else [(c, No_Length)]"
  let ?ce = "if ta \<noteq> 31 then ta_element ?lc ta else []"
  let ?off = "sum_list (map (sub_size \<circ> snd) (?pre @ ?tail)) + length ?ce"
  have gen: "generate_dlsch_header ?lc (map (\<lambda>(c, d). (c, length d)) ds) 255 ta None p pp = Inr (mk_subs (?pre @ ?tail), ?ce, ?off)"
    using generate_dlsch_header_subs [OF ok(1) sdus [unfolded assms(3)] assms(5) refl refl refl, of 255 None p pp] by (simp add: assms(3))
  have off: "int ?off + tot + (if 0 < pp then int pp - 1 else 0) = tbs"
  proof -
    have "sum_list (map (sub_size \<circ> snd) (pads ?lc p)) = p" by (auto simp: pads_def p_def sum_list_replicate)
    moreover have "int (sum_list (map (sub_size \<circ> snd) (ces ?lc 255 ta None))) + int (length ?ce) = ?ta" using ok(2) by (simp add: ces_def ta_length_def)
    moreover have "int (sum_list (map (sub_size \<circ> snd) (map (\<lambda>(c, d). (c, sdu_len (length d))) es))) = header_bytes es"
      using sum_sub_size [of es] by (simp add: comp_def split_def)
    moreover have "int (sum_list (map (sub_size \<circ> snd) ?tail)) = (if 0 < pp then sub_bytes (c, d) + 1 else 1)" by (simp add: sub_bytes_def sdu_len_def)
    ultimately have "int ?off = int p + ?ta + header_bytes es + (if 0 < pp then sub_bytes (c, d) + 1 else 1)" by simp
    then show ?thesis using pos sz hdr(3) by (auto simp: p_def pp_def left_def)
  qed
  have body: "concat (map snd ds) = concat (map snd es) @ d" by (simp add: assms(3))
  let ?fill = "map (taus env) [0..<nat (tbs - tot - int ?off)]"
  have "br_build env tbs ta hc ht hl lo = Inr \<lparr>pdu_subs = mk_subs (?pre @ ?tail), pdu_ce = ?ce, pdu_offset = ?off, pdu_body = concat (map snd ds) @ ?fill\<rparr>"
    using has gen pad small by (simp add: br_build_def tot_def)
  moreover have "int (?off + length (concat (map snd ds) @ ?fill)) = tbs"
    using off assms(2) by (auto simp: br_has_def tot_def)
  moreover have "ue_sdus (controls ?lc) (mk_subs (?pre @ ?tail)) (concat (map snd ds) @ ?fill) = ds"
    using ue_sdus_subs [OF sdus [unfolded assms(3)] refl, of p 255 ta None pp ?fill] off by (auto simp: body assms(3))
  ultimately show ?thesis by (simp add: exact_block_def)
qed

text \<open>The header lengths without the length field of the last SDU, if its size is known.\<close>

lemma br_headers_last:
  assumes "br_headers hc ht hl = (hc', ht')" and "hc + ht = header_bytes (es @ [(c, d)])" and "0 \<le> hc" and "0 \<le> ht" and "ht \<noteq> 0 \<Longrightarrow> hl = sub_bytes (c, d)"
    and "ht = 0 \<Longrightarrow> es = []" and "ht \<noteq> 0 \<Longrightarrow> sub_bytes (c, d) \<le> ht"
  shows "hc' + ht' = header_bytes es + 1" "ht' = 0 \<longleftrightarrow> ht = 0" "ht \<noteq> 0 \<Longrightarrow> hc' = hc"
proof -
  have b: "header_bytes (es @ [(c, d)]) = header_bytes es + sub_bytes (c, d)" "2 \<le> sub_bytes (c, d)" "sub_bytes (c, d) \<le> 3" "header_bytes [] = 0"
    by (simp_all add: header_bytes_def sub_bytes_def)
  show "hc' + ht' = header_bytes es + 1" "ht' = 0 \<longleftrightarrow> ht = 0" "ht \<noteq> 0 \<Longrightarrow> hc' = hc"
    using assms b by (auto simp: br_headers_def split: if_splits)
qed

lemma br_build_total:
  assumes "br_ok env lo0" and "br_has n ds lo" and "ds \<noteq> []" and sdus: "sdus_ok (lcs (bdl env)) ds" and "ta = 31 \<or> ta < 64"
  shows "\<exists>pdu. br_build env tbs ta hc ht hl lo = Inr pdu"
proof -
  let ?lc = "lcs (bdl env)"
  obtain es c d where ds: "ds = es @ [(c, d)]" using assms(3) by (cases ds rule: rev_cases) auto
  have "lcids_ok ?lc" using assms(1) by (simp add: br_ok_def)
  from generate_dlsch_header_subs [OF this sdus [unfolded ds] assms(5) refl refl refl, of 255 None]
  have "\<exists>x. generate_dlsch_header ?lc (map (\<lambda>(c, d). (c, length d)) ds) 255 ta None p pp = Inr x" for p pp by (auto simp: ds)
  moreover have "zip (take (lo_num lo) (lo_lcids lo)) (take (lo_num lo) (lo_lengths lo)) = map (\<lambda>(c, d). (c, length d)) ds"
    using assms(2) by (simp add: br_has_def zip_map_map zip_same_conv_map split_def comp_def)
  moreover obtain p pp where "br_padding tbs (int (lo_total lo)) (ta_length ta) hc ht hl = (p, pp)" by fastforce
  moreover from calculation(1) obtain hs ce off where "generate_dlsch_header ?lc (map (\<lambda>(c, d). (c, length d)) ds) 255 ta None (nat (p mod 256)) (nat (pp mod 2 ^ 16)) = Inr (hs, ce, off)"
    by (metis prod_cases3)
  ultimately show ?thesis using assms(2) by (simp add: br_build_def br_has_def)
qed

lemma sdus_ok_br:
  assumes "br_ok env lo0" and "br_has n ds lo" and "int (lo_total lo) \<le> tbs6 env 9 6"
    and "fst ` set ds \<subseteq> insert (DCCH (bdl env)) {DTCH (conf (bdl env))..<NB_RB_MAX (conf (bdl env))}"
  shows "sdus_ok (lcs (bdl env)) ds"
proof -
  have "length d < 2 ^ 15" if d: "(c, d) \<in> set ds" for c d
  proof -
    obtain xs ys where "ds = xs @ (c, d) # ys" using split_list [OF d] by blast
    then have "length d \<le> length (concat (map snd ds))" by simp
    then show ?thesis using assms(1-3) by (simp add: br_has_def br_ok_def)
  qed
  moreover have "c < 32 \<and> c \<notin> controls (lcs (bdl env))" if "(c, d) \<in> set ds" for c d
  proof -
    have "c \<in> insert (DCCH (bdl env)) {DTCH (conf (bdl env))..<NB_RB_MAX (conf (bdl env))}" using assms(4) that by force
    then show ?thesis using assms(1) unfolding br_ok_def by blast
  qed
  ultimately show ?thesis unfolding sdus_ok_def by blast
qed

subsection \<open>Subframes 5 and 7\<close>

lemma upd_br_simps [simp]:
  "br_ues (upd_br i f c) i = f (br_ues c i)" "j \<noteq> i \<Longrightarrow> br_ues (upd_br i f c) j = br_ues c j"
  "dl_slots (upd_br i f c) = dl_slots c" "number_pdu (upd_br i f c) = number_pdu c"
  by (simp_all add: upd_br_def)

lemma pucch_tpc_keeps [simp]:
  "u_rnti (snd (pucch_tpc snr frame subframe u)) = u_rnti u" "u_harq (snd (pucch_tpc snr frame subframe u)) = u_harq u"
  "rach_resource_type (snd (pucch_tpc snr frame subframe u)) = rach_resource_type u"
  by (simp_all add: pucch_tpc_def Let_def)

text \<open>The two ends of the branch for round 8.\<close>

lemma br_new_cases:
  assumes "br_new env frame subframe (lo, u) = Inr (built, lo', u')"
  obtains (idle) ctl where "\<not> built" "u' = u\<lparr>br_ue := (br_ue u)\<lparr>u_ctl := ctl\<rparr>\<rparr>"
  | (block) ctl pdu where "built" "u' = u\<lparr>br_payload := Some pdu, br_ue := upd_harq 0 (\<lambda>h. h\<lparr>hp_round := 0, oldNDI := 1 - oldNDI h\<rparr>)
      (snd (pucch_tpc (br_puCch10xSnr env) frame subframe ((br_ue u)\<lparr>u_ctl := ctl\<rparr>)))\<rparr>"
proof -
  let ?tbs = "tbs6 env 9 6"
  obtain ta ctl where ta: "take_ta (u_ctl (br_ue u)) = (ta, ctl)" by fastforce
  note run = assms [unfolded br_new_def Let_def ta prod.case]
  from run obtain hc ht hl lo1 ctl1 where p: "br_pick env ?tbs (ta_length ta) (lo, ctl) = Inr (hc, ht, hl, lo1, ctl1)"
    by (elim rbind_InrE) (metis prod_cases5)
  obtain hc' ht' where h: "br_headers hc ht hl = (hc', ht')" by fastforce
  let ?need = "int (lo_total lo1) + hc' + ht' + ta_length ta"
  obtain tpc v where v: "pucch_tpc (br_puCch10xSnr env) frame subframe ((br_ue u)\<lparr>u_ctl := ctl1\<rparr>) = (tpc, v)" by fastforce
  show thesis
  proof (cases "0 < int (lo_total lo1) + hc + ht")
    case False
    then have "\<not> built" "u' = u\<lparr>br_ue := (br_ue u)\<lparr>u_ctl := ctl1\<rparr>\<rparr>" using run by (auto simp: p h)
    then show thesis by (rule idle)
  next
    case True
    then obtain mcs tbs where k: "br_search env ?tbs ?need = Some (mcs, tbs)" using run by (cases "br_search env ?tbs ?need") (auto simp: p h)
    with True run obtain pdu where "br_build env tbs ta hc ht hl lo1 = Inr pdu" by (cases "br_build env tbs ta hc ht hl lo1") (simp_all add: p h)
    with run k True have "built" "u' = u\<lparr>br_payload := Some pdu, br_ue := upd_harq 0 (\<lambda>h. h\<lparr>hp_round := 0, oldNDI := 1 - oldNDI h\<rparr>) (snd (tpc, v))\<rparr>"
      by (auto simp: p h v)
    then show thesis unfolding v [symmetric] by (rule block)
  qed
qed

lemma br_new_Inr:
  assumes "br_new env frame subframe (lo, u) = Inr (built, lo', u')"
  shows "u_rnti (br_ue u') = u_rnti (br_ue u)" "rach_resource_type (br_ue u') = rach_resource_type (br_ue u)" "br_mpdcch u' = br_mpdcch u"
    "built \<Longrightarrow> hp_round (u_harq (br_ue u') 0) = 0"
  using assms by (cases rule: br_new_cases; simp add: upd_harq_def)+

lemma br_announce_Inr:
  assumes "br_announce env slot frame subframe i mc mcs rnd c = Inr c'"
  shows "number_pdu c' = number_pdu c + 1" "br_ues c' i = (br_ues c i)\<lparr>br_mcs := mcs\<rparr>"
    "\<exists>start. startSymbol_r11 mc = Some start \<and> dl_slots c' = (dl_slots c)(slot := Some (Mpdcch (mpdcch_of env frame subframe mcs rnd mc start (br_ue (br_ues c i)))))"
  using assms by (auto simp: br_announce_def split: option.splits)

text \<open>An announcement is made if a request was added; the UE remembers the announced scheme.\<close>

lemma br_subframe5_slot:
  assumes "br_subframe5 env slot frame subframe i mc (lo, c) = Inr (lo', c')"
  obtains (none) "number_pdu c' = number_pdu c"
  | (told) rnd start where "number_pdu c' = number_pdu c + 1" "rnd < 8" "br_mcs (br_ues c' i) = lo_mcs lo'" "hp_round (u_harq (br_ue (br_ues c' i)) 0) = rnd"
      "dl_slots c' = (dl_slots c)(slot := Some (Mpdcch (mpdcch_of env frame subframe (lo_mcs lo') rnd mc start (br_ue (br_ues c' i)))))"
      "u_rnti (br_ue (br_ues c' i)) = u_rnti (br_ue (br_ues c i))" "rach_resource_type (br_ue (br_ues c' i)) = rach_resource_type (br_ue (br_ues c i))"
      "br_mpdcch (br_ues c' i) = br_mpdcch (br_ues c i)" "hp_round (u_harq (br_ue (br_ues c i)) 0) \<noteq> 8 \<longrightarrow> lo' = lo"
proof -
  let ?r = "hp_round (u_harq (br_ue (br_ues c i)) 0)" and ?new = "br_new env frame subframe (lo, br_ues c i)"
  obtain rnd lo1 c1 where
    1: "(if ?r = 8 then rbind ?new (\<lambda>(built, lo1, u). Inr (if built then 0 else 8, lo1, upd_br i (\<lambda>_. u) c)) else Inr (?r, lo, c)) = Inr (rnd, lo1, c1)"
    and 2: "(if rnd < 8 then rbind (br_announce env slot frame subframe i mc (lo_mcs lo1) rnd c1) (\<lambda>c2. Inr (lo1, c2)) else Inr (lo1, c1)) = Inr (lo', c')"
    using assms by (auto simp: br_subframe5_def rbind_Inr_conv Let_def)
  have ue: "dl_slots c1 = dl_slots c \<and> number_pdu c1 = number_pdu c \<and> u_rnti (br_ue (br_ues c1 i)) = u_rnti (br_ue (br_ues c i)) \<and>
      rach_resource_type (br_ue (br_ues c1 i)) = rach_resource_type (br_ue (br_ues c i)) \<and> br_mpdcch (br_ues c1 i) = br_mpdcch (br_ues c i) \<and>
      (rnd < 8 \<longrightarrow> hp_round (u_harq (br_ue (br_ues c1 i)) 0) = rnd) \<and> (?r \<noteq> 8 \<longrightarrow> lo1 = lo)"
  proof (cases "?r = 8")
    case True
    then obtain built u where n: "?new = Inr (built, lo1, u)" "c1 = upd_br i (\<lambda>_. u) c" "rnd = (if built then 0 else 8)"
      using 1 by (cases ?new) (auto simp: split: prod.splits)
    from True br_new_Inr [OF n(1)] show ?thesis unfolding n(2,3) by (cases built) simp_all
  qed (use 1 in auto)
  show thesis
  proof (cases "rnd < 8")
    case False
    then show thesis using none 2 ue by simp
  next
    case True
    then have lo': "lo' = lo1" and c': "br_announce env slot frame subframe i mc (lo_mcs lo1) rnd c1 = Inr c'" using 2 by (auto simp: rbind_Inr_conv)
    obtain start where start: "dl_slots c' = (dl_slots c1)(slot := Some (Mpdcch (mpdcch_of env frame subframe (lo_mcs lo1) rnd mc start (br_ue (br_ues c1 i)))))"
      using br_announce_Inr(3) [OF c'] by blast
    show thesis by (rule told [of rnd start]) (use True ue lo' start br_announce_Inr(1,2) [OF c'] in simp_all)
  qed
qed

lemma br_subframe7_send:
  assumes "br_subframe7 env ce frame subframe i mc c = Inr c'"
  shows "br_ues c' = br_ues c" "map (\<lambda>t. (tx_length t, tx_data t)) (tx_list c') = map (\<lambda>t. (tx_length t, tx_data t)) (tx_list c) @ [br_sent env (br_ues c i)]"
    "map uci_rnti (UL_req_tmp c' ((frame * 10 + subframe + 4) mod 10)) = map uci_rnti (UL_req_tmp c ((frame * 10 + subframe + 4) mod 10)) @ [u_rnti (br_ue (br_ues c i))]"
  using assms by (auto simp: br_subframe7_def br_sent_def Let_def split: option.splits if_splits)

section \<open>Properties\<close>

text \<open>C34. A block for an LTE-M device: taking SDUs from RLC, the search for a scheme (whose second loop has no upper end) and the header
  end; a block is built exactly if there is an SDU, with a scheme of at most 9, in round 0 and with the other value of the new data
  indicator. If the last SDU is that of the lowest channel or of signalling, the block is filled exactly, and the UE gets
  from it all SDUs that were taken from RLC.\<close>

theorem br_block_exact:
  assumes "br_ok env lo" and "lo_num lo = 0" and "ta_update (u_ctl (br_ue u)) = 31 \<or> ta_update (u_ctl (br_ue u)) < 64"
  shows "\<exists>built lo' u' ds. br_new env frame subframe (lo, u) = Inr (built, lo', u') \<and> (built \<longleftrightarrow> ds \<noteq> []) \<and> br_has (NB_RB_MAX (conf (bdl env))) ds lo' \<and>
    (built \<longrightarrow> lo_mcs lo' \<le> 9 \<and> hp_round (u_harq (br_ue u') 0) = 0 \<and> oldNDI (u_harq (br_ue u') 0) = 1 - oldNDI (u_harq (br_ue u) 0) \<and>
      (\<exists>pdu. br_payload u' = Some pdu \<and>
         (fst (last ds) \<in> {DCCH (bdl env), DTCH (conf (bdl env))} \<longrightarrow> exact_block env (tbs6 env (lo_mcs lo') 6) ds pdu)))"
proof -
  let ?tbs = "tbs6 env 9 6"
  obtain ta ctl where ta: "take_ta (u_ctl (br_ue u)) = (ta, ctl)" by fastforce
  then have ta2: "ta = 31 \<or> ta < 64" "ta_length ta \<in> {0, 2}" using assms(3) by (auto simp: take_ta_def ta_length_def split: if_splits)
  obtain hc ht hl lo1 ctl1 ds where
    p: "br_pick env ?tbs (ta_length ta) (lo, ctl) = Inr (hc, ht, hl, lo1, ctl1)" "br_has (NB_RB_MAX (conf (bdl env))) ds lo1"
    "hc + ht = header_bytes ds" "0 \<le> hc" "0 \<le> ht" "int (lo_total lo1) + hc + ht + ta_length ta \<le> ?tbs" "lo_mcs lo1 = lo_mcs lo"
    "fst ` set ds \<subseteq> insert (DCCH (bdl env)) {DTCH (conf (bdl env))..<NB_RB_MAX (conf (bdl env))}"
    "ht = 0 \<longrightarrow> length ds \<le> 1 \<and> list_all (\<lambda>x. length (snd x) < 128) ds"
    "ht \<noteq> 0 \<longrightarrow> fst (last ds) \<noteq> DCCH (bdl env) \<and> hl \<le> 3 \<and> 2 \<le> hl \<and> sub_bytes (last ds) \<le> ht"
    "ht \<noteq> 0 \<longrightarrow> fst (last ds) = DTCH (conf (bdl env)) \<longrightarrow> hl = sub_bytes (last ds)"
    by (rule br_pick_has [OF assms(1,2) ta2(2), of ctl], rule that)
  define u1 where "u1 = u\<lparr>br_ue := (br_ue u)\<lparr>u_ctl := ctl1\<rparr>\<rparr>"
  show ?thesis
  proof (cases "ds = []")
    case True
    then have "int (lo_total lo1) + hc + ht = 0" using p(2,3) by (simp add: br_has_def header_bytes_def)
    then have "br_new env frame subframe (lo, u) = Inr (False, lo1, u1)" using p(1) ta by (simp add: br_new_def u1_def)
    then show ?thesis using p(2) True by blast
  next
    case False
    then obtain es c d where ds: "ds = es @ [(c, d)]" by (cases ds rule: rev_cases) auto
    obtain hc' ht' where h: "br_headers hc ht hl = (hc', ht')" by fastforce
    have hb: "header_bytes ds = header_bytes es + sub_bytes (c, d)" "2 * int (length es) \<le> header_bytes es" "2 \<le> sub_bytes (c, d)" "sub_bytes (c, d) \<le> 3"
      using header_bytes_pos [of es] by (simp_all add: ds header_bytes_def sub_bytes_def)
    have less: "hc' + ht' \<le> hc + ht" using h p(4,5,10) by (auto simp: br_headers_def split: if_splits)
    have ok: "sdus_ok (lcs (bdl env)) ds" using p(4-6) ta2(2) by (intro sdus_ok_br [OF assms(1) p(2) _ p(8)]) auto
    let ?need = "int (lo_total lo1) + hc' + ht' + ta_length ta"
    obtain k where k: "k \<le> 9" "br_search env ?tbs ?need = Some (k, tbs6 env k 6)" "?need \<le> tbs6 env k 6"
      using br_search_ok [of ?need env] less p(6) by auto
    obtain pdu where pdu: "br_build env (tbs6 env k 6) ta hc ht hl lo1 = Inr pdu" using br_build_total [OF assms(1) p(2) False ok ta2(1)] by blast
    have exact: "exact_block env (tbs6 env k 6) ds pdu" if "fst (last ds) \<in> {DCCH (bdl env), DTCH (conf (bdl env))}"
    proof -
      have hl: "ht \<noteq> 0 \<Longrightarrow> hl = sub_bytes (c, d)" using that p(10,11) ds by auto
      have "hc' + ht' = header_bytes es + 1" "ht' = 0 \<longleftrightarrow> ht = 0" "ht \<noteq> 0 \<Longrightarrow> hc' = hc"
        using br_headers_last [OF h p(3) [unfolded ds] p(4,5) hl] p(9,10) ds by auto
      from br_build_exact [OF assms(1) p(2) ds ok ta2(1) p(3) h this k(3)] show ?thesis using pdu by (auto simp: tbs6_def)
    qed
    obtain tpc v where v: "pucch_tpc (br_puCch10xSnr env) frame subframe (br_ue u1) = (tpc, v)" by fastforce
    have keeps: "u_harq v = u_harq (br_ue u)" using pucch_tpc_keeps(2) [of "br_puCch10xSnr env" frame subframe "br_ue u1", unfolded v] by (simp add: u1_def)
    have "br_new env frame subframe (lo, u) = Inr (True, lo1\<lparr>lo_mcs := k\<rparr>, u1\<lparr>br_payload := Some pdu, br_ue := upd_harq 0 (\<lambda>h. h\<lparr>hp_round := 0, oldNDI := 1 - oldNDI h\<rparr>) v\<rparr>)"
      using p(1-5) ta h k(2) pdu v hb False by (simp add: br_new_def u1_def)
    moreover have "br_has (NB_RB_MAX (conf (bdl env))) ds (lo1\<lparr>lo_mcs := k\<rparr>)" using p(2) by (simp add: br_has_def)
    ultimately show ?thesis using k(1) exact False keeps
      by (intro exI [of _ True] exI [of _ "lo1\<lparr>lo_mcs := k\<rparr>"] exI [of _ "u1\<lparr>br_payload := Some pdu, br_ue := upd_harq 0 (\<lambda>h. h\<lparr>hp_round := 0, oldNDI := 1 - oldNDI h\<rparr>) v\<rparr>"] exI [of _ ds])
        (simp add: upd_harq_def)
  qed
qed

lemma demo_br_ok: "br_ok demo_br (no_locals demo_br (replicate 120 0))"
proof -
  have "rlc_keeps_size (bdl demo_br)" by (auto simp: rlc_keeps_size_def demo_br_def)
  moreover have "c \<in> insert 1 {3..<14 :: nat} \<Longrightarrow> c < 32 \<and> c \<notin> controls demo_lcids" for c by (auto simp: controls_def demo_lcids_def)
  ultimately show ?thesis
    by (simp add: br_ok_def no_locals_def tbs6_def lcids_ok_def) (simp add: demo_br_def demo_dl_def demo_conf_def demo_lcids_def controls_def)
qed

lemma br_block_exact_witness:
  "\<exists>built lo' u' ds. br_new demo_br 1 5 (no_locals demo_br (replicate 120 0), demo_br_ue 8) = Inr (built, lo', u') \<and> (built \<longleftrightarrow> ds \<noteq> []) \<and>
    br_has 14 ds lo' \<and> (built \<longrightarrow> lo_mcs lo' \<le> 9)"
proof -
  have "lo_num (no_locals demo_br (replicate 120 0)) = 0" "ta_update (u_ctl (br_ue (demo_br_ue 8))) = 31"
      "NB_RB_MAX (conf (bdl demo_br)) = 14"
    by (simp_all add: no_locals_def demo_br_ue_def demo_user_def demo_ue_def demo_br_def demo_dl_def demo_conf_def)
  then show ?thesis using br_block_exact [OF demo_br_ok, of "demo_br_ue 8" 1 5] by auto
qed

text \<open>C17. What is announced is what is sent: if in subframe 5 a UE is told of a block, then in subframe 7 exactly one block is sent to it, that
  of the UE, with the size that belongs to the announced scheme, and its acknowledgement is expected in subframe 1.\<close>

theorem announced_is_sent:
  assumes "schedule_ue_spec_br env junk frame 5 [i] c = Inr c1" and "number_pdu c1 \<noteq> number_pdu c" and "br_ues c2 i = br_ues c1 i"
    and "schedule_ue_spec_br env junk2 frame 7 [i] c2 = Inr c3"
  shows "\<exists>m. dl_slots c1 (number_pdu c) = Some (Mpdcch m) \<and>
    map (\<lambda>t. (tx_length t, tx_data t)) (tx_list c3) = map (\<lambda>t. (tx_length t, tx_data t)) (tx_list c2) @ [(get_TBS_DL (bdl env) (mp_mcs m) 6, br_payload (br_ues c1 i))] \<and>
    map uci_rnti (UL_req_tmp c3 1) = map uci_rnti (UL_req_tmp c2 1) @ [mp_rnti m]"
proof -
  let ?u = "br_ues c i"
  have frame: "odd frame" "schedulingInfoSIB1_BR_r13 env \<noteq> 0" using assms(1,2) by (auto simp: schedule_ue_spec_br_def split: if_splits)
  obtain ce lo' where 5: "schedule_br_ue env ce (number_pdu c) frame 5 i (no_locals env junk, c) = Inr (lo', c1)"
    using assms(1) frame by (auto simp: schedule_ue_spec_br_def rbind_Inr_conv)
  then obtain mc where on: "u_rnti (br_ue ?u) \<noteq> NOT_A_RNTI env" "rach_resource_type (br_ue ?u) \<noteq> 0" "\<not> br_rrc_status env (u_rnti (br_ue ?u)) < BR_RRC_CONNECTED env"
      "br_mpdcch ?u = Some mc" "br_subframe5 env (number_pdu c) frame 5 i mc (no_locals env junk, c) = Inr (lo', c1)"
    using assms(2) by (auto simp: schedule_br_ue_def Let_def split: if_splits option.splits)
  from on(5) show ?thesis
  proof (cases rule: br_subframe5_slot)
    case none
    then show ?thesis using assms(2) by simp
  next
    case (told rnd start)
    let ?m = "mpdcch_of env frame 5 (lo_mcs lo') rnd mc start (br_ue (br_ues c1 i))"
    obtain ce2 where "schedule_br_ue env ce2 (number_pdu c2) frame 7 i (no_locals env junk2, c2) = Inr (no_locals env junk2, c3)"
    proof -
      obtain ce2 lo2 where "schedule_br_ue env ce2 (number_pdu c2) frame 7 i (no_locals env junk2, c2) = Inr (lo2, c3)"
        using assms(4) frame by (auto simp: schedule_ue_spec_br_def rbind_Inr_conv)
      then show thesis using that [of ce2] told on(1-4) assms(3) by (auto simp: schedule_br_ue_def Let_def rbind_Inr_conv)
    qed
    then have "br_subframe7 env ce2 frame 7 i mc c2 = Inr c3"
      using told on(1-4) assms(3) by (auto simp: schedule_br_ue_def Let_def rbind_Inr_conv)
    note send = br_subframe7_send [OF this]
    have sf: "(frame * 10 + 7 + 4) mod 10 = (1 :: nat)" by presburger
    have "dl_slots c1 (number_pdu c) = Some (Mpdcch ?m)" using told(5) by simp
    moreover have "mp_mcs ?m = br_mcs (br_ues c2 i)" "mp_rnti ?m = u_rnti (br_ue (br_ues c2 i))" using told(3) assms(3) by (simp_all add: mpdcch_of_def)
    ultimately show ?thesis using send(2,3) sf assms(3) by (intro exI [of _ ?m]) (simp add: br_sent_def)
  qed
qed

lemma demo_br_run:
  "\<exists>c1 c3. schedule_ue_spec_br demo_br (replicate 120 0) 1 5 [0] (demo_br_cell 3) = Inr c1 \<and> number_pdu c1 = 3 \<and>
    schedule_ue_spec_br demo_br (replicate 120 0) 1 7 [0] c1 = Inr c3"
proof -
  have "case schedule_ue_spec_br demo_br (replicate 120 0) 1 5 [0] (demo_br_cell 3) of Inl _ \<Rightarrow> False
    | Inr c1 \<Rightarrow> number_pdu c1 = 3 \<and> (case schedule_ue_spec_br demo_br (replicate 120 0) 1 7 [0] c1 of Inl _ \<Rightarrow> False | Inr _ \<Rightarrow> True)"
    by code_simp
  then show ?thesis by (auto split: sum.splits)
qed

lemma announced_is_sent_witness:
  "\<exists>c1 c3 m. schedule_ue_spec_br demo_br (replicate 120 0) 1 5 [0] (demo_br_cell 3) = Inr c1 \<and> dl_slots c1 2 = Some (Mpdcch m) \<and>
    schedule_ue_spec_br demo_br (replicate 120 0) 1 7 [0] c1 = Inr c3 \<and>
    map (\<lambda>t. (tx_length t, tx_data t)) (tx_list c3) = map (\<lambda>t. (tx_length t, tx_data t)) (tx_list c1) @ [(get_TBS_DL (bdl demo_br) (mp_mcs m) 6, br_payload (br_ues c1 0))]"
proof -
  have n: "number_pdu (demo_br_cell 3) = 2" by (simp add: demo_br_cell_def)
  from demo_br_run obtain c1 c3 where c: "schedule_ue_spec_br demo_br (replicate 120 0) 1 5 [0] (demo_br_cell 3) = Inr c1" "number_pdu c1 = 3"
    "schedule_ue_spec_br demo_br (replicate 120 0) 1 7 [0] c1 = Inr c3" by blast
  then show ?thesis using announced_is_sent [OF c(1) _ refl c(3)] unfolding n by auto
qed

text \<open>C35. The scheme of a repetition: if the first UE of the list has a block that was not acknowledged, the UE is told of scheme 0 and scheme 0
  is stored for it, whatever the scheme of its block was, because the local variable of the scheme is written only for a new block. In
  subframe 7 the length of the request is then that of scheme 0, while the data are those of the original block.\<close>

theorem br_repetition_scheme:
  assumes "schedule_ue_spec_br env junk frame 5 [i] c = Inr c1" and "number_pdu c1 \<noteq> number_pdu c" and "hp_round (u_harq (br_ue (br_ues c i)) 0) \<noteq> 8"
  shows "\<exists>m. dl_slots c1 (number_pdu c) = Some (Mpdcch m) \<and> mp_mcs m = 0 \<and>
    mp_redundancy_version m = rvseq ! (hp_round (u_harq (br_ue (br_ues c i)) 0) mod 4) \<and> br_ues c1 i = (br_ues c i)\<lparr>br_mcs := 0\<rparr>"
proof -
  have "odd frame" "schedulingInfoSIB1_BR_r13 env \<noteq> 0" using assms(1,2) by (auto simp: schedule_ue_spec_br_def split: if_splits)
  then obtain ce lo' where "schedule_br_ue env ce (number_pdu c) frame 5 i (no_locals env junk, c) = Inr (lo', c1)"
    using assms(1) by (auto simp: schedule_ue_spec_br_def rbind_Inr_conv)
  then obtain mc where "br_subframe5 env (number_pdu c) frame 5 i mc (no_locals env junk, c) = Inr (lo', c1)"
    using assms(2) by (auto simp: schedule_br_ue_def Let_def split: if_splits option.splits)
  then have "br_announce env (number_pdu c) frame 5 i mc 0 (hp_round (u_harq (br_ue (br_ues c i)) 0)) c = Inr c1"
    using assms(2,3) by (auto simp: br_subframe5_def no_locals_def rbind_Inr_conv Let_def split: if_splits)
  from br_announce_Inr [OF this] show ?thesis by (auto simp: mpdcch_of_def)
qed

lemma br_repetition_scheme_witness:
  "\<exists>c1 m. schedule_ue_spec_br demo_br (replicate 120 0) 1 5 [0] (demo_br_cell 3) = Inr c1 \<and> dl_slots c1 2 = Some (Mpdcch m) \<and> mp_mcs m = 0 \<and>
    br_mcs (br_ues (demo_br_cell 3) 0) = 5"
proof -
  have n: "number_pdu (demo_br_cell 3) = 2" "hp_round (u_harq (br_ue (br_ues (demo_br_cell 3) 0)) 0) \<noteq> 8" "br_mcs (br_ues (demo_br_cell 3) 0) = 5"
    by (simp_all add: demo_br_cell_def demo_br_ue_def demo_user_def)
  from demo_br_run obtain c1 where c: "schedule_ue_spec_br demo_br (replicate 120 0) 1 5 [0] (demo_br_cell 3) = Inr c1" "number_pdu c1 = 3" by blast
  then show ?thesis using br_repetition_scheme [OF c(1) _ n(2)] n by auto
qed

end
