(* ===== verification/Startup.thy ===== *)
theory Startup
  imports Icm Drb
begin

text \<open>
  How the two programs are started.

  \<^item> \<^verbatim>\<open>src/openairinterface5g/targets/COMMON/create_tasks.c\<close>: the threads of the eNB tasks, on the state of the
    inter-task interface (\<open>Itti\<close>). The queues exist since \<^verbatim>\<open>itti_init\<close>; the thread of the ICM task is created last. While the threads
    are created, those that exist already send and receive; \<open>boot_step\<close> is one event of this.
  \<^item> \<^verbatim>\<open>src/openair-cn/src/oai_mme/oai_mme.c\<close>: the calls of \<^verbatim>\<open>main\<close> in their order and how the process ends. What the called
    functions return is given; what \<^verbatim>\<open>CHECK_INIT_RETURN\<close> takes for a failure is a predicate, and a failure ends the process.
\<close>

section \<open>The tasks of the eNB\<close>

text \<open>The configuration that \<^verbatim>\<open>create_tasks\<close> asks for. The macros and functions behind it belong to other files.\<close>

record enb_conf =
  rrc0 :: bool              \<comment> \<open>\<^verbatim>\<open>RC.rrc[0]\<close> is not null\<close>
  NODE_IS_DU :: bool
  NODE_IS_CU :: bool
  EPC_MODE_ENABLED :: bool
  emulate_rf :: bool
  is_x2ap_enabled :: bool

text \<open>The call of \<^verbatim>\<open>itti_create_task\<close> and the check of its result.\<close>

definition create_checked :: "(task_id \<Rightarrow> bool) \<Rightarrow> task_id \<Rightarrow> itti \<Rightarrow> itti result" where
  "create_checked ok t s = itti_create_task (ok t) t s"

definition when_conf :: "bool \<Rightarrow> (itti \<Rightarrow> itti result) \<Rightarrow> itti \<Rightarrow> itti result" where
  "when_conf b f s = (if b then f s else Inr s)"

definition create_core :: "(task_id \<Rightarrow> bool) \<Rightarrow> enb_conf \<Rightarrow> itti \<Rightarrow> itti result" where
  "create_core ok cf s =
     rbind (create_checked ok TASK_S1AP s) (\<lambda>s.
     rbind (when_conf (\<not> emulate_rf cf) (create_checked ok TASK_UDP) s) (\<lambda>s.
     rbind (create_checked ok TASK_GTPV1_U s)
       (when_conf (is_x2ap_enabled cf) (create_checked ok TASK_X2AP))))"

definition create_tasks :: "(task_id \<Rightarrow> bool) \<Rightarrow> enb_conf \<Rightarrow> u32 \<Rightarrow> itti \<Rightarrow> itti result" where
  "create_tasks ok cf enb_nb s =
     (if \<not> rrc0 cf then Inl Bad_Pointer
      else if enb_nb = 0 then Inr s
      else
        rbind (create_checked ok TASK_ENB_APP s) (\<lambda>s.
        rbind (create_checked ok TASK_RRC_ENB s) (\<lambda>s.
        rbind (when_conf (EPC_MODE_ENABLED cf) (create_checked ok TASK_SCTP) s) (\<lambda>s.
        rbind (when_conf (EPC_MODE_ENABLED cf \<and> \<not> NODE_IS_DU cf) (create_core ok cf) s) (\<lambda>s.
        rbind (when_conf (NODE_IS_CU cf) (create_checked ok TASK_CU_F1) s) (\<lambda>s.
        rbind (when_conf (NODE_IS_DU cf) (create_checked ok TASK_DU_F1) s) (\<lambda>s.
        rbind (when_conf (\<not> NODE_IS_CU cf) (create_checked ok TASK_MAC_ENB) s)
          (create_checked ok TASK_ICM))))))))"

text \<open>One event while the eNB starts: the next thread is created, a task sends, or a task other than ICM takes a message.\<close>

datatype boot_event =
    Create task_id
  | Send "task_id \<times> int \<times> MessageDef"
  | Take task_id

definition boot_step :: "u32 \<Rightarrow> (MessagesIds \<Rightarrow> u32) \<Rightarrow> MessageDef \<Rightarrow> boot_event \<Rightarrow> itti \<Rightarrow> itti result" where
  "boot_step hdr msize junk e s = (case e of
     Create t \<Rightarrow> itti_create_task True t s
   | Send x \<Rightarrow> send_new hdr msize junk x s
   | Take t \<Rightarrow> Inr (if t = TASK_ICM then s else snd (itti_poll_msg t s)))"

section \<open>The MME\<close>














section \<open>Specification\<close>

text \<open>The threads of a configuration, in the order of their creation.\<close>

definition enb_tasks :: "enb_conf \<Rightarrow> task_id list" where
  "enb_tasks cf =
     [TASK_ENB_APP, TASK_RRC_ENB] @ (if EPC_MODE_ENABLED cf then [TASK_SCTP] else []) @
     (if EPC_MODE_ENABLED cf \<and> \<not> NODE_IS_DU cf
      then [TASK_S1AP] @ (if emulate_rf cf then [] else [TASK_UDP]) @ [TASK_GTPV1_U] @ (if is_x2ap_enabled cf then [TASK_X2AP] else [])
      else []) @
     (if NODE_IS_CU cf then [TASK_CU_F1] else []) @ (if NODE_IS_DU cf then [TASK_DU_F1] else []) @
     (if NODE_IS_CU cf then [] else [TASK_MAC_ENB]) @ [TASK_ICM]"

definition creates :: "boot_event list \<Rightarrow> task_id list" where
  "creates es = concat (map (\<lambda>e. case e of Create t \<Rightarrow> [t] | _ \<Rightarrow> []) es)"

text \<open>A message goes to a task that exists.\<close>

definition boot_good :: "boot_event \<Rightarrow> bool" where
  "boot_good e = (case e of Send (d, i, m) \<Rightarrow> d \<noteq> TASK_MAX | _ \<Rightarrow> True)"

text \<open>What the ICM task is to see of the events: messages sent to it, and the copies of all but the subframe messages.\<close>

definition icm_sees :: "boot_event list \<Rightarrow> (MessagesIds \<times> task_id \<times> msg) list" where
  "icm_sees es = concat (map (\<lambda>e. case e of
     Send (d, i, m) \<Rightarrow> (if d = TASK_ICM then [msg_view m] else []) @
       (if ITTI_MSG_ID m \<noteq> RRC_SUBFRAME_PROCESS then [msg_view m] else [])
   | _ \<Rightarrow> []) es)"



text \<open>A base station with core network: the RRC task reports a bearer before the ICM thread exists.\<close>

definition demo_conf_enb :: enb_conf where
  "demo_conf_enb = \<lparr>rrc0 = True, NODE_IS_DU = False, NODE_IS_CU = False, EPC_MODE_ENABLED = True, emulate_rf = False, is_x2ap_enabled = False\<rparr>"

definition demo_boot :: "boot_event list" where
  "demo_boot = [Create TASK_ENB_APP, Create TASK_RRC_ENB, Create TASK_SCTP, Create TASK_S1AP, Send (TASK_S1AP, 0, view_msg (demo_resp 7)),
     Create TASK_UDP, Take TASK_S1AP, Create TASK_GTPV1_U, Create TASK_MAC_ENB, Create TASK_ICM, Send (TASK_S1AP, 0, view_msg (demo_resp 9))]"


section \<open>Lemmas\<close>

lemma create_checked_run:
  "rbind (create_checked ok t s) f = (if ok t then f (s\<lparr>threads := threads s @ [t]\<rparr>) else Inl Assert_Fatal)"
  by (simp add: create_checked_def itti_create_task_def)

lemma when_conf_run: "rbind (when_conf b g s) f = (if b then rbind (g s) f else f s)"
  by (simp add: when_conf_def)

lemma threads_upd: "(s\<lparr>threads := a\<rparr>)\<lparr>threads := b\<rparr> = s\<lparr>threads := b\<rparr>" by simp

text \<open>Creating the threads one after the other, stopping at the first that fails.\<close>

lemma create_all:
  "list_all ok ts \<Longrightarrow> rfold (create_checked ok) ts s = Inr (s\<lparr>threads := threads s @ ts\<rparr>)"
  "\<not> list_all ok ts \<Longrightarrow> rfold (create_checked ok) ts s = Inl Assert_Fatal"
  by (induction ts arbitrary: s) (auto simp: create_checked_run)

lemma create_tasks_eq:
  assumes "rrc0 cf" and "enb_nb \<noteq> 0"
  shows "create_tasks ok cf enb_nb s = rfold (create_checked ok) (enb_tasks cf) s"
proof -
  have run: "rfold (create_checked ok) [] = Inr"
    "rfold (create_checked ok) (t # ts) = (\<lambda>s. rbind (create_checked ok t s) (rfold (create_checked ok) ts))" for t ts
    by (rule ext, simp)+
  show ?thesis
    using assms by (simp add: create_tasks_def create_core_def enb_tasks_def when_conf_run rbind_assoc run when_conf_def [abs_def]
        del: rfold.simps)
qed

lemma pop_other: "itti_ok s \<Longrightarrow> t \<noteq> TASK_ICM \<Longrightarrow> itti_ok (snd (itti_poll_msg t s)) \<and>
    pending TASK_ICM (snd (itti_poll_msg t s)) = pending TASK_ICM s \<and> threads (snd (itti_poll_msg t s)) = threads s"
  using pop_message_ok(1,6) [of s t]
  by (fastforce simp: itti_poll_msg_def pop_message_def upd_task_def split: option.splits if_splits)

lemma send_threads: "itti_send_msg_to_task_locked d i p s = Inr s' \<Longrightarrow> threads s' = threads s"
  by (auto simp: itti_send_msg_to_task_locked_def rbind_Inr_conv upd_task_def Let_def split: if_splits)

lemma send_new_threads: "send_new hdr msize junk x s = Inr s' \<Longrightarrow> threads s' = threads s"
  by (cases x) (auto simp: send_new_def itti_send_msg_to_task_def itti_malloc_def itti_alloc_new_message_def
      itti_alloc_new_message_sized_def rbind_Inr_conv dest!: send_threads split: if_splits)

lemma boot_step_ok:
  assumes "itti_ok s" and "boot_good e"
  shows "\<exists>s'. boot_step hdr msize junk e s = Inr s' \<and> itti_ok s' \<and> threads s' = threads s @ creates [e] \<and>
    pending TASK_ICM s' = pending TASK_ICM s @ icm_sees [e]"
proof (cases e)
  case (Create t)
  then show ?thesis using assms(1) by (simp add: boot_step_def itti_create_task_def creates_def icm_sees_def itti_ok_def queued_def pending_def)
next
  case (Send x)
  obtain d i m where x: "x = (d, i, m)" by (cases x)
  then show ?thesis using send_new_ok [OF assms(1), of d hdr msize junk i m] send_new_threads assms(2) Send
    by (fastforce simp: boot_step_def creates_def icm_sees_def boot_good_def)
next
  case (Take t)
  then show ?thesis using pop_other [OF assms(1), of t] assms(1) by (simp add: boot_step_def creates_def icm_sees_def)
qed

lemma boot_run:
  assumes "itti_ok s" and "list_all boot_good es"
  shows "\<exists>s'. rfold (boot_step hdr msize junk) es s = Inr s' \<and> itti_ok s' \<and> threads s' = threads s @ creates es \<and>
    pending TASK_ICM s' = pending TASK_ICM s @ icm_sees es"
  using assms
proof (induction es arbitrary: s)
  case (Cons e es)
  then obtain s1 where 1: "boot_step hdr msize junk e s = Inr s1" "itti_ok s1" "threads s1 = threads s @ creates [e]"
      "pending TASK_ICM s1 = pending TASK_ICM s @ icm_sees [e]" using boot_step_ok [of s e hdr msize junk] by auto
  then show ?case using Cons.IH [OF 1(2)] Cons.prems(2) by (auto simp: creates_def icm_sees_def)
qed (simp add: creates_def icm_sees_def)

lemma init_task_quiet:
  assumes "init_task fds x s = Inr s'" and "\<not> threadFunc (snd x)"
  shows "threads s' = threads s \<and> message_queue (tasks s' t) = message_queue (tasks s t)"
  using assms by (cases x) (auto simp: init_task_def itti_subscribe_event_fd_def rbind_Inr_conv upd_task_def split: if_splits)

lemma init_quiet:
  assumes "rfold (init_task fds) xs s = Inr s'" and "\<forall>x\<in>set xs. \<not> threadFunc (snd x)"
  shows "threads s' = threads s \<and> message_queue (tasks s' t) = message_queue (tasks s t)"
  using assms
proof (induction xs arbitrary: s)
  case (Cons x xs)
  then obtain s1 where "init_task fds x s = Inr s1" "rfold (init_task fds) xs s1 = Inr s'" by (auto simp: rbind_Inr_conv)
  then show ?case using Cons.IH [of s1] Cons.prems(2) init_task_quiet [of fds x s s1 t] by simp
qed simp

lemma booted:
  assumes "itti_init n fds itti_empty = Inr s"
  shows "itti_ok s" "threads s = []" "pending TASK_ICM s = []"
proof -
  have "threads s = threads itti_empty \<and> message_queue (tasks s TASK_ICM) = message_queue (tasks itti_empty TASK_ICM)"
    using init_quiet [of fds "take n tasks_info" itti_empty s TASK_ICM] assms no_inline_tasks
    unfolding itti_init_def by (blast dest: in_set_takeD)
  then show "threads s = []" "pending TASK_ICM s = []" by (simp_all add: itti_empty_def fresh_task_def pending_def)
  show "itti_ok s" using itti_init_good [OF assms] by (simp add: itti_good_def)
qed





section \<open>Properties\<close>

text \<open>C36. No tunnel id is lost while the eNB starts. In whatever way the creation of its threads (exactly those of its
  configuration, the ICM task last) is interleaved with messages the other tasks send and take, everything the ICM task
  is to see waits in its queue, which exists since \<^verbatim>\<open>itti_init\<close>, and once its thread runs it announces the tunnel ids of all of it in order.\<close>

theorem early_messages_announced:
  assumes "itti_init n fds itti_empty = Inr s0" and "creates es = enb_tasks cf" and "list_all boot_good es"
    and "list_all well_typed (icm_sees es)" and "length (icm_sees es) \<le> k" and "rrc0 cf" and "enb_nb \<noteq> 0"
  shows "\<exists>s c s'. create_tasks (\<lambda>_. True) cf enb_nb s0 = Inr (s0\<lparr>threads := creates es\<rparr>) \<and>
    rfold (boot_step hdr msize junk) es s0 = Inr s \<and> threads s = creates es \<and> last (threads s) = TASK_ICM \<and> distinct (threads s) \<and>
    icm_task k s = Inr (c, s') \<and> icm_sent c = map (\<lambda>w. (le32 w, addr_enb_peer)) (announced (icm_sees es))"
proof -
  note b = booted [OF assms(1)]
  obtain s where s: "rfold (boot_step hdr msize junk) es s0 = Inr s" "itti_ok s" "threads s = creates es" "pending TASK_ICM s = icm_sees es"
    using boot_run [OF b(1) assms(3), of hdr msize junk] b(2,3) by auto
  obtain c s' where "icm_task k s = Inr (c, s')" "icm_sent c = map (\<lambda>w. (le32 w, addr_enb_peer)) (announced (icm_sees es))"
    using icm_loop_spec [OF s(2), of k icm_start] s(4) assms(4,5) by (auto simp: icm_task_def icm_start_def)
  moreover have "create_tasks (\<lambda>_. True) cf enb_nb s0 = Inr (s0\<lparr>threads := creates es\<rparr>)"
    using create_tasks_eq [OF assms(6,7)] create_all(1) [of "\<lambda>_. True"] b(2) assms(2) by (simp add: list_all_iff)
  moreover have "last (threads s) = TASK_ICM" "distinct (threads s)" using s(3) assms(2) by (auto simp: enb_tasks_def)
  ultimately show ?thesis using s by auto
qed

lemma early_messages_announced_witness:
  "\<exists>s0 s c s'. itti_init (task_num TASK_MAX) (\<lambda>t. int (task_num t) + 3) itti_empty = Inr s0 \<and>
    rfold (boot_step 20 (\<lambda>_. 4) (view_msg (demo_resp 0))) demo_boot s0 = Inr s \<and>
    icm_task 2 s = Inr (c, s') \<and> icm_sent c = [(le32 7, addr_enb_peer), (le32 9, addr_enb_peer)]"
proof -
  obtain s0 where s0: "itti_init (task_num TASK_MAX) (\<lambda>t. int (task_num t) + 3) itti_empty = Inr s0"
    using itti_init_total [of "\<lambda>t. int (task_num t) + 3"] by auto
  have v: "msg_view (view_msg x) = x" for x by (cases x) (simp add: msg_view_def view_msg_def)
  have id: "ITTI_MSG_ID (view_msg (demo_resp w)) = S1AP_E_RAB_SETUP_RESP" for w by (simp add: view_msg_def demo_resp_def)
  have sees: "icm_sees demo_boot = [demo_resp 7, demo_resp 9]" by (simp add: icm_sees_def demo_boot_def v id)
  have h: "creates demo_boot = enb_tasks demo_conf_enb" "list_all boot_good demo_boot" "rrc0 demo_conf_enb"
    by (simp_all add: creates_def demo_boot_def enb_tasks_def demo_conf_enb_def boot_good_def)
  have i: "list_all well_typed (icm_sees demo_boot)" "length (icm_sees demo_boot) \<le> 2" "announced (icm_sees demo_boot) = [7, 9]"
    unfolding sees by (simp_all add: well_typed_def demo_resp_def)
  show ?thesis using early_messages_announced [OF s0 h(1,2) i(1,2) h(3), of 1 20 "\<lambda>_. 4" "view_msg (demo_resp 0)"] s0 i(3) by auto
qed



end
