(* ===== verification/Lcp_Receiver.thy ===== *)
theory Lcp_Receiver
  imports Prelude "HOL-Library.Signed_Division"
begin

text \<open>
  The measurement program at the UE (\<^verbatim>\<open>src/LCP Receiver/receiver.c\<close>): it sends the number of an experiment to the DRB
  starter, receives 350 packets, and appends the times at which they arrived and the flows they came from to a file.

  The calls of the operating system are given: the results of the socket calls, what \<^verbatim>\<open>scanf\<close> read, the values of the performance
  counter, and what arrived. \<^verbatim>\<open>int\<close> and \<^verbatim>\<open>QuadPart\<close> are integers with an error where a result does not fit. The numbers are printed
  with \<^verbatim>\<open>%u\<close>, which takes the lowest 32 bits.
\<close>

section \<open>The program\<close>

definition LCP_NUM_PACKETS :: nat where "LCP_NUM_PACKETS = 350"

datatype lcp_error = Int_Overflow | Division_By_Zero | Null_File

datatype lcp_end =
    Failed          \<comment> \<open>returns 1\<close>
  | Receiving       \<comment> \<open>blocks in \<^verbatim>\<open>recvfrom\<close>\<close>
  | Crashed lcp_error
  | Completed       \<comment> \<open>returns 0\<close>

text \<open>One call of \<^verbatim>\<open>recvfrom\<close>: its result, the port of the sender (in host order) if it wrote the address, and the counter afterwards.\<close>

record rx_call =
  rx_bytes :: int
  rx_port :: "u16 option"
  rx_time :: int

record lcp_env =
  wsa_ok :: bool
  socket_ok :: bool
  bind_ok :: bool
  scanned :: "int option"      \<comment> \<open>\<^verbatim>\<open>None\<close>: nothing was read, \<^verbatim>\<open>send_buf\<close> keeps what \<^verbatim>\<open>malloc\<close> gave\<close>
  junk_buf :: int
  junk_port :: u16             \<comment> \<open>\<^verbatim>\<open>sender.sin_port\<close> before the first datagram, in host order\<close>
  Frequency :: int
  StartingTime :: int
  fopen_ok :: bool
  shutdown_ok :: bool

definition my_addr :: sockaddr where
  "my_addr = \<lparr>sin_addr = ipv4 172 16 0 2, sin_port = 6000\<rparr>"

definition trigger_peer :: sockaddr where
  "trigger_peer = \<lparr>sin_addr = ipv4 192 168 178 42, sin_port = 7007\<rparr>"

definition send_buf :: "lcp_env \<Rightarrow> int" where
  "send_buf env = (case scanned env of Some i \<Rightarrow> i | None \<Rightarrow> junk_buf env)"

definition lcp_trigger :: "lcp_env \<Rightarrow> byte list \<times> sockaddr" where
  "lcp_trigger env = (le32 (word_of_int (send_buf env)), trigger_peer)"

definition in_range :: "nat \<Rightarrow> int \<Rightarrow> lcp_error + int" where
  "in_range w i = (if - (2 ^ (w - 1)) \<le> i \<and> i < 2 ^ (w - 1) then Inr i else Inl Int_Overflow)"

definition lcp_perc :: "lcp_env \<Rightarrow> lcp_error + int" where
  "lcp_perc env = in_range 32 (send_buf env * 10)"

text \<open>The loop around \<^verbatim>\<open>recvfrom\<close>: the port of each call, in memory as an \<^verbatim>\<open>int\<close> with the value in network order. A call that
  fails leaves the address as it was.\<close>

fun port_sends :: "u16 \<Rightarrow> rx_call list \<Rightarrow> int list" where
  "port_sends sender [] = []"
| "port_sends sender (r # rs) =
     (let sender' = (case rx_port r of Some p \<Rightarrow> p | None \<Rightarrow> sender)
      in uint (htons sender') # port_sends sender' rs)"

definition elapsed :: "lcp_env \<Rightarrow> int \<Rightarrow> lcp_error + int" where
  "elapsed env t =
     rbind (in_range 64 (t - StartingTime env)) (\<lambda>d.
     rbind (in_range 64 (d * 1000000)) (\<lambda>d.
       if Frequency env = 0 then Inl Division_By_Zero else in_range 64 (d sdiv Frequency env)))"

definition port_index :: "int \<Rightarrow> int" where
  "port_index p = uint (ntohs (word_of_int p)) - 6000"

text \<open>The conversions of \<^verbatim>\<open>printf\<close>.\<close>

fun digits :: "nat \<Rightarrow> string" where
  "digits n = (if n < 10 then [char_of (48 + n)] else digits (n div 10) @ [char_of (48 + n mod 10)])"

definition fmt_u :: "int \<Rightarrow> string" where
  "fmt_u i = digits (nat (i mod 2 ^ 32))"

definition fmt_d :: "int \<Rightarrow> string" where
  "fmt_d i = (if i < 0 then CHR ''-'' # digits (nat (- i)) else digits (nat i))"

definition lcp_title :: "int \<Rightarrow> string" where
  "lcp_title perc = ''2_15_times_P20_'' @ fmt_d perc @ ''_aktiv.txt''"

definition newline :: char where "newline = char_of (10 :: nat)"

text \<open>All numbers but the last are followed by a comma.\<close>

definition print_numbers :: "int list \<Rightarrow> string" where
  "print_numbers xs = concat (map (\<lambda>x. fmt_u x @ '','') (butlast xs)) @ fmt_u (last xs)"

definition lcp_log :: "int list \<Rightarrow> int list \<Rightarrow> string" where
  "lcp_log ts ps =
     [newline, newline] @ ''times=['' @ print_numbers ts @ ''];'' @
     [newline] @ ''ports=['' @ print_numbers ps @ ''];'' @ [newline]"

definition all_elapsed :: "lcp_env \<Rightarrow> rx_call list \<Rightarrow> lcp_error + int list" where
  "all_elapsed env rs = rfold (\<lambda>r ts. rbind (elapsed env (rx_time r)) (\<lambda>t. Inr (ts @ [t]))) rs []"

text \<open>What is done with 350 packets: the title and the text appended to the file of that title.\<close>

definition lcp_evaluate :: "lcp_env \<Rightarrow> int \<Rightarrow> rx_call list \<Rightarrow> lcp_error + string \<times> string" where
  "lcp_evaluate env perc rs =
     rbind (all_elapsed env rs) (\<lambda>ts.
       if fopen_ok env then Inr (lcp_title perc, lcp_log ts (map port_index (port_sends (junk_port env) rs)))
       else Inl Null_File)"

text \<open>The whole program: what it sends, what it appends to files, how it ends.\<close>

definition lcp_main :: "lcp_env \<Rightarrow> rx_call list \<Rightarrow> (byte list \<times> sockaddr) list \<times> (string \<times> string) list \<times> lcp_end" where
  "lcp_main env rs =
     (if \<not> wsa_ok env \<or> \<not> socket_ok env \<or> \<not> bind_ok env then ([], [], Failed)
      else case lcp_perc env of
          Inl e \<Rightarrow> ([lcp_trigger env], [], Crashed e)
        | Inr perc \<Rightarrow>
            if length rs < LCP_NUM_PACKETS then ([lcp_trigger env], [], Receiving)
            else case lcp_evaluate env perc (take LCP_NUM_PACKETS rs) of
                Inl e \<Rightarrow> ([lcp_trigger env], [], Crashed e)
              | Inr f \<Rightarrow> ([lcp_trigger env], [f], if shutdown_ok env then Completed else Failed))"

section \<open>Specification\<close>

text \<open>A reader of the log: numbers separated by commas up to a closing bracket.\<close>

definition is_digit :: "char \<Rightarrow> bool" where
  "is_digit c \<longleftrightarrow> 48 \<le> (of_char c :: nat) \<and> (of_char c :: nat) < 58"

fun read_list :: "nat \<Rightarrow> nat list \<Rightarrow> string \<Rightarrow> (nat list \<times> string) option" where
  "read_list v acc [] = None"
| "read_list v acc (c # cs) =
     (if c = CHR '','' then read_list 0 (acc @ [v]) cs
      else if c = CHR '']'' then Some (acc @ [v], cs)
      else if is_digit c then read_list (10 * v + (of_char c - 48)) acc cs
      else None)"

definition expect :: "string \<Rightarrow> string \<Rightarrow> string option" where
  "expect p s = (if take (length p) s = p then Some (drop (length p) s) else None)"

definition read_log :: "string \<Rightarrow> (nat list \<times> nat list) option" where
  "read_log s =
     (case expect ([newline, newline] @ ''times=['') s of None \<Rightarrow> None | Some s1 \<Rightarrow>
      case read_list 0 [] s1 of None \<Rightarrow> None | Some (ts, s2) \<Rightarrow>
      case expect ('';'' @ [newline] @ ''ports=['') s2 of None \<Rightarrow> None | Some s3 \<Rightarrow>
      case read_list 0 [] s3 of None \<Rightarrow> None | Some (ps, s4) \<Rightarrow>
      case expect ('';'' @ [newline]) s4 of None \<Rightarrow> None | Some s5 \<Rightarrow> Some (ts, ps))"

text \<open>A run in which nothing of the operating system fails: the counter runs, is not set back, and counts for less than 71 minutes.\<close>

definition measured :: "lcp_env \<Rightarrow> rx_call list \<Rightarrow> bool" where
  "measured env rs \<longleftrightarrow> 0 < Frequency env \<and> list_all (\<lambda>r. StartingTime env \<le> rx_time r \<and>
     (rx_time r - StartingTime env) * 1000000 < 2 ^ 63 \<and>
     (rx_time r - StartingTime env) * 1000000 div Frequency env < 2 ^ 32 \<and> rx_port r \<noteq> None) rs"

definition micros :: "lcp_env \<Rightarrow> rx_call \<Rightarrow> nat" where
  "micros env r = nat ((rx_time r - StartingTime env) * 1000000 div Frequency env)"

definition demo_lcp :: lcp_env where
  "demo_lcp = \<lparr>wsa_ok = True, socket_ok = True, bind_ok = True, scanned = Some 3, junk_buf = 0, junk_port = 0,
     Frequency = 10000000, StartingTime = 5000, fopen_ok = True, shutdown_ok = True\<rparr>"

definition demo_rx :: rx_call where
  "demo_rx = \<lparr>rx_bytes = 197, rx_port = Some 6002, rx_time = 20000\<rparr>"

section \<open>Lemmas\<close>

lemma digit_char:
  fixes d :: nat
  assumes "d < 10"
  shows "(of_char (char_of (48 + d) :: char) :: nat) = 48 + d" "char_of (48 + d) \<noteq> CHR '',''" "char_of (48 + d) \<noteq> CHR '']''"
proof -
  show c: "(of_char (char_of (48 + d) :: char) :: nat) = 48 + d" using assms by simp
  have "48 + d \<noteq> (of_char CHR '','' :: nat)" "48 + d \<noteq> (of_char CHR '']'' :: nat)" using assms by simp_all
  then show "char_of (48 + d) \<noteq> CHR '',''" "char_of (48 + d) \<noteq> CHR '']''" using c by metis+
qed

lemma read_digits:
  "read_list v acc (digits n @ cs) = read_list (v * 10 ^ length (digits n) + n) acc cs"
proof (induction n arbitrary: v cs rule: digits.induct)
  case (1 n)
  have one: "read_list v acc (char_of (48 + d) # cs) = read_list (10 * v + d) acc cs" if "d < 10" for d v cs
    using digit_char [OF that] that by (simp add: is_digit_def)
  show ?case
  proof (cases "n < 10")
    case True
    then show ?thesis using one [OF True, of v cs] by (simp add: mult.commute del: read_list.simps)
  next
    case False
    then have "read_list v acc (digits n @ cs) = read_list (v * 10 ^ length (digits (n div 10)) + n div 10) acc (char_of (48 + n mod 10) # cs)"
      using 1 [OF False, of v "char_of (48 + n mod 10) # cs"] by simp
    also have "\<dots> = read_list (v * 10 ^ length (digits n) + n) acc cs"
      using one [of "n mod 10"] False by (simp add: algebra_simps)
    finally show ?thesis .
  qed
qed

lemma print_numbers_Cons: "xs \<noteq> [] \<Longrightarrow> print_numbers (x # xs) = fmt_u x @ '','' @ print_numbers xs"
  by (simp add: print_numbers_def)

lemma read_numbers:
  "xs \<noteq> [] \<Longrightarrow> read_list 0 acc (print_numbers xs @ CHR '']'' # rest) = Some (acc @ map (\<lambda>x. nat (x mod 2 ^ 32)) xs, rest)"
proof (induction xs arbitrary: acc)
  case (Cons x xs)
  show ?case
  proof (cases "xs = []")
    case True
    then show ?thesis by (simp add: print_numbers_def fmt_u_def read_digits del: digits.simps)
  next
    case False
    then show ?thesis using Cons.IH [OF False] by (simp add: print_numbers_Cons fmt_u_def read_digits del: digits.simps)
  qed
qed simp

lemma expect_append [simp]: "expect p (p @ s) = Some s"
  by (simp add: expect_def)

text \<open>The log can be read back.\<close>

lemma read_log_lcp_log:
  assumes "ts \<noteq> []" and "ps \<noteq> []"
  shows "read_log (lcp_log ts ps) = Some (map (\<lambda>x. nat (x mod 2 ^ 32)) ts, map (\<lambda>x. nat (x mod 2 ^ 32)) ps)"
proof -
  let ?s4 = "'';'' @ [newline]"
  let ?s2 = "('';'' @ [newline] @ ''ports=['') @ print_numbers ps @ CHR '']'' # ?s4"
  have "lcp_log ts ps = ([newline, newline] @ ''times=['') @ print_numbers ts @ CHR '']'' # ?s2" by (simp add: lcp_log_def)
  then show ?thesis using read_numbers [OF assms(1), of "[]" ?s2] read_numbers [OF assms(2), of "[]" ?s4] expect_append [of ?s4 "[]"]
    unfolding read_log_def by (simp only: expect_append option.case prod.case append_Nil append_Nil2)
qed

lemma length_digits: "n < 10 ^ k \<Longrightarrow> 0 < k \<Longrightarrow> length (digits n) \<le> k"
proof (induction n arbitrary: k rule: digits.induct)
  case (1 n)
  show ?case
  proof (cases "n < 10")
    case False
    then obtain j where k: "k = Suc j" "0 < j" using 1(2,3) by (cases k; cases "k - 1") auto
    then have "n div 10 < 10 ^ j" using 1(2) by (simp add: less_mult_imp_div_less mult.commute)
    then show ?thesis using 1(1) [OF False _ k(2)] False k(1) by simp
  qed (use 1 in simp)
qed

text \<open>Every number an \<^verbatim>\<open>int\<close> can hold leaves room in the 50 bytes of the title, the zero byte included.\<close>

lemma title_fits:
  assumes "- (2 ^ 31) \<le> perc" and "perc < 2 ^ 31"
  shows "length (lcp_title perc) < 50"
proof -
  have "nat (- perc) < 10 ^ 10" "nat perc < 10 ^ 10" using assms by simp_all
  then have "length (digits (nat (- perc))) \<le> 10" "length (digits (nat perc)) \<le> 10" by (simp_all add: length_digits del: digits.simps)
  then show ?thesis by (simp add: lcp_title_def fmt_d_def del: digits.simps)
qed

lemma port_index_htons: "port_index (uint (htons p)) = uint p - 6000"
  by (simp add: port_index_def)

lemma port_sends_all:
  "list_all (\<lambda>r. rx_port r \<noteq> None) rs \<Longrightarrow> port_sends j rs = map (\<lambda>r. uint (htons (the (rx_port r)))) rs"
  by (induction rs arbitrary: j) auto

lemma elapsed_ok:
  assumes "0 < Frequency env" and "StartingTime env \<le> t" and "(t - StartingTime env) * 1000000 < 2 ^ 63"
  shows "elapsed env t = Inr ((t - StartingTime env) * 1000000 div Frequency env)"
proof -
  let ?d = "t - StartingTime env"
  have d: "0 \<le> ?d" "?d < 2 ^ 63" using assms(2,3) by simp_all
  have "?d * 1000000 sdiv Frequency env = ?d * 1000000 div Frequency env"
    using d(1) assms(1) by (auto simp: signed_divide_int_def sgn_if)
  moreover have "?d * 1000000 div Frequency env \<le> ?d * 1000000" using zdiv_mono2 [of "?d * 1000000" 1 "Frequency env"] d(1) assms(1) by simp
  moreover have "0 \<le> ?d * 1000000 div Frequency env" using d(1) assms(1) by (simp add: pos_imp_zdiv_nonneg_iff)
  ultimately show ?thesis using d assms by (simp add: elapsed_def in_range_def)
qed

lemma all_elapsed_ok:
  assumes "measured env rs"
  shows "all_elapsed env rs = Inr (map (\<lambda>r. int (micros env r)) rs)"
proof -
  have "rfold (\<lambda>r ts. rbind (elapsed env (rx_time r)) (\<lambda>t. Inr (ts @ [t]))) rs acc = Inr (acc @ map (\<lambda>r. int (micros env r)) rs)" for acc
    using assms
  proof (induction rs arbitrary: acc)
    case (Cons r rs)
    then have r: "elapsed env (rx_time r) = Inr (int (micros env r))"
      by (simp add: elapsed_ok measured_def micros_def pos_imp_zdiv_nonneg_iff)
    then show ?case using Cons by (simp add: measured_def)
  qed simp
  then show ?thesis by (simp add: all_elapsed_def)
qed

lemma micros_small: "measured env rs \<Longrightarrow> r \<in> set rs \<Longrightarrow> int (micros env r) mod 2 ^ 32 = int (micros env r)"
  by (auto simp: measured_def list_all_iff micros_def pos_imp_zdiv_nonneg_iff)

lemma micros_mono: "0 < Frequency env \<Longrightarrow> rx_time r \<le> rx_time r' \<Longrightarrow> micros env r \<le> micros env r'"
  unfolding micros_def by (intro nat_mono zdiv_mono1 mult_right_mono) simp_all

text \<open>A complete run and what can be read from the file.\<close>

lemma lcp_main_log:
  assumes "wsa_ok env" and "socket_ok env" and "bind_ok env" and "fopen_ok env" and "lcp_perc env = Inr perc"
    and "350 \<le> length rs" and "measured env (take 350 rs)"
  shows "\<exists>text. lcp_main env rs = ([lcp_trigger env], [(lcp_title perc, text)], if shutdown_ok env then Completed else Failed) \<and>
    read_log text = Some (map (micros env) (take 350 rs), map (\<lambda>r. nat ((uint (the (rx_port r)) - 6000) mod 2 ^ 32)) (take 350 rs))"
proof -
  let ?rs = "take 350 rs"
  let ?text = "lcp_log (map (\<lambda>r. int (micros env r)) ?rs) (map port_index (port_sends (junk_port env) ?rs))"
  have m: "list_all (\<lambda>r. rx_port r \<noteq> None) ?rs" using assms(7) by (auto simp: measured_def list_all_iff)
  have ports: "map port_index (port_sends (junk_port env) ?rs) = map (\<lambda>r. uint (the (rx_port r)) - 6000) ?rs"
    unfolding port_sends_all [OF m] by (simp add: port_index_htons)
  have "?rs \<noteq> []" using assms(6) by auto
  then have "read_log ?text = Some (map (\<lambda>r. nat (int (micros env r) mod 2 ^ 32)) ?rs, map (\<lambda>r. nat ((uint (the (rx_port r)) - 6000) mod 2 ^ 32)) ?rs)"
    unfolding ports by (subst read_log_lcp_log) (simp_all add: comp_def)
  moreover have "map (\<lambda>r. nat (int (micros env r) mod 2 ^ 32)) ?rs = map (micros env) ?rs"
    using micros_small [OF assms(7)] by (intro map_cong refl) simp
  moreover have "lcp_main env rs = ([lcp_trigger env], [(lcp_title perc, ?text)], if shutdown_ok env then Completed else Failed)"
    using assms(1-6) all_elapsed_ok [OF assms(7)] by (simp add: lcp_main_def lcp_evaluate_def LCP_NUM_PACKETS_def)
  ultimately show ?thesis by auto
qed

text \<open>The time printed for a packet that arrives 71 minutes and 35 seconds later is the same.\<close>

lemma printed_time_wraps: "fmt_u (t + 2 ^ 32) = fmt_u t"
  by (simp add: fmt_u_def)

section \<open>Properties\<close>

text \<open>C38. The measurement is what was received: if the calls of the operating system succeed and 350 packets arrive within 71
  minutes, the program sends its trigger, and what it appends to the file reads back as the arrival times of the first
  350 packets in microseconds, in the order of their arrival, and the numbers of their flows (the source port less 6000). The
  name of the file fits its 50 bytes, whatever the number of the experiment.\<close>

theorem log_roundtrip:
  assumes "wsa_ok env" and "socket_ok env" and "bind_ok env" and "fopen_ok env" and "lcp_perc env = Inr perc"
    and "350 \<le> length rs" and "measured env (take 350 rs)"
  shows "\<exists>text. lcp_main env rs = ([lcp_trigger env], [(lcp_title perc, text)], if shutdown_ok env then Completed else Failed) \<and>
    read_log text = Some (map (micros env) (take 350 rs), map (\<lambda>r. nat ((uint (the (rx_port r)) - 6000) mod 2 ^ 32)) (take 350 rs)) \<and>
    (sorted (map rx_time rs) \<longrightarrow> sorted (map (micros env) (take 350 rs))) \<and> length (lcp_title perc) < 50"
proof -
  have "sorted (map (micros env) (take 350 rs))" if "sorted (map rx_time rs)"
  proof -
    have "sorted_wrt (\<lambda>r r'. rx_time r \<le> rx_time r') (take 350 rs)" using that sorted_wrt_take by (auto simp: sorted_map)
    moreover have "0 < Frequency env" using assms(7) by (simp add: measured_def)
    ultimately show ?thesis unfolding sorted_map using micros_mono by (blast intro: sorted_wrt_mono_rel [rotated])
  qed
  moreover have "length (lcp_title perc) < 50"
    using assms(5) by (intro title_fits) (auto simp: lcp_perc_def in_range_def split: if_splits)
  ultimately show ?thesis using lcp_main_log [OF assms] by blast
qed

lemma log_roundtrip_witness:
  "\<exists>text. lcp_main demo_lcp (replicate 350 demo_rx) = ([(le32 3, trigger_peer)], [(''2_15_times_P20_30_aktiv.txt'', text)], Completed) \<and>
    read_log text = Some (replicate 350 1500, replicate 350 2)"
proof -
  have e: "wsa_ok demo_lcp" "socket_ok demo_lcp" "bind_ok demo_lcp" "fopen_ok demo_lcp" "lcp_perc demo_lcp = Inr 30"
    by (simp_all add: demo_lcp_def lcp_perc_def in_range_def send_buf_def)
  have m: "350 \<le> length (replicate 350 demo_rx)" "measured demo_lcp (take 350 (replicate 350 demo_rx))"
    by (simp_all add: measured_def demo_lcp_def demo_rx_def list_all_length)
  have "lcp_trigger demo_lcp = (le32 3, trigger_peer)" "lcp_title 30 = ''2_15_times_P20_30_aktiv.txt''" "micros demo_lcp demo_rx = 1500"
      "the (rx_port demo_rx) = 6002" "shutdown_ok demo_lcp"
    by (simp_all add: lcp_trigger_def send_buf_def demo_lcp_def lcp_title_def fmt_d_def micros_def demo_rx_def char_of_def bit_0)
  then show ?thesis using log_roundtrip [OF e m] by auto
qed

end
