(* ===== verification/Spec2Isabelle.thy ===== *)
theory Spec2Isabelle
  imports Packet_Terminal Itti_Wake Icm Udp_Task Attach_Types Mme_Flow Dl_Slices Paging Lte_M Startup Lcp_Receiver
begin

text \<open>
  Verification of a prototype that couples an LTE network with time-sensitive networking. The prototype is a set
  of changes to an LTE base station (\<^verbatim>\<open>src/openairinterface5g\<close>, the eNB) and to an LTE core network
  (\<^verbatim>\<open>src/openair-cn\<close>, the MME), and a packet terminal (\<^verbatim>\<open>src/packet_terminal\<close>) that sits between the two.

  \<^bold>\<open>How the parts work together.\<close> When a UE has attached (\<^verbatim>\<open>Attach.c\<close>), the DRB starter of the MME (\<^verbatim>\<open>drb.c\<close>) sets up three
  dedicated bearers: it writes three S1AP E-RAB setup requests byte by byte and sends them to the eNB; the S1AP decoder
  (\<^verbatim>\<open>s1ap_mme_decoder.c\<close>) tells it when the eNB has answered. In the eNB every message between tasks (ITTI) is also
  copied to the ICM task (\<^verbatim>\<open>icm.c\<close>), which picks the tunnel ids (TEIDs) of the new bearers out of the E-RAB setup responses
  and announces them to the packet terminal. The UDP task of the eNB (\<^verbatim>\<open>udp_eNB_task.c\<close>) sends GTP traffic to the packet
  terminal instead of the core network. The packet terminal forwards GTP packets in both directions and, on the way
  down, replaces the TEID of packets of the three time-critical flows by that of their bearer. The downlink scheduler
  of the eNB (\<^verbatim>\<open>eNB_scheduler_dlsch.c\<close>) serves these bearers by a gate control list, in windows of 5, 10 and 20 subframes, and
  merges the RLC PDUs of all bearers into one PDU of the default bearer, because the UE knows only that one.

  \<^bold>\<open>Theories.\<close>
  \<^item> \<open>Prelude\<close>: bytes, words and byte order, network addresses, reading and writing buffers, computations that fail
    (\<open>rbind\<close>, \<open>rfold\<close> on sums), and the interfaces: \<open>codec\<close> (encodings with a fixed length), \<open>fifo\<close> (queues), \<open>keeps\<close>,
    \<open>keeps_err\<close> and their variants for some inputs only (invariants of runs), \<open>turns\<close> (a loop in which everyone has one turn, seen from one
    of them).
  \<^item> \<open>Packet_Terminal\<close> (\<^verbatim>\<open>packet_terminal.h\<close>, \<^verbatim>\<open>packet_terminal.c\<close>): the downlink and uplink threads (\<open>udp_handler_down\<close>, \<open>udp_handler_up\<close>),
    the linked list of packets on a heap (\<open>add_queue_item\<close>, \<open>print_last_item\<close>), the printing thread, and the process as a step
    relation \<open>pt_step\<close> that interleaves them. Lemmas: the list implements a queue and never leaves a dangling
    pointer, TEIDs are learnt in order and exchanged in exactly four bytes, shutdown.
  \<^item> \<open>Itti\<close> (\<^verbatim>\<open>intertask_interface.h\<close>, \<^verbatim>\<open>intertask_interface.cpp\<close>): tasks with queues of pointers to messages on a heap, sending with the copy
    for the ICM task, receiving, polling and waiting for events, timers, initialisation. Lemmas: every queue
    holds its messages in order, ids of timers.
  \<^item> \<open>Itti_Wake\<close>: the interleaving of the tasks on these queues as a step relation \<open>itti_step\<close>, whose steps are the parts of the functions that run
    under one lock. No wake-up is lost, given that a task that waits for events also receives messages, as the one caller does.
  \<^item> \<open>Icm\<close> (\<^verbatim>\<open>icm.c\<close>): the loop of the ICM task over its queue; it refines a function from messages to announced TEIDs.
  \<^item> \<open>Udp_Task\<close> (\<^verbatim>\<open>udp_eNB_task.c\<close>): the socket list, the receiver, the handling of UDP_INIT, UDP_DATA_REQ and TERMINATE_MESSAGE.
  \<^item> \<open>Drb\<close> (\<^verbatim>\<open>drb.c\<close>, \<^verbatim>\<open>drb.h\<close>): the messages of the DRB task, the three requests as byte strings, the socket thread and the test traffic. The
    requests are parsed again by a reference parser.
  \<^item> \<open>S1ap\<close> (\<^verbatim>\<open>s1ap_mme_decoder.c\<close>, \<^verbatim>\<open>s1ap_mme_itti_messaging.h\<close>): which messages are decoded, which tasks are told, what is freed.
  \<^item> \<open>Attach\<close> (\<^verbatim>\<open>Attach.c\<close>): the attach procedure of the MME with its timer T3450, on a state of contexts, saved data and an
    output of calls to other parts.
  \<^item> \<open>Attach_Rely\<close>: what one UE relies on while the functions called and the rest of the MME change the state (\<open>quiet\<close>): its table entries, its
    saved data, and the fields of its context that only the attach procedure writes. The timer T3450, and a sample environment that does work.
  \<^item> \<open>Attach_Types\<close>: the steps after the attach request, the callbacks of the common procedures among them, follow no bad pointer, proved in the manner of a
    type system with one rule for each way to build a computation. The implicit detach and the final notifications may free contexts.
  \<^item> \<open>Mme_Flow\<close>: the way of an attach through the MME, from the attach request to the active bearers, over \<open>Attach\<close>, \<open>S1ap\<close> and \<open>Drb\<close>. The callbacks are
    called by common procedures outside the repository; \<open>attach_dialogue\<close> calls them in the order in which \<^verbatim>\<open>Attach.c\<close> hands them out, with
    steps of the rest of the MME in between.
  \<^item> \<open>Rlc_Concat\<close>: the part of \<^verbatim>\<open>schedule_ue_spec\<close> that merges RLC PDUs, on buffers with their bounds. A reference encoder
    and decoder of RLC unacknowledged mode PDUs give the specification.
  \<^item> \<open>Mac_Header\<close>: \<^verbatim>\<open>generate_dlsch_header\<close>, with a receiver of MAC PDUs as specification.
  \<^item> \<open>Dl_Sched\<close>: the branch of \<^verbatim>\<open>schedule_ue_spec\<close> for new data: timing advance, gate control list, taking SDUs from RLC, the
    search for resource blocks and scheme, subbands, the MAC PDU.
  \<^item> \<open>Ue_Spec\<close>: \<^verbatim>\<open>schedule_ue_spec\<close> for all UEs of a carrier: skipped UEs, retransmission, new transmission, power control, TDD
    indices, DCI, and \<^verbatim>\<open>fill_DLSCH_dci\<close>. The requests to the physical layer are a list.
  \<^item> \<open>Dl_Slices\<close>: the slices and the multiplexing of left-over resource block groups between them.
  \<^item> \<open>Paging\<close>: \<^verbatim>\<open>schedule_PCH\<close>.
  \<^item> \<open>Lte_M\<close>: \<^verbatim>\<open>schedule_ue_spec_br\<close>, the scheduler for LTE-M devices, with the local variables that keep a value from one UE to the next. Lemmas:
    a block is filled exactly, what is announced is sent, what goes wrong with repetitions.
  \<^item> \<open>Startup\<close> (\<^verbatim>\<open>create_tasks.c\<close>, \<^verbatim>\<open>oai_mme.c\<close>): the threads of the eNB on the state of \<open>Itti\<close>, interleaved with messages, and the calls of the \<^verbatim>\<open>main\<close>
    of the MME.
  \<^item> \<open>Lcp_Receiver\<close> (\<^verbatim>\<open>LCP Receiver/receiver.c\<close>): the program at the UE that triggers the test traffic and logs its arrival. A reader of the log is the
    specification.

  \<^bold>\<open>Conventions.\<close> A structure is a record, an operation a function on it with the name it has in the code. Code outside
  the repository (RLC, RRC, the NAS and ESM libraries, the ASN.1 decoder, the nFAPI functions, the pre-processor, sockets) is an
  argument, usually a record of functions; what a theorem needs of it is a named hypothesis. Accesses outside
  a buffer, null pointers, assertions and uses of freed memory are values of an error type, so that a theorem that
  an operation returns a state also says that none of them happens. Bytes, ports, addresses and TEIDs are words of their
  width; counters that the code keeps in an \<^verbatim>\<open>int\<close> far from its bounds are integers. Threads are interleaved at the
  calls that block, in \<open>Itti_Wake\<close> at every unlock. A sleep takes at least the time that is asked
  for. The sample environment of the attach procedure changes and frees contexts.

  \<^bold>\<open>Bounds and fuel.\<close> Endless loops of tasks are runs over the sequence of what arrives; the ICM loop has a
  number of iterations, and as many as there are messages are enough. The loops of the scheduler end by a measure; the
  search for resource blocks has the value \<open>None\<close> for a block size of zero, with which the code would not end, and the search of the LTE-M scheduler (\<open>br_mcs_up\<close>) is proved to return. The new RLC
  header has 100 bytes, which limits a transport block to 65 data fields (\<open>loaded\<close>).

  \<^bold>\<open>Not modelled.\<close> \<^verbatim>\<open>getRepetition\<close>, which is never called; several carriers; the constant fields of DCI and
  DLSCH configuration; the NAS security data that another file copies into messages; thread priorities and the names of tasks and messages
  in ITTI; failures of socket calls that only print a message.
\<close>

section \<open>From the eNB to the packet terminal\<close>

lemma icm_addresses: "is_icm (addr_local icm_start)"
  by (simp add: is_icm_def icm_start_def Packet_Terminal.IPV4_ADDR_ENB_def Icm.IPV4_ADDR_ENB_def
      Packet_Terminal.PORT_ICM_def Icm.PORT_ICM_def)

text \<open>C5. The tunnel ids of the bearers reach the packet terminal: whatever setup responses wait in the queue of the ICM
  task, the datagrams it sends for them, received from its address by the downlink thread of the terminal, make the
  terminal keep the last three of their tunnel ids, in order; nothing is forwarded meanwhile, and the thread goes on.\<close>

theorem teids_reach_terminal:
  assumes "itti_ok s" and "length (pending TASK_ICM s) \<le> n" and "list_all well_typed (pending TASK_ICM s)"
    and "ts = announced (pending TASK_ICM s)" and "0 \<notin> set ts" and "down_ok d"
  shows "\<exists>c s' d'. icm_task n s = Inr (c, s') \<and>
    udp_handler_down (map (\<lambda>(bytes, dest). Rx bytes (addr_local c)) (icm_sent c)) d q = Inr (d', q, True, []) \<and>
    index_drb d' = (index_drb d + length ts) mod MAX_DRB \<and>
    (\<forall>j < length ts. length ts \<le> j + MAX_DRB \<longrightarrow> le32 (teid_array d' ! ((index_drb d + j) mod MAX_DRB)) = be32 (ts ! j))"
proof -
  have start: "icm.run icm_start" "icm_sent icm_start = []" by (simp_all add: icm_start_def)
  obtain c s' where c: "icm_task n s = Inr (c, s')" "icm_sent c = map (\<lambda>w. (le32 w, addr_enb_peer)) ts" "addr_local c = addr_local icm_start"
    using icm_loop_spec [OF assms(1-3) start(1)] start(2) assms(4) by (auto simp: icm_task_def)
  have "map (\<lambda>(bytes, dest). Rx bytes (addr_local c)) (icm_sent c) = map (\<lambda>t. Rx (le32 t) (addr_local icm_start)) ts"
    using c(2,3) by simp
  then show ?thesis
    using c(1) learn_fold [OF assms(6), of "addr_local icm_start" ts] learn_all [OF icm_addresses assms(6,5), of q "[]"]
    by (auto simp: udp_handler_down_def Let_def le32_htonl)
qed

lemma teids_reach_terminal_witness:
  "\<exists>c s' d'. icm_task 2 (fold (enq_msg TASK_ICM \<circ> view_msg) [demo_resp 7, demo_resp 9] itti_empty) = Inr (c, s') \<and>
    udp_handler_down (map (\<lambda>(bytes, dest). Rx bytes (addr_local c)) (icm_sent c)) demo_down empty_queue = Inr (d', empty_queue, True, []) \<and>
    le32 (teid_array d' ! ((index_drb demo_down + 1) mod MAX_DRB)) = be32 9"
proof -
  note q = demo_queue [of "[demo_resp 7, demo_resp 9]"]
  have p: "length (pending TASK_ICM (fold (enq_msg TASK_ICM \<circ> view_msg) [demo_resp 7, demo_resp 9] itti_empty)) \<le> 2"
    "list_all well_typed (pending TASK_ICM (fold (enq_msg TASK_ICM \<circ> view_msg) [demo_resp 7, demo_resp 9] itti_empty))"
    "[7, 9] = announced (pending TASK_ICM (fold (enq_msg TASK_ICM \<circ> view_msg) [demo_resp 7, demo_resp 9] itti_empty))"
    "(0 :: u32) \<notin> set [7, 9]" "down_ok demo_down"
    unfolding q(2) by (simp_all add: demo_resp_def well_typed_def demo_simps)
  show ?thesis using teids_reach_terminal [OF q(1) p, of empty_queue] by (auto simp: MAX_DRB_def)
qed

section \<open>From the measurement program to the DRB starter and back\<close>

lemma flow_numbers:
  "nat ((uint Drb.PORT1 - 6000) mod 2 ^ 32) = 1" "nat ((uint Drb.PORT2 - 6000) mod 2 ^ 32) = 2" "nat ((uint Drb.PORT3 - 6000) mod 2 ^ 32) = 3"
  by (simp_all add: Drb.PORT1_def Drb.PORT2_def Drb.PORT3_def)

text \<open>C39. An experiment: the trigger of the measurement program goes to the address and the port at which the DRB starter waits,
  which reads from it the number that was typed in and, unless it is 0, starts its three flows towards the measurement
  program. If then 350 packets of these flows arrive, the log gives for each of them the number of its flow.\<close>

theorem experiment_logged:
  assumes "- (2 ^ 31) \<le> send_buf env" and "send_buf env < 2 ^ 31" and "send_buf env \<noteq> 0"
    and "wsa_ok env" and "socket_ok env" and "bind_ok env" and "fopen_ok env" and "lcp_perc env = Inr perc"
    and "350 \<le> length rs" and "measured env (take 350 rs)"
    and "\<forall>r\<in>set (take 350 rs). the (rx_port r) \<in> fst ` set (flows my_addr)"
  shows "\<exists>bytes lg ts ns. lcp_main env rs = ([(bytes, \<lparr>sin_addr = ADDR_EPC, sin_port = PORT0\<rparr>)], [(lcp_title perc, lg)],
      if shutdown_ok env then Completed else lcp_end.Failed) \<and>
    sint (of_le32 bytes) = send_buf env \<and>
    trigger_loop [(False, [(my_addr, sint (of_le32 bytes))])] = (flows my_addr, Still_Waiting) \<and>
    read_log lg = Some (ts, ns) \<and> length ns = 350 \<and>
    (\<forall>k<350. 1 \<le> ns ! k \<and> ns ! k \<le> 3 \<and> fst (flows my_addr ! (ns ! k - 1)) = the (rx_port (rs ! k)))"
proof -
  let ?ns = "map (\<lambda>r. nat ((uint (the (rx_port r)) - 6000) mod 2 ^ 32)) (take 350 rs)"
  let ?bytes = "le32 (word_of_int (send_buf env))"
  obtain lg where lg: "lcp_main env rs = ([lcp_trigger env], [(lcp_title perc, lg)], if shutdown_ok env then Completed else lcp_end.Failed)"
      "read_log lg = Some (map (micros env) (take 350 rs), ?ns)"
    using lcp_main_log [OF assms(4-10)] by blast
  have trigger: "lcp_trigger env = (?bytes, \<lparr>sin_addr = ADDR_EPC, sin_port = PORT0\<rparr>)"
    by (simp add: lcp_trigger_def trigger_peer_def ADDR_EPC_def PORT0_def)
  have read: "sint (of_le32 ?bytes) = send_buf env" using assms(1,2) by (simp add: signed_of_int signed_take_bit_int_eq_self_iff [THEN iffD2])
  then have loop: "trigger_loop [(False, [(my_addr, sint (of_le32 ?bytes))])] = (flows my_addr, Still_Waiting)"
    using assms(3) by (simp add: my_addr_def PORT_UE_def)
  have "1 \<le> ?ns ! k \<and> ?ns ! k \<le> 3 \<and> fst (flows my_addr ! (?ns ! k - 1)) = the (rx_port (rs ! k))" if "k < 350" for k
  proof -
    have "rs ! k \<in> set (take 350 rs)" using that assms(9) by (metis length_take min.absorb2 nth_mem nth_take)
    then have p: "the (rx_port (rs ! k)) \<in> {Drb.PORT1, Drb.PORT2, Drb.PORT3}" using assms(11) by (auto simp: flows_def)
    have n: "?ns ! k = nat ((uint (the (rx_port (rs ! k))) - 6000) mod 2 ^ 32)" using that assms(9) by simp
    from p show ?thesis unfolding insert_iff empty_iff
      by (elim disjE FalseE) (simp only: n flow_numbers, simp add: flows_def)+
  qed
  then show ?thesis using lg trigger read loop assms(9) by (intro exI [of _ ?bytes] exI [of _ lg] exI [of _ ?ns] exI) auto
qed

lemma experiment_logged_witness:
  "\<exists>lg ts ns. read_log lg = Some (ts, ns) \<and> length ns = 350 \<and> ns ! 7 = 2 \<and>
    snd (snd (lcp_main demo_lcp (replicate 350 demo_rx))) = Completed"
proof -
  have e: "- (2 ^ 31) \<le> send_buf demo_lcp" "send_buf demo_lcp < 2 ^ 31" "send_buf demo_lcp \<noteq> 0"
    "wsa_ok demo_lcp" "socket_ok demo_lcp" "bind_ok demo_lcp" "fopen_ok demo_lcp" "lcp_perc demo_lcp = Inr 30" "shutdown_ok demo_lcp"
    by (simp_all add: demo_lcp_def lcp_perc_def in_range_def send_buf_def)
  have m: "350 \<le> length (replicate 350 demo_rx)" "measured demo_lcp (take 350 (replicate 350 demo_rx))"
    by (simp_all add: measured_def demo_lcp_def demo_rx_def list_all_length)
  have p: "the (rx_port demo_rx) = Drb.PORT2" "\<forall>r\<in>set (take 350 (replicate 350 demo_rx)). the (rx_port r) \<in> fst ` set (flows my_addr)"
    by (simp_all add: demo_rx_def flows_def Drb.PORT2_def)
  obtain bytes lg ts ns where r: "lcp_main demo_lcp (replicate 350 demo_rx) = ([(bytes, \<lparr>sin_addr = ADDR_EPC, sin_port = PORT0\<rparr>)], [(lcp_title 30, lg)], Completed)"
      "read_log lg = Some (ts, ns)" "length ns = 350"
      "\<forall>k<350. 1 \<le> ns ! k \<and> ns ! k \<le> 3 \<and> fst (flows my_addr ! (ns ! k - 1)) = the (rx_port (replicate 350 demo_rx ! k))"
    using experiment_logged [OF e(1-8) m p(2)] e(9) by auto
  have "1 \<le> ns ! 7 \<and> ns ! 7 \<le> 3 \<and> fst (flows my_addr ! (ns ! 7 - 1)) = Drb.PORT2" using r(4) p(1) by simp
  then have "ns ! 7 = 1 \<or> ns ! 7 = 2 \<or> ns ! 7 = 3" "fst (flows my_addr ! (ns ! 7 - 1)) = Drb.PORT2" by auto
  then have "ns ! 7 = 2" by (auto simp: flows_def Drb.PORT1_def Drb.PORT2_def Drb.PORT3_def)
  then show ?thesis using r by auto
qed

end
